(* ===== verification/RGS_Prelude.thy ===== *)
theory RGS_Prelude
  imports Main "HOL-Library.Word" "HOL-Library.Multiset" "HOL-Library.Sublist"
begin

text \<open>
  Shared vocabulary of the development: machine integers, panics as values, loops that may
  panic, and the generic lemmas on lists and words that the component theories use.

  The server is built with the release profile, in which integer overflow wraps; arithmetic on
  words below is therefore the wrapping arithmetic of HOL-Library.Word. Everything that still
  aborts in that profile (unwrap of None, an explicit panic or assertion, an index out of
  bounds, division by zero) is a value of type \<open>panic\<close>.
\<close>

unbundle bit_operations_syntax

type_synonym u8 = "8 word"
type_synonym u16 = "16 word"
type_synonym u32 = "32 word"
type_synonym u64 = "64 word"

type_synonym bytes = "u8 list"

text \<open>The signed casts \<open>x as i64\<close> and \<open>x as u64\<close> keep the bits; an \<open>i64\<close> is the integer it denotes.\<close>

definition as_i64 :: "u64 \<Rightarrow> int" where
  "as_i64 w = sint w"

definition as_u64 :: "int \<Rightarrow> u64" where
  "as_u64 i = word_of_int i"

definition as_u32 :: "int \<Rightarrow> u32" where
  "as_u32 i = word_of_int i"

text \<open>\<open>saturating_sub\<close> and \<open>checked_sub\<close> of the unsigned types.\<close>

definition saturating_sub :: "'a::len word \<Rightarrow> 'a word \<Rightarrow> 'a word" where
  "saturating_sub a b = (if b \<le> a then a - b else 0)"

definition checked_sub :: "'a::len word \<Rightarrow> 'a word \<Rightarrow> 'a word option" where
  "checked_sub a b = (if b \<le> a then Some (a - b) else None)"

definition saturating_mul :: "'a::len word \<Rightarrow> 'a word \<Rightarrow> 'a word" where
  "saturating_mul a b = (if unat a * unat b < 2 ^ LENGTH('a) then a * b else - 1)"

section \<open>Panics\<close>

datatype panic =
    Unwrap_None
  | Index_Out_Of_Bounds
  | Rem_By_Zero
  | Assertion_Failed
  | Unsorted_Scids
  | Clock_Before_Threshold
  | Bad_Environment
  | Invalid_Network
  | Invalid_Log_Level
  | Invalid_Peer_Info
  | Unknown_Schema
  | Io_Error
  | Unreachable

type_synonym 'a res = "panic + 'a"

definition bind_res :: "'a res \<Rightarrow> ('a \<Rightarrow> 'b res) \<Rightarrow> 'b res" where
  "bind_res m f = (case m of Inl e \<Rightarrow> Inl e | Inr x \<Rightarrow> f x)"

definition unwrap :: "'a option \<Rightarrow> 'a res" where
  "unwrap x = (case x of None \<Rightarrow> Inl Unwrap_None | Some v \<Rightarrow> Inr v)"

definition no_panic :: "'a res \<Rightarrow> bool" where
  "no_panic m = (case m of Inl _ \<Rightarrow> False | Inr _ \<Rightarrow> True)"

text \<open>A \<open>for\<close> loop whose body may panic: it stops at the first panic.\<close>

fun fold_res :: "('x \<Rightarrow> 's \<Rightarrow> 's res) \<Rightarrow> 'x list \<Rightarrow> 's \<Rightarrow> 's res" where
  "fold_res f [] s = Inr s"
| "fold_res f (x # xs) s = bind_res (f x s) (fold_res f xs)"

named_theorems res_simps \<open>computation rules of the panic monad\<close>

lemma bind_res_Inl [simp, res_simps]: "bind_res (Inl e) f = Inl e"
  by (simp add: bind_res_def)

lemma bind_res_Inr [simp, res_simps]: "bind_res (Inr x) f = f x"
  by (simp add: bind_res_def)

lemma unwrap_Some [simp, res_simps]: "unwrap (Some v) = Inr v"
  by (simp add: unwrap_def)

lemma unwrap_None [simp, res_simps]: "unwrap None = Inl Unwrap_None"
  by (simp add: unwrap_def)

lemma bind_res_eq_Inr: "bind_res m f = Inr y \<longleftrightarrow> (\<exists>x. m = Inr x \<and> f x = Inr y)"
  by (cases m) auto

lemma unwrap_eq_Inr: "unwrap x = Inr v \<longleftrightarrow> x = Some v"
  by (cases x) auto

lemma bind_res_assoc: "bind_res (bind_res m f) g = bind_res m (\<lambda>x. bind_res (f x) g)"
  by (cases m) auto

lemma no_panic_iff: "no_panic m \<longleftrightarrow> (\<exists>x. m = Inr x)"
  by (cases m) (auto simp: no_panic_def)

lemma no_panic_simps [simp]: "no_panic (Inr x)" "\<not> no_panic (Inl e)"
  by (auto simp: no_panic_def)

lemma fold_res_append:
  "fold_res f (xs @ ys) s = bind_res (fold_res f xs s) (fold_res f ys)"
proof (induction xs arbitrary: s)
  case (Cons x xs)
  then have "fold_res f (xs @ ys) = (\<lambda>t. bind_res (fold_res f xs t) (fold_res f ys))"
    by (rule ext)
  then show ?case by (simp add: bind_res_assoc)
qed simp

lemma fold_res_pure:
  assumes "\<And>x s. x \<in> set xs \<Longrightarrow> f x s = Inr (g x s)"
  shows "fold_res f xs s = Inr (fold g xs s)"
  using assms by (induction xs arbitrary: s) auto

lemma fold_res_invariant:
  assumes "fold_res f xs s = Inr s'" and "P s"
    and "\<And>x s s'. x \<in> set xs \<Longrightarrow> P s \<Longrightarrow> f x s = Inr s' \<Longrightarrow> P s'"
  shows "P s'"
  using assms
proof (induction xs arbitrary: s)
  case Nil
  then show ?case by simp
next
  case (Cons x xs)
  from Cons.prems(1) obtain t where t: "f x s = Inr t" "fold_res f xs t = Inr s'"
    by (auto simp: bind_res_eq_Inr)
  with Cons.prems have "P t" by auto
  with t Cons.IH Cons.prems(3) show ?case by (meson list.set_intros(2))
qed

section \<open>Lists and words\<close>

lemma sorted_wrt_filter_map:
  "sorted_wrt (\<lambda>x y. P (f x) (f y)) xs \<Longrightarrow> sorted_wrt P (map f (filter Q xs))"
  by (induction xs) auto

lemma unat_saturating_sub [simp]: "unat (saturating_sub a b) = unat a - unat b"
  by (simp add: saturating_sub_def word_le_nat_alt unat_sub)

lemma checked_sub_eq_Some: "checked_sub a b = Some c \<longleftrightarrow> b \<le> a \<and> c = a - b"
  by (auto simp: checked_sub_def)

lemma as_u64_as_i64 [simp]: "as_u64 (as_i64 w) = w"
  by (simp add: as_u64_def as_i64_def)

lemma as_i64_inj: "as_i64 v = as_i64 w \<longleftrightarrow> v = w"
  by (metis as_u64_as_i64)

lemma or_zero_bits:
  fixes a b :: "'a::len word"
  shows "(a OR b) AND m = (a AND m) OR (b AND m)"
  by (rule bit_word_eqI) (auto simp: bit_simps)

end
