(* ===== verification/Hex_Utils.thy ===== *)
theory Hex_Utils
  imports RGS_Prelude
begin

text \<open>
  src/hex_utils.rs: the hexadecimal decoder that the schema migration uses. The input is the
  byte sequence of the string, the accumulator is the byte under construction, and the loop
  index decides when a byte is complete.
\<close>

definition hex_nibble :: "u8 \<Rightarrow> u8 option" where
  "hex_nibble c =
     (if 65 \<le> c \<and> c \<le> 70 then Some (c - 65 + 10)
      else if 97 \<le> c \<and> c \<le> 102 then Some (c - 97 + 10)
      else if 48 \<le> c \<and> c \<le> 57 then Some (c - 48)
      else None)"

fun to_vec_loop :: "nat \<Rightarrow> u8 \<Rightarrow> bytes \<Rightarrow> bytes \<Rightarrow> bytes option" where
  "to_vec_loop idx b out [] = Some out"
| "to_vec_loop idx b out (c # cs) =
     (case hex_nibble c of
        None \<Rightarrow> None
      | Some v \<Rightarrow>
          let b = push_bit 4 b OR v
          in if odd idx then to_vec_loop (Suc idx) 0 (out @ [b]) cs
             else to_vec_loop (Suc idx) b out cs)"

definition to_vec :: "bytes \<Rightarrow> bytes option" where
  "to_vec hex = to_vec_loop 0 0 [] hex"

text \<open>The reference: lower-case hexadecimal printing, two digits per byte.\<close>

definition nibble_char :: "u8 \<Rightarrow> u8" where
  "nibble_char v = (if v < 10 then 48 + v else 87 + v)"

definition hex_of_byte :: "u8 \<Rightarrow> bytes" where
  "hex_of_byte b = [nibble_char (drop_bit 4 b), nibble_char (b AND 15)]"

definition lower_hex :: "bytes \<Rightarrow> bytes" where
  "lower_hex bs = concat (map hex_of_byte bs)"

lemma hex_nibble_char: "v < 16 \<Longrightarrow> hex_nibble (nibble_char v) = Some v"
  by (auto simp: hex_nibble_def nibble_char_def word_less_nat_alt word_le_nat_alt unat_word_ariths
      word_eq_iff_unsigned [where 'a = nat] unat_sub)

lemma byte_of_nibbles: "push_bit 4 (drop_bit 4 b) OR (b AND 15) = b" for b :: u8
proof (rule bit_word_eqI)
  fix n assume "n < LENGTH(8)"
  then have "bit (15 :: u8) n \<longleftrightarrow> n < 4"
    using bit_mask_iff [of 4 n, where 'a = u8] by (simp add: mask_numeral)
  then show "bit (push_bit 4 (drop_bit 4 b) OR b AND 15) n = bit b n"
    using \<open>n < LENGTH(8)\<close> by (auto simp: bit_simps)
qed

lemma nibbles_small: "drop_bit 4 b < 16" "b AND 15 < 16" for b :: u8
proof -
  have "unat (drop_bit 4 b) < 16"
    using unsigned_less [of b, where 'a = nat] by (simp add: drop_bit_eq_div unat_div_distrib)
  then show "drop_bit 4 b < 16" by (simp add: word_less_nat_alt)
  have "unat (b AND 15) \<le> unat (15 :: u8)"
    by (rule word_and_le1 [THEN word_le_nat_alt [THEN iffD1]])
  then show "b AND 15 < 16" by (simp add: word_less_nat_alt)
qed

lemma to_vec_loop_lower_hex:
  "even idx \<Longrightarrow> to_vec_loop idx 0 out (lower_hex bs @ cs) =
     to_vec_loop (idx + 2 * length bs) 0 (out @ bs) cs"
proof (induction bs arbitrary: idx out)
  case (Cons b bs)
  have "to_vec_loop idx 0 out (lower_hex (b # bs) @ cs) =
      to_vec_loop (Suc (Suc idx)) 0 (out @ [b]) (lower_hex bs @ cs)"
    using Cons.prems
    by (simp add: lower_hex_def hex_of_byte_def hex_nibble_char nibbles_small byte_of_nibbles)
  then show ?case using Cons.IH [of "Suc (Suc idx)" "out @ [b]"] Cons.prems by simp
qed (simp add: lower_hex_def)

end
