(* ===== verification/Rust_Collections.thy ===== *)
theory Rust_Collections
  imports RGS_Prelude
begin

text \<open>
  The collections of the Rust standard library, as the server uses them. A \<open>BTreeMap\<close> is an
  association list in strictly increasing key order, which is also its iteration order. A
  \<open>HashMap\<close> is an association list with distinct keys; its iteration order is not specified,
  so every place that iterates over one goes through an explicit reordering parameter.

  The locale \<open>rust_map\<close> states the contract that the callers rely on: what a lookup returns
  after \<open>entry(k).or_insert(d)\<close> has been modified in place, and after a removal. Its lemmas
  say what a whole loop of such entry updates does to one key. Both collections satisfy it.
\<close>

section \<open>The map contract\<close>

locale rust_map =
  fixes emp :: "'m"
    and get :: "'m \<Rightarrow> 'k \<Rightarrow> 'v option"
    and upd :: "'k \<Rightarrow> 'v \<Rightarrow> ('v \<Rightarrow> 'v) \<Rightarrow> 'm \<Rightarrow> 'm"
    and rem :: "'k \<Rightarrow> 'm \<Rightarrow> 'm"
    and inv :: "'m \<Rightarrow> bool"
  assumes get_emp: "get emp k = None"
    and get_upd: "inv m \<Longrightarrow> get (upd k d f m) k' =
      (if k' = k then Some (f (case get m k of None \<Rightarrow> d | Some v \<Rightarrow> v)) else get m k')"
    and get_rem: "inv m \<Longrightarrow> get (rem k m) k' = (if k' = k then None else get m k')"
    and inv_emp: "inv emp"
    and inv_upd: "inv m \<Longrightarrow> inv (upd k d f m)"
    and inv_rem: "inv m \<Longrightarrow> inv (rem k m)"
begin

lemma inv_fold_upd: "inv m \<Longrightarrow> inv (fold (\<lambda>x. upd (key x) d (g x)) xs m)"
  by (induction xs arbitrary: m) (auto intro: inv_upd)

text \<open>A loop of entry updates acts on each key through the elements with that key only.\<close>

lemma get_fold_upd:
  assumes "inv m"
  shows "get (fold (\<lambda>x. upd (key x) d (g x)) xs m) k =
    (if \<exists>x\<in>set xs. key x = k
     then Some (fold g (filter (\<lambda>x. key x = k) xs) (case get m k of None \<Rightarrow> d | Some v \<Rightarrow> v))
     else get m k)"
  using assms
proof (induction xs arbitrary: m)
  case Nil
  then show ?case by simp
next
  case (Cons x xs)
  have "inv (upd (key x) d (g x) m)" using Cons.prems by (rule inv_upd)
  from Cons.IH [OF this] Cons.prems show ?case
    by (cases "key x = k") (auto simp: get_upd filter_empty_conv)
qed

lemma get_fold_upd_emp:
  "get (fold (\<lambda>x. upd (key x) d (g x)) xs emp) k =
    (if \<exists>x\<in>set xs. key x = k then Some (fold g (filter (\<lambda>x. key x = k) xs) d) else None)"
  by (simp add: get_fold_upd inv_emp get_emp)

text \<open>When all elements with one key act alike and repeating the action changes nothing, one action is left.\<close>

lemma get_fold_upd_same:
  assumes "inv m" and same: "\<And>x. x \<in> set xs \<Longrightarrow> key x = k \<Longrightarrow> g x = h" and idem: "\<And>v. h (h v) = h v"
  shows "get (fold (\<lambda>x. upd (key x) d (g x)) xs m) k =
    (if \<exists>x\<in>set xs. key x = k then Some (h (case get m k of None \<Rightarrow> d | Some v \<Rightarrow> v)) else get m k)"
proof -
  have "fold g ys v = (if ys = [] then v else h v)" if "\<And>x. x \<in> set ys \<Longrightarrow> g x = h" for ys v
    using that by (induction ys arbitrary: v) (auto simp: idem)
  from this [of "filter (\<lambda>x. key x = k) xs"] same show ?thesis
    by (auto simp: get_fold_upd [OF assms(1)] filter_empty_conv)
qed

text \<open>A property of the entries that the loop body keeps holds of all entries afterwards.\<close>

lemma get_fold_upd_all:
  assumes "inv m" and "\<And>k v. get m k = Some v \<Longrightarrow> Q k v" and "\<And>x v. x \<in> set xs \<Longrightarrow> Q (key x) v \<Longrightarrow> Q (key x) (g x v)"
    and "\<And>x. x \<in> set xs \<Longrightarrow> Q (key x) d" and "get (fold (\<lambda>x. upd (key x) d (g x)) xs m) k = Some v"
  shows "Q k v"
  using assms
proof (induction xs arbitrary: m)
  case (Cons x xs)
  have "Q k' v'" if "get (upd (key x) d (g x) m) k' = Some v'" for k' v'
  proof (cases "k' = key x")
    case True
    have "Q (key x) (case get m (key x) of None \<Rightarrow> d | Some v \<Rightarrow> v)"
      using Cons.prems(2,4) by (auto split: option.split)
    with True that Cons.prems(1,3) show ?thesis by (auto simp: get_upd)
  next
    case False
    with that Cons.prems(1,2) show ?thesis by (simp add: get_upd)
  qed
  from Cons.IH [OF inv_upd [OF Cons.prems(1)] this] Cons.prems(3-5) show ?case by simp
qed simp

lemma inv_fold_rem: "inv m \<Longrightarrow> inv (fold rem ks m)"
  by (induction ks arbitrary: m) (auto intro: inv_rem)

lemma get_fold_rem: "inv m \<Longrightarrow> get (fold rem ks m) k = (if k \<in> set ks then None else get m k)"
  by (induction ks arbitrary: m) (auto simp: get_rem inv_rem)

end

text \<open>A map whose iteration yields its entries in increasing key order.\<close>

locale ordered_rust_map = rust_map emp get upd rem inv
  for emp :: "'m" and get :: "'m \<Rightarrow> 'k::linorder \<Rightarrow> 'v option"
    and upd :: "'k \<Rightarrow> 'v \<Rightarrow> ('v \<Rightarrow> 'v) \<Rightarrow> 'm \<Rightarrow> 'm"
    and rem :: "'k \<Rightarrow> 'm \<Rightarrow> 'm" and inv :: "'m \<Rightarrow> bool" +
  fixes entries :: "'m \<Rightarrow> ('k \<times> 'v) list"
  assumes entries_sorted: "inv m \<Longrightarrow> sorted_wrt (<) (map fst (entries m))"
    and entries_get: "inv m \<Longrightarrow> (k, v) \<in> set (entries m) \<longleftrightarrow> get m k = Some v"
begin

lemma distinct_entries: "inv m \<Longrightarrow> distinct (map fst (entries m))"
  using entries_sorted strict_sorted_iff by blast

lemma set_keys: "inv m \<Longrightarrow> k \<in> fst ` set (entries m) \<longleftrightarrow> get m k \<noteq> None"
  using entries_get [of m] by (cases "get m k") (force simp: image_iff)+

text \<open>Two such maps with the same lookups iterate over the same entries.\<close>

lemma entries_unique:
  assumes m: "inv m" and n: "inv n" and eq: "\<And>k. get m k = get n k"
  shows "entries m = entries n"
proof -
  have sets: "set (entries m) = set (entries n)"
    using eq entries_get [OF m] entries_get [OF n] by auto
  then have "set (map fst (entries m)) = set (map fst (entries n))" by simp
  with entries_sorted [OF m] entries_sorted [OF n]
  have keys: "map fst (entries m) = map fst (entries n)"
    by (metis strict_sorted_equal)
  have inj: "inj_on fst (set (entries m) \<union> set (entries n))"
    using sets distinct_entries [OF m] by (simp add: distinct_map)
  show ?thesis using keys inj by (rule map_inj_on)
qed

end

section \<open>BTreeMap\<close>

fun bt_get :: "('k::linorder \<times> 'v) list \<Rightarrow> 'k \<Rightarrow> 'v option" where
  "bt_get [] k = None"
| "bt_get ((k', v) # m) k = (if k = k' then Some v else bt_get m k)"

text \<open>\<open>let v = m.entry(k).or_insert(d); *v = f(*v)\<close>\<close>

fun bt_upd :: "'k::linorder \<Rightarrow> 'v \<Rightarrow> ('v \<Rightarrow> 'v) \<Rightarrow> ('k \<times> 'v) list \<Rightarrow> ('k \<times> 'v) list" where
  "bt_upd k d f [] = [(k, f d)]"
| "bt_upd k d f ((k', v) # m) =
     (if k < k' then (k, f d) # (k', v) # m
      else if k = k' then (k, f v) # m
      else (k', v) # bt_upd k d f m)"

fun bt_remove :: "'k::linorder \<Rightarrow> ('k \<times> 'v) list \<Rightarrow> ('k \<times> 'v) list" where
  "bt_remove k [] = []"
| "bt_remove k ((k', v) # m) = (if k = k' then m else (k', v) # bt_remove k m)"

abbreviation bt_keys :: "('k::linorder \<times> 'v) list \<Rightarrow> 'k list" where
  "bt_keys m \<equiv> map fst m"

abbreviation bt_inv :: "('k::linorder \<times> 'v) list \<Rightarrow> bool" where
  "bt_inv m \<equiv> sorted_wrt (<) (map fst m)"

section \<open>HashMap and HashSet\<close>

fun hm_get :: "('k \<times> 'v) list \<Rightarrow> 'k \<Rightarrow> 'v option" where
  "hm_get [] k = None"
| "hm_get ((k', v) # m) k = (if k = k' then Some v else hm_get m k)"

fun hm_upd :: "'k \<Rightarrow> 'v \<Rightarrow> ('v \<Rightarrow> 'v) \<Rightarrow> ('k \<times> 'v) list \<Rightarrow> ('k \<times> 'v) list" where
  "hm_upd k d f [] = [(k, f d)]"
| "hm_upd k d f ((k', v) # m) = (if k = k' then (k', f v) # m else (k', v) # hm_upd k d f m)"

fun hm_remove :: "'k \<Rightarrow> ('k \<times> 'v) list \<Rightarrow> ('k \<times> 'v) list" where
  "hm_remove k [] = []"
| "hm_remove k ((k', v) # m) = (if k = k' then m else (k', v) # hm_remove k m)"

abbreviation hm_inv :: "('k \<times> 'v) list \<Rightarrow> bool" where
  "hm_inv m \<equiv> distinct (map fst m)"

text \<open>\<open>m.insert(k, v)\<close>\<close>

definition hm_insert :: "'k \<Rightarrow> 'v \<Rightarrow> ('k \<times> 'v) list \<Rightarrow> ('k \<times> 'v) list" where
  "hm_insert k v m = hm_upd k v (\<lambda>_. v) m"

text \<open>
  A reordering stands for the iteration order of a \<open>HashMap\<close>, or for the order in which the
  database returns rows that the query does not order: any function that permutes its argument.
\<close>

type_synonym 'a order = "'a list \<Rightarrow> 'a list"

definition reorders :: "'a order \<Rightarrow> bool" where
  "reorders p \<longleftrightarrow> (\<forall>xs. mset (p xs) = mset xs)"

section \<open>Both collections satisfy the contract\<close>

lemma bt_get_map_of: "bt_get m = map_of m"
proof
  show "bt_get m k = map_of m k" for k
    by (induction m k rule: bt_get.induct) auto
qed

lemma bt_get_None: "k \<notin> fst ` set m \<Longrightarrow> bt_get m k = None"
  by (simp add: bt_get_map_of map_of_eq_None_iff)

lemma keys_bt_upd: "set (map fst (bt_upd k d f m)) = insert k (set (map fst m))"
  by (induction k d f m rule: bt_upd.induct) auto

lemma bt_inv_upd: "bt_inv m \<Longrightarrow> bt_inv (bt_upd k d f m)"
proof (induction k d f m rule: bt_upd.induct)
  case (2 k d f k' v m)
  then show ?case using keys_bt_upd [of k d f m] by auto
qed simp

lemma bt_get_upd:
  "bt_inv m \<Longrightarrow> bt_get (bt_upd k d f m) k' =
     (if k' = k then Some (f (case bt_get m k of None \<Rightarrow> d | Some v \<Rightarrow> v)) else bt_get m k')"
proof (induction k d f m rule: bt_upd.induct)
  case (2 k d f k'' v m)
  have "bt_get ((k'', v) # m) k = None" if "k < k''"
    using 2(2) that by (intro bt_get_None) force
  then show ?case using 2 by auto
qed simp

lemma set_bt_remove: "set (bt_remove k m) \<subseteq> set m"
  by (induction k m rule: bt_remove.induct) auto

lemma bt_upd_twice: "bt_upd k d f (bt_upd k d g m) = bt_upd k d (f \<circ> g) m"
  by (induction k d g m rule: bt_upd.induct) auto

lemma bt_inv_remove: "bt_inv m \<Longrightarrow> bt_inv (bt_remove k m)"
  by (induction k m rule: bt_remove.induct) (use set_bt_remove in \<open>fastforce+\<close>)

lemma bt_get_remove:
  "bt_inv m \<Longrightarrow> bt_get (bt_remove k m) k' = (if k' = k then None else bt_get m k')"
proof (induction k m rule: bt_remove.induct)
  case (2 k k'' v m)
  have "bt_get m k'' = None" using 2(2) by (intro bt_get_None) force
  then show ?case using 2 by auto
qed simp

lemma bt_get_in_set: "bt_inv m \<Longrightarrow> (k, v) \<in> set m \<longleftrightarrow> bt_get m k = Some v"
  by (simp add: bt_get_map_of strict_sorted_iff)

interpretation btree: ordered_rust_map "[]" bt_get bt_upd bt_remove bt_inv "\<lambda>m. m"
  by unfold_locales (simp_all add: bt_get_upd bt_get_remove bt_inv_upd bt_inv_remove bt_get_in_set)

lemma hm_get_map_of: "hm_get m = map_of m"
proof
  show "hm_get m k = map_of m k" for k
    by (induction m k rule: hm_get.induct) auto
qed

lemma keys_hm_upd: "set (map fst (hm_upd k d f m)) = insert k (set (map fst m))"
  by (induction k d f m rule: hm_upd.induct) auto

lemma hm_inv_upd: "hm_inv m \<Longrightarrow> hm_inv (hm_upd k d f m)"
proof (induction k d f m rule: hm_upd.induct)
  case (2 k d f k' v m)
  then show ?case using keys_hm_upd [of k d f m] by auto
qed simp

lemma hm_get_upd:
  "hm_get (hm_upd k d f m) k' =
     (if k' = k then Some (f (case hm_get m k of None \<Rightarrow> d | Some v \<Rightarrow> v)) else hm_get m k')"
  by (induction k d f m rule: hm_upd.induct) auto

lemma set_hm_remove: "set (hm_remove k m) \<subseteq> set m"
  by (induction k m rule: hm_remove.induct) auto

lemma hm_inv_remove: "hm_inv m \<Longrightarrow> hm_inv (hm_remove k m)"
  by (induction k m rule: hm_remove.induct) (use set_hm_remove in \<open>fastforce+\<close>)

lemma hm_get_remove:
  "hm_inv m \<Longrightarrow> hm_get (hm_remove k m) k' = (if k' = k then None else hm_get m k')"
proof (induction k m rule: hm_remove.induct)
  case (2 k k'' v m)
  have "hm_get m k'' = None" using 2(2) by (simp add: hm_get_map_of map_of_eq_None_iff)
  then show ?case using 2 by auto
qed simp

interpretation hmap: rust_map "[]" hm_get hm_upd hm_remove hm_inv
  by unfold_locales (simp_all add: hm_get_upd hm_get_remove hm_inv_upd hm_inv_remove)

lemma hm_get_in_set: "hm_inv m \<Longrightarrow> (k, v) \<in> set m \<longleftrightarrow> hm_get m k = Some v"
  by (simp add: hm_get_map_of)

lemma hm_get_insert: "hm_get (hm_insert k v m) k' = (if k' = k then Some v else hm_get m k')"
  by (simp add: hm_insert_def hm_get_upd)

lemma hm_inv_insert: "hm_inv m \<Longrightarrow> hm_inv (hm_insert k v m)"
  by (simp add: hm_insert_def hm_inv_upd)

section \<open>Histograms\<close>

text \<open>\<open>*histogram.entry(x).or_insert(0) += 1\<close> over all elements counts occurrences.\<close>

definition histogram :: "'a list \<Rightarrow> ('a \<times> nat) list" where
  "histogram xs = fold (\<lambda>x. hm_upd x 0 Suc) xs []"

lemma fold_Suc: "fold (\<lambda>_. Suc) xs n = n + length xs"
  by (induction xs arbitrary: n) auto

lemma hm_get_histogram:
  "hm_get (histogram xs) x = (if x \<in> set xs then Some (count_list xs x) else None)"
proof -
  have "length (filter (\<lambda>y. y = x) xs) = count_list xs x"
    by (induction xs) auto
  then show ?thesis
    using hmap.get_fold_upd_emp [where key = "\<lambda>x. x" and d = 0 and g = "\<lambda>_. Suc" and xs = xs and k = x]
    by (auto simp: histogram_def fold_Suc)
qed

lemma hm_inv_histogram: "hm_inv (histogram xs)"
  using hmap.inv_fold_upd [where key = "\<lambda>x. x" and d = 0 and g = "\<lambda>_. Suc" and m = "[]" and xs = xs]
  by (simp add: histogram_def)

lemma histogram_entry: "(x, n) \<in> set (histogram xs) \<longleftrightarrow> x \<in> set xs \<and> n = count_list xs x"
  by (auto simp: hm_get_in_set [OF hm_inv_histogram] hm_get_histogram)

lemma reorders_set: "reorders p \<Longrightarrow> set (p xs) = set xs"
  by (metis reorders_def set_mset_mset)

lemma reorders_length: "reorders p \<Longrightarrow> length (p xs) = length xs"
  by (metis reorders_def size_mset)

lemma reorders_distinct: "reorders p \<Longrightarrow> distinct (map f (p xs)) = distinct (map f xs)"
  by (metis mset_eq_imp_distinct_iff mset_map reorders_def)

lemma reorders_id [simp]: "reorders (\<lambda>xs. xs)"
  by (simp add: reorders_def)

lemma reorders_rev [simp]: "reorders rev"
  by (simp add: reorders_def)

end
