(* ===== verification/Gossip_Types.thy ===== *)
theory Gossip_Types
  imports Rust_Collections
begin

text \<open>
  The gossip messages the server handles (\<open>GossipMessage\<close> of src/types.rs) and the part of
  LDK's data that the sources read: the contents of the three signed gossip messages and the
  read-only view of the network graph. Of the LDK types only the fields the server touches are
  present; feature vectors, node ids, chain hashes and socket addresses are compared and written
  as a whole, so they are opaque values (a node id is 33 bytes, a chain hash 32).
\<close>

datatype channel_features = ChannelFeatures (bytes_of_channel_features: bytes)
datatype node_features = NodeFeatures (bytes_of_node_features: bytes)
datatype node_id = NodeId (word_of_node_id: "264 word")
datatype chain_hash = ChainHash (word_of_chain_hash: "256 word")
datatype socket_address = SocketAddress (bytes_of_address: bytes)
datatype network = Bitcoin | Testnet | Signet | Regtest

record unsigned_channel_announcement =
  ca_features :: channel_features
  ca_short_channel_id :: u64
  ca_node_id_1 :: node_id
  ca_node_id_2 :: node_id

record unsigned_channel_update =
  cu_short_channel_id :: u64
  cu_timestamp :: u32
  cu_channel_flags :: u8
  cu_cltv_expiry_delta :: u16
  cu_htlc_minimum_msat :: u64
  cu_htlc_maximum_msat :: u64
  cu_fee_base_msat :: u32
  cu_fee_proportional_millionths :: u32

record unsigned_node_announcement =
  na_features :: node_features
  na_timestamp :: u32
  na_node_id :: node_id
  na_addresses :: "socket_address list"

text \<open>A signed message is its contents with the signatures, which the server only passes on.\<close>

datatype 'c signed = Signed (contents: 'c) (signatures: bytes)

type_synonym channel_announcement = "unsigned_channel_announcement signed"
type_synonym channel_update = "unsigned_channel_update signed"
type_synonym node_announcement = "unsigned_node_announcement signed"

datatype gossip_message =
    NodeAnnouncement node_announcement "u32 option"
  | ChannelAnnouncement channel_announcement u64 "u32 option"
  | ChannelUpdate channel_update "u32 option"

text \<open>LDK's network graph, as \<open>read_only()\<close> shows it to the server.\<close>

record channel_update_info =
  cui_enabled :: bool
  cui_last_update_message :: "channel_update option"

record channel_info =
  ci_announcement_message :: "channel_announcement option"
  ci_one_to_two :: "channel_update_info option"
  ci_two_to_one :: "channel_update_info option"
  ci_capacity_sats :: "u64 option"

record node_announcement_info =
  nai_features :: node_features
  nai_addresses :: "socket_address list"

record network_graph =
  graph_channels :: "(u64 \<times> channel_info) list"
  graph_nodes :: "(node_id \<times> node_announcement_info option) list"

definition graph_channel :: "network_graph \<Rightarrow> u64 \<Rightarrow> channel_info option" where
  "graph_channel g scid = hm_get (graph_channels g) scid"

end
