(* ===== verification/Wire_Format.thy ===== *)
theory Wire_Format
  imports Gossip_Types
begin

text \<open>
  The byte-level primitives that the serializer calls are LDK's \<open>Writeable\<close> implementations,
  which are not part of this repository. They are parameters: the record \<open>wire\<close> holds one
  writer per type. What the snapshot format relies on is that each written value can be read
  back from the front of a byte stream; the locale \<open>codec\<close> states that law and \<open>wire_ok\<close>
  collects it for every writer and a matching record of readers.

  The second half gives the big-endian and BigSize encodings of BOLT 1 as one concrete
  instance, which shows that the hypotheses can be met.
\<close>

section \<open>Writers and readers\<close>

type_synonym 'a reader = "bytes \<Rightarrow> ('a \<times> bytes) option"

record wire =
  wr_u8 :: "u8 \<Rightarrow> bytes"
  wr_u16 :: "u16 \<Rightarrow> bytes"
  wr_u32 :: "u32 \<Rightarrow> bytes"
  wr_u64 :: "u64 \<Rightarrow> bytes"
  wr_bigsize :: "u64 \<Rightarrow> bytes"
  wr_channel_features :: "channel_features \<Rightarrow> bytes"
  wr_node_features :: "node_features \<Rightarrow> bytes"
  wr_node_id :: "node_id \<Rightarrow> bytes"
  wr_chain_hash :: "chain_hash \<Rightarrow> bytes"
  wr_address :: "socket_address \<Rightarrow> bytes"
  address_length :: "socket_address \<Rightarrow> nat"

record wire_reader =
  rd_u8 :: "u8 reader"
  rd_u16 :: "u16 reader"
  rd_u32 :: "u32 reader"
  rd_u64 :: "u64 reader"
  rd_bigsize :: "u64 reader"
  rd_channel_features :: "channel_features reader"
  rd_node_features :: "node_features reader"
  rd_node_id :: "node_id reader"
  rd_chain_hash :: "chain_hash reader"
  rd_address :: "bytes \<Rightarrow> socket_address option"

locale codec =
  fixes valid :: "'a \<Rightarrow> bool" and enc :: "'a \<Rightarrow> bytes" and dec :: "'a reader"
  assumes dec_enc: "valid a \<Longrightarrow> dec (enc a @ rest) = Some (a, rest)"
begin

lemma dec_enc_Nil: "valid a \<Longrightarrow> dec (enc a) = Some (a, [])"
  using dec_enc [of a "[]"] by (simp only: append_Nil2)

lemma enc_prefix_free:
  assumes "valid a" and "valid b" and "enc a @ r = enc b @ s"
  shows "a = b \<and> r = s"
  using dec_enc [OF assms(1), of r] dec_enc [OF assms(2), of s] assms(3)
  by (metis option.inject prod.inject)

end

text \<open>Feature vectors travel with a 16-bit length, so only shorter ones have an encoding.\<close>

definition channel_features_fit :: "channel_features \<Rightarrow> bool" where
  "channel_features_fit f \<longleftrightarrow> length (bytes_of_channel_features f) < 2 ^ 16"

definition node_features_fit :: "node_features \<Rightarrow> bool" where
  "node_features_fit f \<longleftrightarrow> length (bytes_of_node_features f) < 2 ^ 16"

text \<open>
  A serialized public key starts with the compressed-point prefix, which leaves the six upper
  bits of its first byte clear; the snapshot format stores its flags there.
\<close>

definition node_id_prefixed :: "wire \<Rightarrow> node_id \<Rightarrow> bool" where
  "node_id_prefixed W n = (case wr_node_id W n of [] \<Rightarrow> False | b # _ \<Rightarrow> b AND 252 = 0)"

definition wire_codecs :: "wire \<Rightarrow> wire_reader \<Rightarrow> bool" where
  "wire_codecs W R \<longleftrightarrow>
     codec (\<lambda>_. True) (wr_u8 W) (rd_u8 R) \<and>
     codec (\<lambda>_. True) (wr_u16 W) (rd_u16 R) \<and>
     codec (\<lambda>_. True) (wr_u32 W) (rd_u32 R) \<and>
     codec (\<lambda>_. True) (wr_u64 W) (rd_u64 R) \<and>
     codec (\<lambda>_. True) (wr_bigsize W) (rd_bigsize R) \<and>
     codec channel_features_fit (wr_channel_features W) (rd_channel_features R) \<and>
     codec node_features_fit (wr_node_features W) (rd_node_features R) \<and>
     codec (\<lambda>_. True) (wr_node_id W) (rd_node_id R) \<and>
     codec (\<lambda>_. True) (wr_chain_hash W) (rd_chain_hash R) \<and>
     (\<forall>a. rd_address R (wr_address W a) = Some a) \<and>
     (\<forall>a. address_length W a = length (wr_address W a))"

text \<open>A byte is written as itself: the version byte is pushed directly in one place.\<close>

definition wire_ok :: "wire \<Rightarrow> wire_reader \<Rightarrow> bool" where
  "wire_ok W R \<longleftrightarrow> wire_codecs W R \<and> (\<forall>a. wr_u8 W a = [a])"

named_theorems wire_laws \<open>what a reader returns on the output of its writer\<close>

lemma wire_okD:
  assumes "wire_ok W R"
  shows rd_wr_u8 [wire_laws]: "rd_u8 R (wr_u8 W a @ r) = Some (a, r)"
    and rd_wr_u16 [wire_laws]: "rd_u16 R (wr_u16 W b @ r) = Some (b, r)"
    and rd_wr_u32 [wire_laws]: "rd_u32 R (wr_u32 W c @ r) = Some (c, r)"
    and rd_wr_u64 [wire_laws]: "rd_u64 R (wr_u64 W d @ r) = Some (d, r)"
    and rd_wr_bigsize [wire_laws]: "rd_bigsize R (wr_bigsize W d @ r) = Some (d, r)"
    and rd_wr_channel_features [wire_laws]:
      "channel_features_fit f \<Longrightarrow> rd_channel_features R (wr_channel_features W f @ r) = Some (f, r)"
    and rd_wr_node_features [wire_laws]:
      "node_features_fit g \<Longrightarrow> rd_node_features R (wr_node_features W g @ r) = Some (g, r)"
    and rd_wr_node_id [wire_laws]: "rd_node_id R (wr_node_id W n @ r) = Some (n, r)"
    and rd_wr_chain_hash [wire_laws]: "rd_chain_hash R (wr_chain_hash W h @ r) = Some (h, r)"
    and rd_wr_address [wire_laws]: "rd_address R (wr_address W s) = Some s"
    and address_length_wr [wire_laws]: "address_length W s = length (wr_address W s)"
proof -
  have "wire_codecs W R" using assms by (simp add: wire_ok_def)
  then show "rd_u8 R (wr_u8 W a @ r) = Some (a, r)" "rd_u16 R (wr_u16 W b @ r) = Some (b, r)"
    "rd_u32 R (wr_u32 W c @ r) = Some (c, r)" "rd_u64 R (wr_u64 W d @ r) = Some (d, r)"
    "rd_bigsize R (wr_bigsize W d @ r) = Some (d, r)"
    "channel_features_fit f \<Longrightarrow> rd_channel_features R (wr_channel_features W f @ r) = Some (f, r)"
    "node_features_fit g \<Longrightarrow> rd_node_features R (wr_node_features W g @ r) = Some (g, r)"
    "rd_node_id R (wr_node_id W n @ r) = Some (n, r)"
    "rd_chain_hash R (wr_chain_hash W h @ r) = Some (h, r)"
    "rd_address R (wr_address W s) = Some s" "address_length W s = length (wr_address W s)"
    by (simp_all add: wire_codecs_def codec_def)
qed

lemma wire_ok_u8: "wire_ok W R \<Longrightarrow> wr_u8 W a = [a]"
  by (simp add: wire_ok_def)

section \<open>Streams of dependent messages\<close>

text \<open>
  The snapshot writes its messages one after the other, each relative to a context that the
  previous one leaves behind (the last short channel id). The writer may panic; the reader
  returns what the client sees of a message.
\<close>

fun enc_stream :: "('c \<Rightarrow> 'a \<Rightarrow> bytes res) \<Rightarrow> ('a \<Rightarrow> 'c) \<Rightarrow> 'c \<Rightarrow> 'a list \<Rightarrow> bytes res" where
  "enc_stream enc adv c [] = Inr []"
| "enc_stream enc adv c (a # as) =
     bind_res (enc c a) (\<lambda>bs. bind_res (enc_stream enc adv (adv a) as) (\<lambda>r. Inr (bs @ r)))"

fun dec_stream :: "('c \<Rightarrow> 'b reader) \<Rightarrow> ('b \<Rightarrow> 'c) \<Rightarrow> nat \<Rightarrow> 'c \<Rightarrow> 'b list reader" where
  "dec_stream dec adv 0 c bs = Some ([], bs)"
| "dec_stream dec adv (Suc n) c bs =
     (case dec c bs of None \<Rightarrow> None
      | Some (b, r) \<Rightarrow> (case dec_stream dec adv n (adv b) r of None \<Rightarrow> None
          | Some (xs, r') \<Rightarrow> Some (b # xs, r')))"

fun ok_stream :: "('c \<Rightarrow> 'a \<Rightarrow> bool) \<Rightarrow> ('a \<Rightarrow> 'c) \<Rightarrow> 'c \<Rightarrow> 'a list \<Rightarrow> bool" where
  "ok_stream ok adv c [] \<longleftrightarrow> True"
| "ok_stream ok adv c (a # as) \<longleftrightarrow> ok c a \<and> ok_stream ok adv (adv a) as"

locale stream_codec =
  fixes ok :: "'c \<Rightarrow> 'a \<Rightarrow> bool" and enc :: "'c \<Rightarrow> 'a \<Rightarrow> bytes res" and dec :: "'c \<Rightarrow> 'b reader"
    and view :: "'a \<Rightarrow> 'b" and adv :: "'a \<Rightarrow> 'c" and adv_view :: "'b \<Rightarrow> 'c"
  assumes enc_dec: "ok c a \<Longrightarrow> \<exists>bs. enc c a = Inr bs \<and> (\<forall>rest. dec c (bs @ rest) = Some (view a, rest))"
    and adv_view: "adv_view (view a) = adv a"
begin

lemma enc_dec_stream:
  "ok_stream ok adv c as \<Longrightarrow> \<exists>bs. enc_stream enc adv c as = Inr bs \<and>
     (\<forall>rest. dec_stream dec adv_view (length as) c (bs @ rest) = Some (map view as, rest))"
proof (induction as arbitrary: c)
  case (Cons a as)
  from Cons.prems obtain b where
    "enc c a = Inr b" "\<forall>rest. dec c (b @ rest) = Some (view a, rest)"
    using enc_dec [of c a] by auto
  moreover from Cons.prems obtain r where
    "enc_stream enc adv (adv a) as = Inr r"
    "\<forall>rest. dec_stream dec adv_view (length as) (adv a) (r @ rest) = Some (map view as, rest)"
    using Cons.IH [of "adv a"] by auto
  ultimately show ?case by (simp add: adv_view)
qed simp

lemma enc_stream_no_panic: "ok_stream ok adv c as \<Longrightarrow> no_panic (enc_stream enc adv c as)"
  using enc_dec_stream by (fastforce simp: no_panic_iff)

end

section \<open>BOLT 1 encodings\<close>

text \<open>Big-endian digits to base 256.\<close>

fun be_digits :: "nat \<Rightarrow> nat \<Rightarrow> bytes" where
  "be_digits 0 x = []"
| "be_digits (Suc n) x = word_of_nat (x div 256 ^ n) # be_digits n (x mod 256 ^ n)"

fun be_value :: "bytes \<Rightarrow> nat" where
  "be_value [] = 0"
| "be_value (b # bs) = unat b * 256 ^ length bs + be_value bs"

definition be_write :: "nat \<Rightarrow> 'a::len word \<Rightarrow> bytes" where
  "be_write n w = be_digits n (unat w)"

definition be_read :: "nat \<Rightarrow> 'a::len word reader" where
  "be_read n bs = (if length bs < n then None
     else Some (word_of_nat (be_value (take n bs)), drop n bs))"

definition bigsize_write :: "u64 \<Rightarrow> bytes" where
  "bigsize_write w =
     (if w < 253 then be_write 1 w
      else if w < 65536 then 253 # be_write 2 w
      else if w < 4294967296 then 254 # be_write 4 w
      else 255 # be_write 8 w)"

fun bigsize_read :: "u64 reader" where
  "bigsize_read [] = None"
| "bigsize_read (b # bs) =
     (if b = 255 then be_read 8 bs
      else if b = 254 then be_read 4 bs
      else if b = 253 then be_read 2 bs
      else Some (ucast b, bs))"

text \<open>A byte string behind its 16-bit length, as feature vectors are written.\<close>

definition vec_write :: "bytes \<Rightarrow> bytes" where
  "vec_write bs = be_write 2 (word_of_nat (length bs) :: u16) @ bs"

definition vec_read :: "bytes reader" where
  "vec_read bs = (case (be_read 2 :: u16 reader) bs of None \<Rightarrow> None
     | Some (n, r) \<Rightarrow> if length r < unat n then None else Some (take (unat n) r, drop (unat n) r))"


definition map_reader :: "('a \<Rightarrow> 'b) \<Rightarrow> 'a reader \<Rightarrow> 'b reader" where
  "map_reader f r bs = map_option (\<lambda>(x, rest). (f x, rest)) (r bs)"

definition bolt_wire :: wire where
  "bolt_wire = \<lparr>
     wr_u8 = be_write 1, wr_u16 = be_write 2, wr_u32 = be_write 4, wr_u64 = be_write 8,
     wr_bigsize = bigsize_write,
     wr_channel_features = vec_write \<circ> bytes_of_channel_features,
     wr_node_features = vec_write \<circ> bytes_of_node_features,
     wr_node_id = be_write 33 \<circ> word_of_node_id,
     wr_chain_hash = be_write 32 \<circ> word_of_chain_hash,
     wr_address = bytes_of_address,
     address_length = length \<circ> bytes_of_address\<rparr>"

definition bolt_reader :: wire_reader where
  "bolt_reader = \<lparr>
     rd_u8 = be_read 1, rd_u16 = be_read 2, rd_u32 = be_read 4, rd_u64 = be_read 8,
     rd_bigsize = bigsize_read,
     rd_channel_features = map_reader ChannelFeatures vec_read,
     rd_node_features = map_reader NodeFeatures vec_read,
     rd_node_id = map_reader NodeId (be_read 33),
     rd_chain_hash = map_reader ChainHash (be_read 32),
     rd_address = (\<lambda>bs. Some (SocketAddress bs))\<rparr>"

lemma length_be_digits [simp]: "length (be_digits n x) = n"
  by (induction n x rule: be_digits.induct) auto

lemma be_value_digits: "x < 256 ^ n \<Longrightarrow> be_value (be_digits n x) = x"
proof (induction n x rule: be_digits.induct)
  case (2 n x)
  have "x div 256 ^ n < 256" using "2.prems" by (simp add: less_mult_imp_div_less)
  then have "unat (word_of_nat (x div 256 ^ n) :: u8) = x div 256 ^ n"
    by (simp add: unat_of_nat)
  moreover have "be_value (be_digits n (x mod 256 ^ n)) = x mod 256 ^ n"
    by (rule "2.IH") simp
  ultimately show ?case by (simp del: be_digits.simps(1) add: div_mult_mod_eq)
qed simp

lemma length_be_write [simp]: "length (be_write n w) = n"
  by (simp add: be_write_def)

lemma be_read_write:
  fixes w :: "'a::len word"
  assumes "unat w < 256 ^ n"
  shows "be_read n (be_write n w @ rest) = Some (w, rest)"
  using assms by (simp add: be_read_def be_write_def be_value_digits)

lemma codec_be:
  assumes "2 ^ LENGTH('a) \<le> (256::nat) ^ n"
  shows "codec (\<lambda>_. True) (be_write n :: 'a::len word \<Rightarrow> bytes) (be_read n)"
proof
  fix w :: "'a word" and rest
  have "unat w < 256 ^ n"
    using assms unsigned_less [of w, where 'a = nat] by (metis order_less_le_trans)
  then show "be_read n (be_write n w @ rest) = Some (w, rest)"
    by (simp add: be_read_write)
qed

interpretation be_u8: codec "\<lambda>_. True" "be_write 1 :: u8 \<Rightarrow> bytes" "be_read 1"
  by (rule codec_be) simp

interpretation be_u16: codec "\<lambda>_. True" "be_write 2 :: u16 \<Rightarrow> bytes" "be_read 2"
  by (rule codec_be) simp

interpretation be_u32: codec "\<lambda>_. True" "be_write 4 :: u32 \<Rightarrow> bytes" "be_read 4"
  by (rule codec_be) simp

interpretation be_u64: codec "\<lambda>_. True" "be_write 8 :: u64 \<Rightarrow> bytes" "be_read 8"
  by (rule codec_be) simp

interpretation be_node_id: codec "\<lambda>_. True" "be_write 33 :: 264 word \<Rightarrow> bytes" "be_read 33"
  by (rule codec_be) simp

interpretation be_chain_hash: codec "\<lambda>_. True" "be_write 32 :: 256 word \<Rightarrow> bytes" "be_read 32"
  by (rule codec_be) simp

lemma be_write_1: "be_write (Suc 0) w = [ucast w]"
  by (simp add: be_write_def)

interpretation bigsize: codec "\<lambda>_. True" bigsize_write bigsize_read
proof
  fix w :: u64 and rest
  have small: "ucast (ucast w :: u8) = w \<and> unat (ucast w :: u8) < 253"
    if "w < 253"
  proof -
    have "unat w < 253" using that by (simp add: word_less_nat_alt)
    then have "unat (ucast w :: u8) = unat w"
      by (simp add: unsigned_ucast_eq unsigned_take_bit_eq take_bit_nat_eq_self)
    then show ?thesis using \<open>unat w < 253\<close>
      by (auto simp: word_eq_iff_unsigned [where 'a = nat] unsigned_ucast_eq unsigned_take_bit_eq take_bit_nat_eq_self)
  qed
  show "bigsize_read (bigsize_write w @ rest) = Some (w, rest)"
    using small be_read_write [of w 2 rest] be_read_write [of w 4 rest] be_u64.dec_enc [of w rest]
    by (auto simp: bigsize_write_def be_write_1 word_less_nat_alt)
qed

interpretation vec: codec "\<lambda>bs. length bs < 2 ^ 16" vec_write vec_read
proof
  fix bs rest :: bytes
  assume "length bs < 2 ^ 16"
  then have "unat (word_of_nat (length bs) :: u16) = length bs"
    by (simp add: unat_of_nat)
  then show "vec_read (vec_write bs @ rest) = Some (bs, rest)"
    by (simp add: vec_read_def vec_write_def be_u16.dec_enc)
qed

lemma codec_map:
  assumes "codec P enc dec" and "\<And>a. f (g a) = a" and "\<And>a. Q a \<Longrightarrow> P (g a)"
  shows "codec Q (enc \<circ> g) (map_reader f dec)"
  using assms by (simp add: codec_def map_reader_def)

lemma bolt_wire_ok: "wire_ok bolt_wire bolt_reader"
proof -
  have cf: "codec channel_features_fit (vec_write \<circ> bytes_of_channel_features)
      (map_reader ChannelFeatures vec_read)"
    by (rule codec_map [OF vec.codec_axioms]) (simp_all add: channel_features_fit_def node_features_fit_def)
  have nf: "codec node_features_fit (vec_write \<circ> bytes_of_node_features)
      (map_reader NodeFeatures vec_read)"
    by (rule codec_map [OF vec.codec_axioms]) (simp_all add: channel_features_fit_def node_features_fit_def)
  have ni: "codec (\<lambda>_. True) (be_write 33 \<circ> word_of_node_id) (map_reader NodeId (be_read 33))"
    by (rule codec_map [OF be_node_id.codec_axioms]) simp_all
  have ch: "codec (\<lambda>_. True) (be_write 32 \<circ> word_of_chain_hash) (map_reader ChainHash (be_read 32))"
    by (rule codec_map [OF be_chain_hash.codec_axioms]) simp_all
  show ?thesis
    using cf nf ni ch be_u8.codec_axioms be_u16.codec_axioms be_u32.codec_axioms
      be_u64.codec_axioms bigsize.codec_axioms
    by (auto simp: wire_ok_def wire_codecs_def bolt_wire_def bolt_reader_def be_write_1)
qed

end
