(* ===== verification/Database.thy ===== *)
theory Database
  imports Hex_Utils Wire_Format "HOL-Library.Product_Lexorder" "HOL-Library.List_Lexorder"
begin

text \<open>
  The tables of the Postgres database (the table creation queries of src/config.rs) and the parts
  of SQL that the queries of the server are made of. A column of type \<open>timestamp\<close> counts
  microseconds since the epoch. Rows that a query does not order come in any order: every query
  takes a reordering of its input rows, and sorting is stable, so each outcome that the database
  may produce is reached by some reordering.
\<close>

section \<open>Tables\<close>

record channel_announcement_row =
  car_short_channel_id :: "64 word"
  car_funding_amount_sats :: "64 word"
  car_announcement_signed :: bytes
  car_seen :: int

record channel_update_row =
  cur_id :: int
  cur_short_channel_id :: "64 word"
  cur_timestamp :: int
  cur_channel_flags :: int
  cur_direction :: bool
  cur_disable :: bool
  cur_cltv_expiry_delta :: "32 word"
  cur_htlc_minimum_msat :: "64 word"
  cur_fee_base_msat :: "32 word"
  cur_fee_proportional_millionths :: "32 word"
  cur_htlc_maximum_msat :: "64 word"
  cur_blob_signed :: bytes
  cur_seen :: int

record node_announcement_row =
  nar_public_key :: bytes
  nar_features :: bytes
  nar_socket_addresses :: bytes
  nar_timestamp :: int
  nar_announcement_signed :: bytes
  nar_seen :: int

record database =
  db_schema :: "int option"
  db_channel_announcements :: "channel_announcement_row list"
  db_channel_updates :: "channel_update_row list"
  db_node_announcements :: "node_announcement_row list"

text \<open>The \<open>public_key\<close> column holds the lower-case hex form of the 33 bytes of a node id, as ASCII codes.\<close>

definition node_id_hex :: "node_id \<Rightarrow> bytes" where
  "node_id_hex n = lower_hex (be_write 33 (word_of_node_id n))"

section \<open>Queries\<close>

text \<open>\<open>TO_TIMESTAMP\<close> of a whole number of seconds.\<close>

definition to_timestamp :: "'a::len word \<Rightarrow> int" where
  "to_timestamp t = 1000000 * uint t"

text \<open>\<open>DISTINCT ON\<close>: the first row of each key.\<close>

fun distinct_on :: "('r \<Rightarrow> 'k) \<Rightarrow> 'r list \<Rightarrow> 'r list" where
  "distinct_on key [] = []"
| "distinct_on key (r # rs) = r # filter (\<lambda>x. key x \<noteq> key r) (distinct_on key rs)"

text \<open>The rows of one window partition, each with whether the next one differs (or is missing).\<close>

fun annotate_successors :: "('r \<Rightarrow> 'r \<Rightarrow> bool) \<Rightarrow> 'r list \<Rightarrow> ('r \<times> bool) list" where
  "annotate_successors differs [] = []"
| "annotate_successors differs [r] = [(r, True)]"
| "annotate_successors differs (r # r' # rs) = (r, differs r r') # annotate_successors differs (r' # rs)"

section \<open>Lemmas\<close>

lemma set_distinct_on_subset: "set (distinct_on key rs) \<subseteq> set rs"
  by (induction rs) auto

lemma distinct_on_distinct: "distinct (map key (distinct_on key rs))"
  by (induction rs) (auto simp: distinct_map_filter)

lemma filter_distinct_on:
  "filter (\<lambda>x. key x = k) (distinct_on key rs) = take 1 (filter (\<lambda>x. key x = k) rs)"
proof (induction rs)
  case (Cons r rs)
  show ?case
  proof (cases "key r = k")
    case True
    then have "filter (\<lambda>x. key x = k) (filter (\<lambda>x. key x \<noteq> key r) (distinct_on key rs)) = []"
      by (auto simp: filter_empty_conv)
    with True show ?thesis by simp
  next
    case False
    then have "filter (\<lambda>x. key x = k) (filter (\<lambda>x. key x \<noteq> key r) (distinct_on key rs)) =
        filter (\<lambda>x. key x = k) (distinct_on key rs)"
      by (auto simp: filter_filter intro: filter_cong)
    with False Cons.IH show ?thesis by simp
  qed
qed simp

text \<open>With the rows ordered by the key and then by a rank, the first row of a key has the least rank.\<close>

lemma distinct_on_first:
  fixes rank :: "'r \<Rightarrow> 'o::linorder"
  assumes "r \<in> set (distinct_on key (sort_key rank rs))"
  shows "r \<in> set rs" and "\<And>x. x \<in> set rs \<Longrightarrow> key x = key r \<Longrightarrow> rank r \<le> rank x"
proof -
  show "r \<in> set rs" using set_distinct_on_subset [of key "sort_key rank rs"] assms by auto
  let ?g = "filter (\<lambda>x. key x = key r) (sort_key rank rs)"
  have "r \<in> set (filter (\<lambda>x. key x = key r) (distinct_on key (sort_key rank rs)))" using assms by simp
  then have "r \<in> set (take 1 ?g)" by (simp only: filter_distinct_on)
  then obtain rest where g: "?g = r # rest" by (cases ?g) auto
  have "sorted (map rank ?g)" by (simp add: sorted_filter)
  fix x assume "x \<in> set rs" "key x = key r"
  then have "x \<in> set ?g" by simp
  with g \<open>sorted (map rank ?g)\<close> show "rank r \<le> rank x" by auto
qed

lemma distinct_on_exists:
  "x \<in> set rs \<Longrightarrow> \<exists>r \<in> set (distinct_on key rs). key r = key x"
  by (induction rs) (auto, metis)

lemma to_timestamp_mono: "to_timestamp a < to_timestamp b \<longleftrightarrow> a < b"
  by (simp add: to_timestamp_def word_less_def)

end
