(* ===== verification/Delta_Types.thy ===== *)
theory Delta_Types
  imports Gossip_Types
begin

text \<open>
  The data that the lookup module hands to the serializer: the delta sets of src/lookup.rs and
  the serialization types of src/serialization.rs (the two Rust modules import each other, so
  their data types live together here). A \<open>DeltaSet\<close> is a \<open>BTreeMap\<close> over short channel ids,
  a \<open>NodeDeltaSet\<close> a \<open>HashMap\<close> over node ids, and a \<open>HashSet\<close> of socket addresses is a list
  whose order carries no meaning.
\<close>

section \<open>Serialization types\<close>

record default_update_values =
  dv_cltv_expiry_delta :: u16
  dv_htlc_minimum_msat :: u64
  dv_fee_base_msat :: u32
  dv_fee_proportional_millionths :: u32
  dv_htlc_maximum_msat :: u64

definition default_update_values_default :: default_update_values where
  "default_update_values_default = \<lparr>dv_cltv_expiry_delta = 0, dv_htlc_minimum_msat = 0,
     dv_fee_base_msat = 0, dv_fee_proportional_millionths = 0, dv_htlc_maximum_msat = 0\<rparr>"

record mutated_properties =
  mp_flags :: bool
  mp_cltv_expiry_delta :: bool
  mp_htlc_minimum_msat :: bool
  mp_fee_base_msat :: bool
  mp_fee_proportional_millionths :: bool
  mp_htlc_maximum_msat :: bool

definition mutated_properties_default :: mutated_properties where
  "mutated_properties_default = \<lparr>mp_flags = False, mp_cltv_expiry_delta = False,
     mp_htlc_minimum_msat = False, mp_fee_base_msat = False,
     mp_fee_proportional_millionths = False, mp_htlc_maximum_msat = False\<rparr>"

text \<open>\<open>MutatedProperties::len\<close> does not count the flags.\<close>

definition mutated_properties_len :: "mutated_properties \<Rightarrow> u8" where
  "mutated_properties_len m =
     (if mp_cltv_expiry_delta m then 1 else 0) +
     (if mp_htlc_minimum_msat m then 1 else 0) +
     (if mp_fee_base_msat m then 1 else 0) +
     (if mp_fee_proportional_millionths m then 1 else 0) +
     (if mp_htlc_maximum_msat m then 1 else 0)"

datatype update_serialization =
    Full unsigned_channel_update
  | Incremental unsigned_channel_update mutated_properties
  | Reminder u64 u8

fun update_scid :: "update_serialization \<Rightarrow> u64" where
  "update_scid (Full latest_update) = cu_short_channel_id latest_update"
| "update_scid (Incremental latest_update _) = cu_short_channel_id latest_update"
| "update_scid (Reminder scid _) = scid"

fun update_flags :: "update_serialization \<Rightarrow> u8" where
  "update_flags (Full latest_update) = cu_channel_flags latest_update"
| "update_flags (Incremental latest_update _) = cu_channel_flags latest_update"
| "update_flags (Reminder _ flags) = flags"

record mutated_node_properties =
  mnp_addresses :: bool
  mnp_features :: bool

datatype node_serialization_strategy =
    NodeMutated mutated_node_properties
  | NodeFull
  | NodeReminder

section \<open>Delta sets\<close>

record announcement_delta =
  ad_seen :: u32
  ad_announcement :: unsigned_channel_announcement

record update_delta =
  ud_seen :: u32
  ud_update :: unsigned_channel_update

record directed_update_delta =
  dud_last_update_before_seen :: "update_delta option"
  dud_latest_update_after_seen :: "update_delta option"
  dud_mutated_properties :: mutated_properties
  dud_serialization_update_flags :: "u8 option"

record channel_delta =
  cd_announcement :: "announcement_delta option"
  cd_updates :: "directed_update_delta option \<times> directed_update_delta option"
  cd_first_bidirectional_updates_seen :: "u32 option"
  cd_requires_reminder :: bool

record node_details =
  nd_seen :: "u32 option"
  nd_features :: node_features
  nd_addresses :: "socket_address list"

record node_delta =
  nde_latest_details :: "node_details option"
  nde_strategy :: "node_serialization_strategy option"
  nde_last_details_before_seen :: "node_details option"

type_synonym delta_set = "(u64 \<times> channel_delta) list"
type_synonym node_delta_set = "(node_id \<times> node_delta) list"

definition channel_delta_default :: channel_delta where
  "channel_delta_default = \<lparr>cd_announcement = None, cd_updates = (None, None),
     cd_first_bidirectional_updates_seen = None, cd_requires_reminder = False\<rparr>"

definition node_delta_default :: node_delta where
  "node_delta_default = \<lparr>nde_latest_details = None, nde_strategy = None,
     nde_last_details_before_seen = None\<rparr>"

definition directed_update_delta_default :: directed_update_delta where
  "directed_update_delta_default = \<lparr>dud_last_update_before_seen = None,
     dud_latest_update_after_seen = None,
     dud_mutated_properties = mutated_properties_default,
     dud_serialization_update_flags = None\<rparr>"

record serialization_set =
  ss_announcements :: "unsigned_channel_announcement list"
  ss_updates :: "update_serialization list"
  ss_full_update_defaults :: default_update_values
  ss_node_announcement_feature_defaults :: "node_features list"
  ss_node_mutations :: node_delta_set
  ss_latest_seen :: u32
  ss_chain_hash :: chain_hash

lemma mutated_properties_len_5:
  "mutated_properties_len m = 5 \<longleftrightarrow>
     mp_cltv_expiry_delta m \<and> mp_htlc_minimum_msat m \<and> mp_fee_base_msat m \<and>
     mp_fee_proportional_millionths m \<and> mp_htlc_maximum_msat m"
  by (simp add: mutated_properties_len_def)

lemma mutated_properties_len_pos:
  "0 < mutated_properties_len m \<longleftrightarrow>
     mp_cltv_expiry_delta m \<or> mp_htlc_minimum_msat m \<or> mp_fee_base_msat m \<or>
     mp_fee_proportional_millionths m \<or> mp_htlc_maximum_msat m"
  by (simp add: mutated_properties_len_def)

end
