(* ===== verification/Config.thy ===== *)
theory Config
  imports Gossip_Types
begin

text \<open>
  src/config.rs without the database schema, which is in Schema: the constants, the settings read
  from environment variables, and the parser of the peer list. The environment is a function from variable names
  to values; values are ASCII strings. Decimal printing and parsing of unsigned integers are the
  standard library's \<open>Display\<close> and \<open>FromStr\<close>. The host name resolver and the
  constructors of hex strings and public keys, which belong to other crates or to the operating
  system, are parameters of the peer parser.
\<close>

section \<open>Constants\<close>

definition SYMLINK_GRANULARITY_INTERVAL :: u32 where
  "SYMLINK_GRANULARITY_INTERVAL = 10800"

definition MAX_SNAPSHOT_SCOPE :: u32 where
  "MAX_SNAPSHOT_SCOPE = 1814400"

definition CHANNEL_REMINDER_AGE :: u64 where
  "CHANNEL_REMINDER_AGE = 518400"

definition PRUNE_INTERVAL :: u64 where
  "PRUNE_INTERVAL = 1209600"

definition NODE_DEFAULT_FEATURE_COUNT :: u8 where
  "NODE_DEFAULT_FEATURE_COUNT = 6"

definition CONNECTED_PEER_ASSERTION_LIMIT :: nat where
  "CONNECTED_PEER_ASSERTION_LIMIT = 5"

definition DOWNLOAD_NEW_GOSSIP :: bool where
  "DOWNLOAD_NEW_GOSSIP = True"

lemmas config_constants =
  SYMLINK_GRANULARITY_INTERVAL_def MAX_SNAPSHOT_SCOPE_def CHANNEL_REMINDER_AGE_def
  PRUNE_INTERVAL_def NODE_DEFAULT_FEATURE_COUNT_def CONNECTED_PEER_ASSERTION_LIMIT_def

section \<open>Decimal numbers\<close>

definition digit_char :: "nat \<Rightarrow> char" where
  "digit_char d = char_of (48 + d)"

fun dec_string :: "nat \<Rightarrow> string" where
  "dec_string n = (if n < 10 then [digit_char n] else dec_string (n div 10) @ [digit_char (n mod 10)])"

declare dec_string.simps [simp del]

definition char_digit :: "char \<Rightarrow> nat option" where
  "char_digit c = (if 48 \<le> (of_char c :: nat) \<and> (of_char c :: nat) \<le> 57
     then Some (of_char c - 48) else None)"

fun parse_digits :: "nat \<Rightarrow> nat \<Rightarrow> string \<Rightarrow> nat option" where
  "parse_digits bound acc [] = Some acc"
| "parse_digits bound acc (c # cs) = (case char_digit c of None \<Rightarrow> None
     | Some d \<Rightarrow> if 10 * acc + d < bound then parse_digits bound (10 * acc + d) cs else None)"

text \<open>\<open>str::parse\<close> for an unsigned type with \<open>bound\<close> values: one leading plus is accepted.\<close>

definition parse_unsigned :: "nat \<Rightarrow> string \<Rightarrow> nat option" where
  "parse_unsigned bound s =
     (if s = [] \<or> s = ''+'' \<or> s = ''-'' then None
      else if hd s = CHR ''+'' then parse_digits bound 0 (tl s)
      else parse_digits bound 0 s)"

section \<open>Settings\<close>

type_synonym env = "string \<Rightarrow> string option"

definition env_or :: "env \<Rightarrow> string \<Rightarrow> string \<Rightarrow> string" where
  "env_or e name fallback = (case e name of None \<Rightarrow> fallback | Some v \<Rightarrow> v)"

definition to_lowercase :: "string \<Rightarrow> string" where
  "to_lowercase s = map (\<lambda>c. if 65 \<le> (of_char c :: nat) \<and> (of_char c :: nat) \<le> 90
     then char_of ((of_char c :: nat) + 32) else c) s"

definition snapshot_generation_interval :: "env \<Rightarrow> u32 res" where
  "snapshot_generation_interval e =
     (case parse_unsigned (2 ^ 32)
        (env_or e ''RAPID_GOSSIP_SYNC_SERVER_SNAPSHOT_INTERVAL''
          (dec_string (unat SYMLINK_GRANULARITY_INTERVAL))) of
        None \<Rightarrow> Inl Bad_Environment
      | Some n \<Rightarrow>
          let interval = word_of_nat n
          in if \<not> 0 < interval then Inl Assertion_Failed
             else if interval mod SYMLINK_GRANULARITY_INTERVAL \<noteq> 0 then Inl Assertion_Failed
             else Inr interval)"

definition config_network :: "env \<Rightarrow> network res" where
  "config_network e =
     (let network = to_lowercase (env_or e ''RAPID_GOSSIP_SYNC_SERVER_NETWORK'' ''bitcoin'')
      in if network = ''mainnet'' then Inr Bitcoin
         else if network = ''bitcoin'' then Inr Bitcoin
         else if network = ''testnet'' then Inr Testnet
         else if network = ''signet'' then Inr Signet
         else if network = ''regtest'' then Inr Regtest
         else Inl Invalid_Network)"

datatype log_level = Gossip | Trace | Debug | Info | Warn | Error

definition config_log_level :: "env \<Rightarrow> log_level res" where
  "config_log_level e =
     (let level = to_lowercase (env_or e ''RAPID_GOSSIP_SYNC_SERVER_LOG_LEVEL'' ''info'')
      in if level = ''gossip'' then Inr Gossip
         else if level = ''trace'' then Inr Trace
         else if level = ''debug'' then Inr Debug
         else if level = ''info'' then Inr Info
         else if level = ''warn'' then Inr Warn
         else if level = ''error'' then Inr Error
         else Inl Invalid_Log_Level)"

definition cache_path :: "env \<Rightarrow> string" where
  "cache_path e = to_lowercase (env_or e ''RAPID_GOSSIP_SYNC_SERVER_CACHES_PATH'' ''./res'')"

definition network_graph_cache_path :: "env \<Rightarrow> string" where
  "network_graph_cache_path e = cache_path e @ ''/network_graph.bin''"

record http_endpoint =
  he_host :: string
  he_port :: u16
  he_path :: string

definition bitcoin_rest_endpoint :: "env \<Rightarrow> http_endpoint res" where
  "bitcoin_rest_endpoint e =
     (let host = env_or e ''BITCOIN_REST_DOMAIN'' ''127.0.0.1''
      in case parse_unsigned (2 ^ 16) (env_or e ''BITCOIN_REST_PORT'' ''8332'') of
           None \<Rightarrow> Inl Bad_Environment
         | Some port \<Rightarrow>
             let path = env_or e ''BITCOIN_REST_PATH'' ''/rest/''
             in Inr \<lparr>he_host = host, he_port = word_of_nat port, he_path = path\<rparr>)"

record db_config =
  db_host :: string
  db_user :: string
  db_name :: string
  db_password :: "string option"

text \<open>\<open>testing\<close> is \<open>cfg!(test)\<close>.\<close>

definition db_connection_config :: "bool \<Rightarrow> env \<Rightarrow> db_config" where
  "db_connection_config testing e =
     (let prefix = (if testing then ''RAPID_GOSSIP_TEST_DB'' else ''RAPID_GOSSIP_SYNC_SERVER_DB'')
      in \<lparr>db_host = env_or e (prefix @ ''_HOST'') ''localhost'',
          db_user = env_or e (prefix @ ''_USER'') ''alice'',
          db_name = env_or e (prefix @ ''_NAME'') ''ln_graph_sync'',
          db_password = e (prefix @ ''_PASSWORD'')\<rparr>)"

section \<open>The peer list\<close>

text \<open>\<open>str::split\<close> at a character, \<open>splitn(2, c)\<close> and \<open>trim\<close>.\<close>

fun split_at_char :: "char \<Rightarrow> string \<Rightarrow> string list" where
  "split_at_char c [] = [[]]"
| "split_at_char c (x # xs) =
     (case split_at_char c xs of
        [] \<Rightarrow> []
      | w # ws \<Rightarrow> if x = c then [] # w # ws else (x # w) # ws)"

definition splitn2 :: "char \<Rightarrow> string \<Rightarrow> string \<times> string option" where
  "splitn2 c s = (takeWhile (\<lambda>x. x \<noteq> c) s,
     case dropWhile (\<lambda>x. x \<noteq> c) s of [] \<Rightarrow> None | _ # r \<Rightarrow> Some r)"

definition is_whitespace :: "char \<Rightarrow> bool" where
  "is_whitespace c \<longleftrightarrow> (of_char c :: nat) = 32 \<or> (9 \<le> (of_char c :: nat) \<and> (of_char c :: nat) \<le> 13)"

definition trim :: "string \<Rightarrow> string" where
  "trim s = rev (dropWhile is_whitespace (rev (dropWhile is_whitespace s)))"

datatype peer_info_error =
  Invalid_Format | Invalid_Node_Pubkey | Cannot_Resolve_Address

definition resolve_peer_info ::
  "(string \<Rightarrow> bytes option) \<Rightarrow> (bytes \<Rightarrow> 'k option) \<Rightarrow> (string \<Rightarrow> 'a list option) \<Rightarrow>
   string \<Rightarrow> peer_info_error + ('k \<times> 'a)" where
  "resolve_peer_info from_hex from_slice to_socket_addrs peer_info =
     (case splitn2 (CHR ''@'') peer_info of (pubkey, address) \<Rightarrow>
        case from_hex pubkey of
          None \<Rightarrow> Inl Invalid_Node_Pubkey
        | Some raw \<Rightarrow>
            (case from_slice raw of
               None \<Rightarrow> Inl Invalid_Node_Pubkey
             | Some key \<Rightarrow>
                 (case address of
                    None \<Rightarrow> Inl Invalid_Format
                  | Some host \<Rightarrow>
                      (case to_socket_addrs host of
                         None \<Rightarrow> Inl Cannot_Resolve_Address
                       | Some [] \<Rightarrow> Inl Cannot_Resolve_Address
                       | Some (a # _) \<Rightarrow> Inr (key, a)))))"

definition WALLET_OF_SATOSHI :: string where
  "WALLET_OF_SATOSHI =
     ''035e4ff418fc8b5554c5d9eea66396c227bd429a3251c8cbc711002ba215bfc226@170.75.163.209:9735''"

definition ln_peers ::
  "(string \<Rightarrow> bytes option) \<Rightarrow> (bytes \<Rightarrow> 'k option) \<Rightarrow> (string \<Rightarrow> 'a list option) \<Rightarrow>
   env \<Rightarrow> ('k \<times> 'a) list res" where
  "ln_peers from_hex from_slice to_socket_addrs e =
     fold_res (\<lambda>peer_info peers.
         let trimmed_peer_info = trim peer_info
         in if trimmed_peer_info \<noteq> []
            then case resolve_peer_info from_hex from_slice to_socket_addrs trimmed_peer_info of
                   Inl _ \<Rightarrow> Inl Invalid_Peer_Info
                 | Inr p \<Rightarrow> Inr (peers @ [p])
            else Inr peers)
       (split_at_char (CHR '','') (env_or e ''LN_PEERS'' WALLET_OF_SATOSHI)) []"

section \<open>Decimal round trip\<close>

lemma char_digit_digit_char: "d < 10 \<Longrightarrow> char_digit (digit_char d) = Some d"
  by (simp add: char_digit_def digit_char_def)

lemma parse_digits_snoc:
  "parse_digits b acc (s @ [c]) = (case parse_digits b acc s of None \<Rightarrow> None
     | Some a \<Rightarrow> parse_digits b a [c])"
  by (induction b acc s rule: parse_digits.induct) (auto split: option.splits)

lemma parse_digits_dec_string: "n < bound \<Longrightarrow> parse_digits bound 0 (dec_string n) = Some n"
proof (induction n rule: dec_string.induct)
  case (1 n)
  show ?case
  proof (cases "n < 10")
    case True
    with "1.prems" show ?thesis
      by (simp add: dec_string.simps [of n] char_digit_digit_char)
  next
    case False
    then have "parse_digits bound 0 (dec_string (n div 10)) = Some (n div 10)"
      using "1.IH" "1.prems" by auto
    then show ?thesis using False "1.prems"
      by (simp add: dec_string.simps [of n] parse_digits_snoc char_digit_digit_char)
  qed
qed

lemma dec_string_nonempty: "dec_string n \<noteq> []"
  by (subst dec_string.simps) simp

lemma dec_string_hd_digit: "char_digit (hd (dec_string n)) \<noteq> None"
proof (induction n rule: dec_string.induct)
  case (1 n)
  then show ?case
    by (cases "n < 10")
      (simp_all add: dec_string.simps [of n] char_digit_digit_char hd_append dec_string_nonempty)
qed

lemma parse_unsigned_dec_string: "n < bound \<Longrightarrow> parse_unsigned bound (dec_string n) = Some n"
proof -
  assume "n < bound"
  have "char_digit CHR ''+'' = None" "char_digit CHR ''-'' = None"
    by (simp_all add: char_digit_def)
  with dec_string_hd_digit [of n] have "hd (dec_string n) \<noteq> CHR ''+''" "hd (dec_string n) \<noteq> CHR ''-''"
    by auto
  with \<open>n < bound\<close> show ?thesis
    by (auto simp: parse_unsigned_def dec_string_nonempty parse_digits_dec_string)
qed

lemma dec_string_inj:
  assumes "dec_string m = dec_string n"
  shows "m = n"
proof -
  have "parse_digits (Suc (m + n)) 0 (dec_string m) = Some m"
    by (rule parse_digits_dec_string) simp
  moreover have "parse_digits (Suc (m + n)) 0 (dec_string n) = Some n"
    by (rule parse_digits_dec_string) simp
  ultimately show ?thesis unfolding assms by simp
qed

lemma dec_string_eq_iff [simp]: "dec_string m = dec_string n \<longleftrightarrow> m = n"
  using dec_string_inj by auto

section \<open>What the settings guarantee\<close>

lemma snapshot_generation_interval_cases:
  assumes "snapshot_generation_interval e = Inr i"
  shows "0 < i" and "i mod SYMLINK_GRANULARITY_INTERVAL = 0"
  using assms
  by (auto simp: snapshot_generation_interval_def Let_def split: option.splits if_splits)

end
