(* ===== verification/Lookup.thy ===== *)
theory Lookup
  imports Database Delta_Types Config
begin

text \<open>
  src/lookup.rs: collecting the channel and node deltas from the database. Each function is a
  fold of a row step over the result of a query; a query is a function of the tables, of its
  parameters and of the order in which the database happens to deliver rows. The definitions
  come first; the lemmas about them are in Lookup_Channels and Lookup_Nodes.
\<close>

section \<open>What the lookup gets from outside\<close>

text \<open>
  LDK's readers of the stored messages, the rounding of \<open>EXTRACT('epoch' from seen)\<close> to a
  \<open>BIGINT\<close>, and the order in which each query meets its rows.
\<close>

record lookup_env =
  le_read_channel_announcement :: "bytes \<Rightarrow> channel_announcement option"
  le_read_channel_update :: "bytes \<Rightarrow> channel_update option"
  le_read_node_announcement :: "bytes \<Rightarrow> node_announcement option"
  le_epoch :: "int \<Rightarrow> 64 word"
  le_scan_announcements :: "channel_announcement_row order"
  le_scan_oldest :: "channel_update_row order"
  le_scan_newer_oldest :: "channel_update_row order"
  le_scan_window :: "channel_update_row order"
  le_scan_mutated :: "channel_update_row order"
  le_scan_reference_ids :: "channel_update_row order"
  le_scan_reference :: "channel_update_row order"
  le_scan_intermediate :: "channel_update_row order"
  le_scan_node_reference :: "node_announcement_row order"
  le_scan_node_intermediate :: "node_announcement_row order"

text \<open>\<open>row.get::<_, i64>("seen") as u32\<close>\<close>

definition seen_u32 :: "lookup_env \<Rightarrow> int \<Rightarrow> u32" where
  "seen_u32 E seen = ucast (le_epoch E seen)"

text \<open>A cast from a non-negative \<open>f64\<close> to \<open>u32\<close> saturates.\<close>

definition f64_as_u32 :: "u64 \<Rightarrow> u32" where
  "f64_as_u32 t = (if t < 4294967296 then ucast t else - 1)"

section \<open>should_snapshot_include_reminders\<close>

definition should_snapshot_include_reminders :: "u32 \<Rightarrow> u64 \<Rightarrow> bool" where
  "should_snapshot_include_reminders last_sync_timestamp current_timestamp =
     (let current_hour = current_timestamp div 3600;
          current_day = current_timestamp div (24 * 3600);
          is_reminder_hour = (current_hour mod 24 = 0);
          is_reminder_day = (current_day mod 5 = 0);
          snapshot_scope = saturating_sub current_timestamp (ucast last_sync_timestamp);
          is_reminder_scope = (snapshot_scope > 50 * 3600)
      in (is_reminder_hour \<and> is_reminder_day) \<or> is_reminder_scope)"

section \<open>fetch_channel_announcements\<close>

definition graph_channel_ids :: "network_graph \<Rightarrow> (64 word) list" where
  "graph_channel_ids g =
     List.map_filter (\<lambda>(_, c). case (ci_announcement_message c, ci_one_to_two c, ci_two_to_one c) of
         (Some m, Some _, Some _) \<Rightarrow> Some (ca_short_channel_id (contents m))
       | _ \<Rightarrow> None) (graph_channels g)"

definition announcement_rows ::
  "lookup_env \<Rightarrow> database \<Rightarrow> (64 word) list \<Rightarrow> channel_announcement_row list" where
  "announcement_rows E db channel_ids =
     sort_key (\<lambda>r. sint (car_short_channel_id r))
       (filter (\<lambda>r. car_short_channel_id r \<in> set channel_ids)
         (le_scan_announcements E (db_channel_announcements db)))"

definition announcement_row_step ::
  "lookup_env \<Rightarrow> channel_announcement_row \<Rightarrow> delta_set \<Rightarrow> delta_set res" where
  "announcement_row_step E row delta_set =
     bind_res (unwrap (le_read_channel_announcement E (car_announcement_signed row))) (\<lambda>message.
     let unsigned_announcement = contents message;
         scid = ca_short_channel_id unsigned_announcement;
         current_seen_timestamp = seen_u32 E (car_seen row)
     in Inr (bt_upd scid channel_delta_default (\<lambda>d. d\<lparr>cd_announcement :=
          Some \<lparr>ad_seen = current_seen_timestamp, ad_announcement = unsigned_announcement\<rparr>\<rparr>) delta_set))"

text \<open>
  The first update in each direction, then per channel the later of the two, kept when it is not
  older than the last sync.
\<close>

definition directional_last_seens :: "lookup_env \<Rightarrow> database \<Rightarrow> (64 word) list \<Rightarrow> channel_update_row list" where
  "directional_last_seens E db channel_ids =
     distinct_on (\<lambda>r. (cur_short_channel_id r, cur_direction r))
       (sort_key (\<lambda>r. (sint (cur_short_channel_id r), cur_direction r, cur_seen r))
         (filter (\<lambda>r. cur_short_channel_id r \<in> set channel_ids)
           (le_scan_oldest E (db_channel_updates db))))"

definition newer_oldest_directional_updates ::
  "lookup_env \<Rightarrow> database \<Rightarrow> (64 word) list \<Rightarrow> u32 \<Rightarrow> channel_update_row list" where
  "newer_oldest_directional_updates E db channel_ids last_sync_timestamp =
     (let distinct_chans =
            distinct_on cur_short_channel_id
              (sort_key (\<lambda>r. (sint (cur_short_channel_id r), - cur_seen r))
                (le_scan_newer_oldest E (directional_last_seens E db channel_ids)))
      in filter (\<lambda>r. cur_seen r \<ge> to_timestamp last_sync_timestamp) distinct_chans)"

definition first_updates_step :: "lookup_env \<Rightarrow> channel_update_row \<Rightarrow> delta_set \<Rightarrow> delta_set" where
  "first_updates_step E row delta_set =
     bt_upd (cur_short_channel_id row) channel_delta_default
       (\<lambda>d. d\<lparr>cd_first_bidirectional_updates_seen := Some (seen_u32 E (cur_seen row))\<rparr>) delta_set"

text \<open>The six compared columns.\<close>

definition update_row_differs :: "channel_update_row \<Rightarrow> channel_update_row \<Rightarrow> bool" where
  "update_row_differs r r' \<longleftrightarrow>
     cur_disable r \<noteq> cur_disable r' \<or> cur_cltv_expiry_delta r \<noteq> cur_cltv_expiry_delta r' \<or>
     cur_htlc_minimum_msat r \<noteq> cur_htlc_minimum_msat r' \<or> cur_fee_base_msat r \<noteq> cur_fee_base_msat r' \<or>
     cur_fee_proportional_millionths r \<noteq> cur_fee_proportional_millionths r' \<or>
     cur_htlc_maximum_msat r \<noteq> cur_htlc_maximum_msat r'"

abbreviation update_row_key :: "channel_update_row \<Rightarrow> 64 word \<times> bool" where
  "update_row_key r \<equiv> (cur_short_channel_id r, cur_direction r)"

text \<open>The window query: per channel and direction, in descending order of \<open>seen\<close>.\<close>

definition distinct_successor_rows ::
  "lookup_env \<Rightarrow> database \<Rightarrow> (64 word) list \<Rightarrow> u64 \<Rightarrow> channel_update_row list" where
  "distinct_successor_rows E db channel_ids threshold =
     (let rows = le_scan_window E (filter (\<lambda>r. cur_short_channel_id r \<in> set channel_ids \<and>
            cur_seen r \<ge> to_timestamp threshold) (db_channel_updates db));
          annotated = concat (map (\<lambda>k. annotate_successors update_row_differs
            (sort_key (\<lambda>r. - cur_seen r) (filter (\<lambda>r. update_row_key r = k) rows)))
            (remdups (map update_row_key rows)))
      in map fst (filter snd annotated))"

definition mutated_updates ::
  "lookup_env \<Rightarrow> database \<Rightarrow> (64 word) list \<Rightarrow> u64 \<Rightarrow> channel_update_row list" where
  "mutated_updates E db channel_ids threshold =
     distinct_on update_row_key
       (sort_key (\<lambda>r. (sint (cur_short_channel_id r), cur_direction r, - cur_timestamp r))
         (le_scan_mutated E (distinct_successor_rows E db channel_ids threshold)))"

text \<open>\<open>get_or_insert\<close> on one direction, followed by a change in place.\<close>

definition upd_direction ::
  "bool \<Rightarrow> (directed_update_delta \<Rightarrow> directed_update_delta) \<Rightarrow> channel_delta \<Rightarrow> channel_delta" where
  "upd_direction direction f d =
     (let g = (\<lambda>o'. Some (f (case o' of None \<Rightarrow> directed_update_delta_default | Some u \<Rightarrow> u)))
      in if \<not> direction
         then d\<lparr>cd_updates := (g (fst (cd_updates d)), snd (cd_updates d))\<rparr>
         else d\<lparr>cd_updates := (fst (cd_updates d), g (snd (cd_updates d)))\<rparr>)"

definition reminder_row_step ::
  "lookup_env \<Rightarrow> network_graph \<Rightarrow> u64 \<Rightarrow> channel_update_row \<Rightarrow> delta_set \<Rightarrow> delta_set res" where
  "reminder_row_step E g reminder_threshold_timestamp row delta_set =
     (let seen = seen_u32 E (cur_seen row)
      in if seen < f64_as_u32 reminder_threshold_timestamp
         then bind_res (unwrap (le_read_channel_update E (cur_blob_signed row))) (\<lambda>message.
           let scid = cu_short_channel_id (contents message);
               delta_set = bt_upd scid channel_delta_default (\<lambda>d. d\<lparr>cd_requires_reminder := True\<rparr>) delta_set
           in case graph_channel g scid of
                None \<Rightarrow> Inr delta_set
              | Some current_channel_info \<Rightarrow>
                 (case (ci_one_to_two current_channel_info, ci_two_to_one current_channel_info) of
                    (Some info_12, Some info_21) \<Rightarrow>
                      Inr (bt_upd scid channel_delta_default (\<lambda>d.
                        upd_direction True (\<lambda>u. u\<lparr>dud_serialization_update_flags :=
                            Some (if cui_enabled info_21 then 1 else 3)\<rparr>)
                          (upd_direction False (\<lambda>u. u\<lparr>dud_serialization_update_flags :=
                            Some (if cui_enabled info_12 then 0 else 2)\<rparr>) d)) delta_set)
                  | _ \<Rightarrow> Inr delta_set))
         else Inr delta_set)"

definition fetch_channel_announcements ::
  "lookup_env \<Rightarrow> u64 \<Rightarrow> database \<Rightarrow> network_graph \<Rightarrow> u32 \<Rightarrow> u64 option \<Rightarrow> delta_set \<Rightarrow> delta_set res" where
  "fetch_channel_announcements E now db g last_sync_timestamp snapshot_reference_timestamp delta_set =
     (let channel_ids = graph_channel_ids g;
          current_timestamp = (case snapshot_reference_timestamp of Some t \<Rightarrow> t | None \<Rightarrow> now);
          include_reminders = should_snapshot_include_reminders last_sync_timestamp current_timestamp
      in bind_res (fold_res (announcement_row_step E) (announcement_rows E db channel_ids) delta_set) (\<lambda>delta_set.
         let delta_set = fold (first_updates_step E)
               (newer_oldest_directional_updates E db channel_ids last_sync_timestamp) delta_set
         in if include_reminders
            then bind_res (unwrap (checked_sub current_timestamp CHANNEL_REMINDER_AGE)) (\<lambda>reminder_threshold_timestamp.
                 bind_res (unwrap (checked_sub current_timestamp PRUNE_INTERVAL)) (\<lambda>reminder_lookup_threshold_timestamp.
                 fold_res (reminder_row_step E g reminder_threshold_timestamp)
                   (mutated_updates E db channel_ids reminder_lookup_threshold_timestamp) delta_set))
            else Inr delta_set))"

section \<open>fetch_channel_updates\<close>

definition reference_rows :: "lookup_env \<Rightarrow> database \<Rightarrow> u32 \<Rightarrow> channel_update_row list" where
  "reference_rows E db last_sync_timestamp =
     (let t = to_timestamp last_sync_timestamp;
          updated = cur_short_channel_id ` {r \<in> set (db_channel_updates db). cur_seen r \<ge> t};
          ids = map cur_id (distinct_on update_row_key
            (sort_key (\<lambda>r. (sint (cur_short_channel_id r), cur_direction r, - cur_seen r))
              (filter (\<lambda>r. cur_seen r < t \<and> cur_short_channel_id r \<in> updated)
                (le_scan_reference_ids E (db_channel_updates db)))))
      in le_scan_reference E (filter (\<lambda>r. cur_id r \<in> set ids) (db_channel_updates db)))"

definition reference_row_step ::
  "lookup_env \<Rightarrow> channel_update_row \<Rightarrow> delta_set \<times> int list \<Rightarrow> (delta_set \<times> int list) res" where
  "reference_row_step E row st =
     (case st of (delta_set, non_intermediate_ids) \<Rightarrow>
      let non_intermediate_ids = cur_id row # non_intermediate_ids;
          seen = seen_u32 E (cur_seen row)
      in bind_res (unwrap (le_read_channel_update E (cur_blob_signed row))) (\<lambda>message.
         let unsigned_channel_update = contents message;
             scid = cu_short_channel_id unsigned_channel_update
         in Inr (bt_upd scid channel_delta_default
              (upd_direction (cur_direction row) (\<lambda>u. u\<lparr>dud_last_update_before_seen :=
                Some \<lparr>ud_seen = seen, ud_update = unsigned_channel_update\<rparr>\<rparr>)) delta_set,
              non_intermediate_ids)))"

definition intermediate_rows :: "lookup_env \<Rightarrow> database \<Rightarrow> u32 \<Rightarrow> channel_update_row list" where
  "intermediate_rows E db last_sync_timestamp =
     sort_key (\<lambda>r. (sint (cur_short_channel_id r), - cur_timestamp r))
       (le_scan_intermediate E
         (filter (\<lambda>r. cur_seen r \<ge> to_timestamp last_sync_timestamp) (db_channel_updates db)))"

text \<open>\<open>// determine mutations\<close>\<close>

definition record_mutations ::
  "unsigned_channel_update \<Rightarrow> unsigned_channel_update \<Rightarrow> mutated_properties \<Rightarrow> mutated_properties" where
  "record_mutations u last_seen m = \<lparr>
     mp_flags = (mp_flags m \<or> cu_channel_flags u \<noteq> cu_channel_flags last_seen),
     mp_cltv_expiry_delta = (mp_cltv_expiry_delta m \<or> cu_cltv_expiry_delta u \<noteq> cu_cltv_expiry_delta last_seen),
     mp_htlc_minimum_msat = (mp_htlc_minimum_msat m \<or> cu_htlc_minimum_msat u \<noteq> cu_htlc_minimum_msat last_seen),
     mp_fee_base_msat = (mp_fee_base_msat m \<or> cu_fee_base_msat u \<noteq> cu_fee_base_msat last_seen),
     mp_fee_proportional_millionths = (mp_fee_proportional_millionths m \<or>
       cu_fee_proportional_millionths u \<noteq> cu_fee_proportional_millionths last_seen),
     mp_htlc_maximum_msat = (mp_htlc_maximum_msat m \<or> cu_htlc_maximum_msat u \<noteq> cu_htlc_maximum_msat last_seen)\<rparr>"

definition intermediate_delta ::
  "bool \<Rightarrow> u32 \<Rightarrow> unsigned_channel_update \<Rightarrow> directed_update_delta \<Rightarrow> directed_update_delta" where
  "intermediate_delta is_latest seen u update_delta =
     (let update_delta = (if is_latest
            then update_delta\<lparr>dud_latest_update_after_seen := Some \<lparr>ud_seen = seen, ud_update = u\<rparr>\<rparr>
            else update_delta)
      in case dud_last_update_before_seen update_delta of
           Some last_seen_update \<Rightarrow> update_delta\<lparr>dud_mutated_properties :=
             record_mutations u (ud_update last_seen_update) (dud_mutated_properties update_delta)\<rparr>
         | None \<Rightarrow> update_delta)"

definition intermediate_row_step ::
  "lookup_env \<Rightarrow> int list \<Rightarrow> channel_update_row \<Rightarrow> delta_set \<times> u64 \<times> bool \<times> bool \<Rightarrow>
   (delta_set \<times> u64 \<times> bool \<times> bool) res" where
  "intermediate_row_step E non_intermediate_ids row st =
     (if cur_id row \<in> set non_intermediate_ids then Inr st
      else case st of (delta_set, previous_scid, previously_seen_directions) \<Rightarrow>
       (let direction = cur_direction row;
            current_seen_timestamp = seen_u32 E (cur_seen row)
        in bind_res (unwrap (le_read_channel_update E (cur_blob_signed row))) (\<lambda>message.
           let unsigned_channel_update = contents message;
               scid = cu_short_channel_id unsigned_channel_update;
               (previous_scid, previously_seen_directions) =
                 (if scid \<noteq> previous_scid then (scid, (False, False))
                  else (previous_scid, previously_seen_directions));
               is_latest = (if \<not> direction then \<not> fst previously_seen_directions
                            else \<not> snd previously_seen_directions);
               previously_seen_directions =
                 (if \<not> direction then (True, snd previously_seen_directions)
                  else (fst previously_seen_directions, True))
           in Inr (bt_upd scid channel_delta_default
                (upd_direction direction
                  (intermediate_delta is_latest current_seen_timestamp unsigned_channel_update)) delta_set,
                previous_scid, previously_seen_directions))))"

definition fetch_channel_updates ::
  "lookup_env \<Rightarrow> database \<Rightarrow> u32 \<Rightarrow> delta_set \<Rightarrow> delta_set res" where
  "fetch_channel_updates E db last_sync_timestamp delta_set =
     bind_res (fold_res (reference_row_step E) (reference_rows E db last_sync_timestamp) (delta_set, []))
       (\<lambda>(delta_set, non_intermediate_ids).
     bind_res (fold_res (intermediate_row_step E non_intermediate_ids)
         (intermediate_rows E db last_sync_timestamp) (delta_set, - 1, False, False))
       (\<lambda>(delta_set, _). Inr delta_set))"

section \<open>fetch_node_updates\<close>

definition graph_node_deltas :: "network_graph \<Rightarrow> node_delta_set" where
  "graph_node_deltas g = List.map_filter (\<lambda>(node_id, announcement_info).
     map_option (\<lambda>details. (node_id, \<lparr>nde_latest_details = Some \<lparr>nd_seen = None, nd_features = nai_features details,
         nd_addresses = remdups (nai_addresses details)\<rparr>, nde_strategy = None,
         nde_last_details_before_seen = None\<rparr>)) announcement_info) (graph_nodes g)"

definition node_reference_rows ::
  "lookup_env \<Rightarrow> database \<Rightarrow> bytes list \<Rightarrow> u32 \<Rightarrow> node_announcement_row list" where
  "node_reference_rows E db node_ids last_sync_timestamp =
     distinct_on nar_public_key
       (sort_key (\<lambda>r. (nar_public_key r, - nar_seen r))
         (filter (\<lambda>r. nar_public_key r \<in> set node_ids \<and> nar_seen r < to_timestamp last_sync_timestamp)
           (le_scan_node_reference E (db_node_announcements db))))"

definition node_reference_step ::
  "lookup_env \<Rightarrow> node_announcement_row \<Rightarrow> node_delta_set \<Rightarrow> node_delta_set res" where
  "node_reference_step E row delta_set =
     (let seen = seen_u32 E (nar_seen row)
      in bind_res (unwrap (le_read_node_announcement E (nar_announcement_signed row))) (\<lambda>message.
         let unsigned_node_announcement = contents message
         in Inr (hm_upd (na_node_id unsigned_node_announcement) node_delta_default (\<lambda>d.
              case nde_last_details_before_seen d of
                Some _ \<Rightarrow> d
              | None \<Rightarrow> d\<lparr>nde_last_details_before_seen := Some \<lparr>nd_seen = Some seen,
                  nd_features = na_features unsigned_node_announcement,
                  nd_addresses = remdups (na_addresses unsigned_node_announcement)\<rparr>\<rparr>) delta_set)))"

definition node_intermediate_rows ::
  "lookup_env \<Rightarrow> database \<Rightarrow> bytes list \<Rightarrow> u32 \<Rightarrow> node_announcement_row list" where
  "node_intermediate_rows E db node_ids effective_threshold_timestamp =
     sort_key (\<lambda>r. (nar_public_key r, - nar_timestamp r))
       (le_scan_node_intermediate E
         (filter (\<lambda>r. nar_public_key r \<in> set node_ids \<and> nar_seen r \<ge> to_timestamp effective_threshold_timestamp)
           (db_node_announcements db)))"

text \<open>The variables that the loop over the intermediate node announcements carries along.\<close>

record node_scan =
  ns_previous_node_id :: "node_id option"
  ns_has_address_set_changed :: bool
  ns_has_feature_set_changed :: bool
  ns_latest_mutation_timestamp :: "u32 option"

definition node_scan_start :: node_scan where
  "node_scan_start = \<lparr>ns_previous_node_id = None, ns_has_address_set_changed = False,
     ns_has_feature_set_changed = False, ns_latest_mutation_timestamp = None\<rparr>"

definition node_scan_compare ::
  "u32 \<Rightarrow> unsigned_node_announcement \<Rightarrow> node_details \<Rightarrow> node_scan \<Rightarrow> node_scan" where
  "node_scan_compare seen a last_seen ns =
     (let mutation = (case ns_latest_mutation_timestamp ns of None \<Rightarrow> Some seen | Some t \<Rightarrow> Some t);
          ns = (if set (na_addresses a) \<noteq> set (nd_addresses last_seen)
                then ns\<lparr>ns_has_address_set_changed := True, ns_latest_mutation_timestamp := mutation\<rparr> else ns)
      in if na_features a \<noteq> nd_features last_seen
         then ns\<lparr>ns_has_feature_set_changed := True, ns_latest_mutation_timestamp := mutation\<rparr> else ns)"

definition node_intermediate_delta ::
  "bool \<Rightarrow> u32 \<Rightarrow> u32 \<Rightarrow> u32 \<Rightarrow> unsigned_node_announcement \<Rightarrow> node_scan \<Rightarrow> node_delta \<Rightarrow> node_scan \<times> node_delta" where
  "node_intermediate_delta include_reminders last_sync_timestamp reminder_inclusion_threshold_timestamp
     current_seen_timestamp a ns d =
     (let is_new = (ns_previous_node_id ns \<noteq> Some (na_node_id a));
          ns = (if is_new then node_scan_start else ns);
          d = (if is_new
               then d\<lparr>nde_latest_details := map_option (\<lambda>l. l\<lparr>nd_seen := Some current_seen_timestamp\<rparr>)
                        (nde_latest_details d)\<rparr>
               else d);
          (ns, d) = (case nde_last_details_before_seen d of
             Some last_seen_update \<Rightarrow>
               (let ns = node_scan_compare current_seen_timestamp a last_seen_update ns
                in if current_seen_timestamp \<ge> last_sync_timestamp
                   then (ns, if ns_has_address_set_changed ns \<or> ns_has_feature_set_changed ns
                             then d\<lparr>nde_strategy := Some (NodeMutated \<lparr>mnp_addresses = ns_has_address_set_changed ns,
                                 mnp_features = ns_has_feature_set_changed ns\<rparr>)\<rparr>
                             else d)
                   else if include_reminders \<and>
                     (case ns_latest_mutation_timestamp ns of None \<Rightarrow> - 1 | Some t \<Rightarrow> t) \<le> reminder_inclusion_threshold_timestamp
                   then (ns, d\<lparr>nde_strategy := Some NodeReminder\<rparr>)
                   else (ns, d))
           | None \<Rightarrow> (ns, d\<lparr>nde_strategy := Some NodeFull\<rparr>))
      in (ns\<lparr>ns_previous_node_id := Some (na_node_id a)\<rparr>, d))"

definition node_intermediate_step ::
  "lookup_env \<Rightarrow> bool \<Rightarrow> u32 \<Rightarrow> u32 \<Rightarrow> node_announcement_row \<Rightarrow> node_delta_set \<times> node_scan \<Rightarrow>
   (node_delta_set \<times> node_scan) res" where
  "node_intermediate_step E include_reminders last_sync_timestamp reminder_inclusion_threshold_timestamp row st =
     (case st of (delta_set, ns) \<Rightarrow>
      let current_seen_timestamp = seen_u32 E (nar_seen row)
      in bind_res (unwrap (le_read_node_announcement E (nar_announcement_signed row))) (\<lambda>message.
         let a = contents message;
             d = (case hm_get delta_set (na_node_id a) of None \<Rightarrow> node_delta_default | Some d \<Rightarrow> d);
             (ns, d) = node_intermediate_delta include_reminders last_sync_timestamp
               reminder_inclusion_threshold_timestamp current_seen_timestamp a ns d
         in Inr (hm_insert (na_node_id a) d delta_set, ns)))"

definition fetch_node_updates ::
  "lookup_env \<Rightarrow> u64 \<Rightarrow> database \<Rightarrow> network_graph \<Rightarrow> u32 \<Rightarrow> u64 option \<Rightarrow> node_delta_set res" where
  "fetch_node_updates E now db g last_sync_timestamp snapshot_reference_timestamp =
     (let delta_set = graph_node_deltas g;
          node_ids = map (\<lambda>(node_id, _). node_id_hex node_id) delta_set
      in bind_res (fold_res (node_reference_step E) (node_reference_rows E db node_ids last_sync_timestamp) delta_set)
        (\<lambda>delta_set.
      let current_timestamp = (case snapshot_reference_timestamp of Some t \<Rightarrow> t | None \<Rightarrow> now)
      in bind_res (unwrap (checked_sub current_timestamp CHANNEL_REMINDER_AGE)) (\<lambda>inclusion.
         bind_res (unwrap (checked_sub current_timestamp PRUNE_INTERVAL)) (\<lambda>lookup_threshold.
         let include_reminders = should_snapshot_include_reminders last_sync_timestamp current_timestamp;
             effective_threshold_timestamp =
               (if include_reminders then min last_sync_timestamp (ucast lookup_threshold) else last_sync_timestamp)
         in bind_res (fold_res (node_intermediate_step E include_reminders last_sync_timestamp (ucast inclusion))
              (node_intermediate_rows E db node_ids effective_threshold_timestamp) (delta_set, node_scan_start))
              (\<lambda>(delta_set, _). Inr delta_set)))))"

section \<open>filter_delta_set\<close>

definition update_meets_criteria :: "channel_delta \<Rightarrow> directed_update_delta option \<Rightarrow> bool" where
  "update_meets_criteria v update =
     (case update of None \<Rightarrow> False
      | Some update_reference \<Rightarrow>
          cd_requires_reminder v \<or> dud_latest_update_after_seen update_reference \<noteq> None)"

definition filter_delta_step :: "u64 \<Rightarrow> delta_set \<Rightarrow> delta_set res" where
  "filter_delta_step k delta_set =
     bind_res (unwrap (bt_get delta_set k)) (\<lambda>v.
     if cd_announcement v = None then Inr (bt_remove k delta_set)
     else let direction_a_meets_criteria = update_meets_criteria v (fst (cd_updates v));
              direction_b_meets_criteria = update_meets_criteria v (snd (cd_updates v))
          in if \<not> cd_requires_reminder v \<and> \<not> direction_a_meets_criteria \<and> \<not> direction_b_meets_criteria
             then Inr (bt_remove k delta_set)
             else Inr delta_set)"

definition filter_delta_set :: "delta_set \<Rightarrow> delta_set res" where
  "filter_delta_set delta_set = fold_res filter_delta_step (bt_keys delta_set) delta_set"

end
