(* ===== verification/Lookup_Channels.thy ===== *)
theory Lookup_Channels
  imports Lookup
begin

text \<open>
  What \<open>fetch_channel_updates\<close> and \<open>filter_delta_set\<close> of src/lookup.rs deliver: for each channel
  direction the last update before the sync, the latest one after it, and the properties that
  changed in between, whatever order the database returns rows in; and exactly the channels that
  the filter keeps.
\<close>

section \<open>filter_delta_set\<close>

definition keep_channel :: "channel_delta \<Rightarrow> bool" where
  "keep_channel v \<longleftrightarrow> cd_announcement v \<noteq> None \<and>
     (cd_requires_reminder v \<or> update_meets_criteria v (fst (cd_updates v)) \<or> update_meets_criteria v (snd (cd_updates v)))"

lemma bt_get_append: "k \<notin> set (map fst xs) \<Longrightarrow> bt_get (xs @ (k, v) # ys) k = Some v"
  by (induction xs) auto

lemma bt_remove_append: "k \<notin> set (map fst xs) \<Longrightarrow> bt_remove k (xs @ (k, v) # ys) = xs @ ys"
  by (induction xs) auto

lemma filter_delta_loop:
  assumes "distinct (map fst (xs @ ys))"
  shows "fold_res filter_delta_step (map fst ys) (xs @ ys) = Inr (xs @ filter (\<lambda>(_, v). keep_channel v) ys)"
  using assms
proof (induction ys arbitrary: xs)
  case (Cons y ys)
  obtain k v where y: "y = (k, v)" by (cases y)
  then have new: "k \<notin> set (map fst xs)" using Cons.prems by auto
  have "filter_delta_step k (xs @ (k, v) # ys) = Inr (if keep_channel v then xs @ (k, v) # ys else xs @ ys)"
    by (auto simp: filter_delta_step_def bt_get_append [OF new] bt_remove_append [OF new] keep_channel_def unwrap_def Let_def)
  then show ?case
    using Cons.IH [of "xs @ [(k, v)]"] Cons.IH [of xs] Cons.prems by (simp add: y)
qed simp

lemma filter_delta_set_eq:
  assumes "bt_inv ds"
  shows "filter_delta_set ds = Inr (filter (\<lambda>(_, v). keep_channel v) ds)"
proof -
  have "distinct (map fst ds)" using assms strict_sorted_iff by blast
  then show ?thesis using filter_delta_loop [of "[]" ds] by (simp add: filter_delta_set_def)
qed

section \<open>One direction of a channel\<close>

definition dir_of :: "bool \<Rightarrow> channel_delta \<Rightarrow> directed_update_delta option" where
  "dir_of b d = (if \<not> b then fst (cd_updates d) else snd (cd_updates d))"

definition dir_or_default :: "directed_update_delta option \<Rightarrow> directed_update_delta" where
  "dir_or_default o' = (case o' of None \<Rightarrow> directed_update_delta_default | Some u \<Rightarrow> u)"

lemma dir_of_upd: "dir_of b (upd_direction b' f d) = (if b = b' then Some (f (dir_or_default (dir_of b d))) else dir_of b d)"
  by (simp add: dir_of_def upd_direction_def dir_or_default_def Let_def)

lemma upd_direction_fields [simp]:
  "cd_announcement (upd_direction b f d) = cd_announcement d"
  "cd_first_bidirectional_updates_seen (upd_direction b f d) = cd_first_bidirectional_updates_seen d"
  "cd_requires_reminder (upd_direction b f d) = cd_requires_reminder d"
  by (simp_all add: upd_direction_def Let_def)

lemma fold_upd_direction_fields [simp]:
  "cd_announcement (fold (\<lambda>x. upd_direction (dx x) (h x)) xs d) = cd_announcement d"
  "cd_first_bidirectional_updates_seen (fold (\<lambda>x. upd_direction (dx x) (h x)) xs d) = cd_first_bidirectional_updates_seen d"
  "cd_requires_reminder (fold (\<lambda>x. upd_direction (dx x) (h x)) xs d) = cd_requires_reminder d"
  by (induction xs arbitrary: d) simp_all

lemma dir_of_fold:
  "dir_of b (fold (\<lambda>x. upd_direction (dx x) (h x)) xs d) =
     (if \<exists>x \<in> set xs. dx x = b then Some (fold h (filter (\<lambda>x. dx x = b) xs) (dir_or_default (dir_of b d))) else dir_of b d)"
proof (induction xs arbitrary: d)
  case (Cons x xs)
  then show ?case
    by (cases "dx x = b") (auto simp: dir_of_upd dir_or_default_def filter_empty_conv)
qed simp

section \<open>Rows whose blob can be read\<close>

definition update_of :: "lookup_env \<Rightarrow> channel_update_row \<Rightarrow> unsigned_channel_update" where
  "update_of E r = contents (the (le_read_channel_update E (cur_blob_signed r)))"

definition update_row_ok :: "lookup_env \<Rightarrow> channel_update_row \<Rightarrow> bool" where
  "update_row_ok E r \<longleftrightarrow> le_read_channel_update E (cur_blob_signed r) \<noteq> None \<and>
     cu_short_channel_id (update_of E r) = cur_short_channel_id r"

definition delta_of_row :: "lookup_env \<Rightarrow> channel_update_row \<Rightarrow> update_delta" where
  "delta_of_row E r = \<lparr>ud_seen = seen_u32 E (cur_seen r), ud_update = update_of E r\<rparr>"

lemma unwrap_update:
  "update_row_ok E r \<Longrightarrow> \<exists>m. unwrap (le_read_channel_update E (cur_blob_signed r)) = Inr m \<and> contents m = update_of E r"
  by (auto simp: update_row_ok_def update_of_def unwrap_def)

text \<open>The reference rows.\<close>

definition set_reference :: "lookup_env \<Rightarrow> channel_update_row \<Rightarrow> directed_update_delta \<Rightarrow> directed_update_delta" where
  "set_reference E r u = u\<lparr>dud_last_update_before_seen := Some (delta_of_row E r)\<rparr>"

lemma reference_step_eq:
  assumes "update_row_ok E r"
  shows "reference_row_step E r (ds, ids) =
    Inr (bt_upd (cur_short_channel_id r) channel_delta_default (upd_direction (cur_direction r) (set_reference E r)) ds, cur_id r # ids)"
  using unwrap_update [OF assms] assms
  by (auto simp: reference_row_step_def update_row_ok_def set_reference_def [abs_def] delta_of_row_def Let_def)

lemma reference_loop:
  assumes "\<And>r. r \<in> set rows \<Longrightarrow> update_row_ok E r"
  shows "fold_res (reference_row_step E) rows (ds, ids) =
    Inr (fold (\<lambda>r. bt_upd (cur_short_channel_id r) channel_delta_default (upd_direction (cur_direction r) (set_reference E r))) rows ds,
         rev (map cur_id rows) @ ids)"
  using assms by (induction rows arbitrary: ds ids) (simp_all add: reference_step_eq)

lemma fold_set_reference:
  "fold (set_reference E) rows u =
     (if rows = [] then u else u\<lparr>dud_last_update_before_seen := Some (delta_of_row E (last rows))\<rparr>)"
  by (induction rows arbitrary: u) (simp_all add: set_reference_def)

section \<open>The intermediate rows\<close>

text \<open>
  The loop recognises the latest update of a channel direction as the first row of it that it
  meets; on rows ordered by channel that is the first row of the direction altogether.
\<close>

fun mark_first :: "('r \<Rightarrow> 'k) \<Rightarrow> 'k set \<Rightarrow> 'r list \<Rightarrow> ('r \<times> bool) list" where
  "mark_first key seen [] = []"
| "mark_first key seen (r # rs) = (r, key r \<notin> seen) # mark_first key (insert (key r) seen) rs"

lemma filter_mark_first:
  "filter (\<lambda>x. key (fst x) = k) (mark_first key seen rs) =
     (case filter (\<lambda>r. key r = k) rs of [] \<Rightarrow> [] | r # rest \<Rightarrow> (r, k \<notin> seen) # map (\<lambda>r. (r, False)) rest)"
proof (induction rs arbitrary: seen)
  case (Cons r rs)
  show ?case
  proof (cases "key r = k")
    case True
    have "filter (\<lambda>x. key (fst x) = k) (mark_first key (insert k seen) rs) = map (\<lambda>r. (r, False)) (filter (\<lambda>r. key r = k) rs)"
      by (simp add: Cons.IH split: list.split)
    with True show ?thesis by simp
  next
    case False
    with Cons.IH show ?thesis by (simp split: list.split)
  qed
qed simp

lemma map_fst_mark_first [simp]: "map fst (mark_first key seen rs) = rs"
  by (induction rs arbitrary: seen) simp_all

definition intermediate_of :: "lookup_env \<Rightarrow> channel_update_row \<times> bool \<Rightarrow> directed_update_delta \<Rightarrow> directed_update_delta" where
  "intermediate_of E x = intermediate_delta (snd x) (seen_u32 E (cur_seen (fst x))) (update_of E (fst x))"

abbreviation enter_intermediate :: "lookup_env \<Rightarrow> channel_update_row \<times> bool \<Rightarrow> delta_set \<Rightarrow> delta_set" where
  "enter_intermediate E x \<equiv> bt_upd (cur_short_channel_id (fst x)) channel_delta_default
     (upd_direction (cur_direction (fst x)) (intermediate_of E x))"

lemma grouped_before:
  assumes "sorted (map (\<lambda>r. sint (cur_short_channel_id r)) (done' @ r # rows))"
    and "done' \<noteq> [] \<Longrightarrow> prev = cur_short_channel_id (last done')" and "cur_short_channel_id r \<noteq> prev"
  shows "cur_short_channel_id r \<notin> cur_short_channel_id ` set done'"
proof (cases done' rule: rev_cases)
  case (snoc front l)
  then have "sint (cur_short_channel_id x) \<le> sint prev \<and> sint prev \<le> sint (cur_short_channel_id r)" if "x \<in> set done'" for x
    using that assms(1,2) by (auto simp: sorted_append)
  then have "sint prev = sint (cur_short_channel_id r)" if "cur_short_channel_id r \<in> cur_short_channel_id ` set done'"
    using that by force
  with assms(3) show ?thesis using signed_word_eqI [of prev "cur_short_channel_id r"] by auto
qed simp

lemma intermediate_loop:
  assumes "\<And>r. r \<in> set rows \<Longrightarrow> update_row_ok E r \<and> cur_id r \<notin> set ids"
    and "sorted (map (\<lambda>r. sint (cur_short_channel_id r)) (done' @ rows))"
    and "done' = [] \<Longrightarrow> dirs = (False, False)" and "done' \<noteq> [] \<Longrightarrow> prev = cur_short_channel_id (last done')"
    and "fst dirs \<longleftrightarrow> (prev, False) \<in> update_row_key ` set done'"
    and "snd dirs \<longleftrightarrow> (prev, True) \<in> update_row_key ` set done'"
  shows "\<exists>st. fold_res (intermediate_row_step E ids) rows (ds, prev, dirs) =
    Inr (fold (enter_intermediate E) (mark_first update_row_key (update_row_key ` set done') rows) ds, st)"
  using assms
proof (induction rows arbitrary: done' ds prev dirs)
  case (Cons r rows)
  have ok: "update_row_ok E r" and fresh: "cur_id r \<notin> set ids" using Cons.prems(1) by auto
  have scid: "cu_short_channel_id (update_of E r) = cur_short_channel_id r"
    using ok by (simp add: update_row_ok_def)
  have other: "(cur_short_channel_id r, b) \<notin> update_row_key ` set done'" if "cur_short_channel_id r \<noteq> prev" for b
    using grouped_before [OF Cons.prems(2,4) that] by auto
  let ?dirs0 = "if cur_short_channel_id r \<noteq> prev then (False, False) else dirs"
  let ?dirs1 = "if \<not> cur_direction r then (True, snd ?dirs0) else (fst ?dirs0, True)"
  have latest: "(if \<not> cur_direction r then \<not> fst ?dirs0 else \<not> snd ?dirs0) = (update_row_key r \<notin> update_row_key ` set done')"
    using other Cons.prems(5,6) by (cases "cur_direction r"; cases "cur_short_channel_id r = prev") auto
  have step: "intermediate_row_step E ids r (ds, prev, dirs) =
      Inr (enter_intermediate E (r, update_row_key r \<notin> update_row_key ` set done') ds, cur_short_channel_id r, ?dirs1)"
    using unwrap_update [OF ok] fresh scid latest
    by (auto simp: intermediate_row_step_def intermediate_of_def [abs_def] Let_def)
  have "\<exists>st. fold_res (intermediate_row_step E ids) rows
      (enter_intermediate E (r, update_row_key r \<notin> update_row_key ` set done') ds, cur_short_channel_id r, ?dirs1) =
    Inr (fold (enter_intermediate E) (mark_first update_row_key (update_row_key ` set (done' @ [r])) rows)
      (enter_intermediate E (r, update_row_key r \<notin> update_row_key ` set done') ds), st)"
  proof (rule Cons.IH)
    show "fst ?dirs1 \<longleftrightarrow> (cur_short_channel_id r, False) \<in> update_row_key ` set (done' @ [r])"
      using other Cons.prems(5,6) by (cases "cur_direction r"; cases "cur_short_channel_id r = prev") auto
    show "snd ?dirs1 \<longleftrightarrow> (cur_short_channel_id r, True) \<in> update_row_key ` set (done' @ [r])"
      using other Cons.prems(5,6) by (cases "cur_direction r"; cases "cur_short_channel_id r = prev") auto
  qed (use Cons.prems(1,2) in auto)
  then show ?case by (simp add: step insert_commute)
qed simp

definition mutations_against :: "unsigned_channel_update \<Rightarrow> unsigned_channel_update list \<Rightarrow> mutated_properties" where
  "mutations_against b us = fold (\<lambda>u. record_mutations u b) us mutated_properties_default"

lemma mutations_against_fields:
  "mp_flags (mutations_against b us) \<longleftrightarrow> (\<exists>u\<in>set us. cu_channel_flags u \<noteq> cu_channel_flags b)"
  "mp_cltv_expiry_delta (mutations_against b us) \<longleftrightarrow> (\<exists>u\<in>set us. cu_cltv_expiry_delta u \<noteq> cu_cltv_expiry_delta b)"
  "mp_htlc_minimum_msat (mutations_against b us) \<longleftrightarrow> (\<exists>u\<in>set us. cu_htlc_minimum_msat u \<noteq> cu_htlc_minimum_msat b)"
  "mp_fee_base_msat (mutations_against b us) \<longleftrightarrow> (\<exists>u\<in>set us. cu_fee_base_msat u \<noteq> cu_fee_base_msat b)"
  "mp_fee_proportional_millionths (mutations_against b us) \<longleftrightarrow>
     (\<exists>u\<in>set us. cu_fee_proportional_millionths u \<noteq> cu_fee_proportional_millionths b)"
  "mp_htlc_maximum_msat (mutations_against b us) \<longleftrightarrow> (\<exists>u\<in>set us. cu_htlc_maximum_msat u \<noteq> cu_htlc_maximum_msat b)"
proof -
  have *: "mp_flags (fold (\<lambda>u. record_mutations u b) us m) \<longleftrightarrow> mp_flags m \<or> (\<exists>u\<in>set us. cu_channel_flags u \<noteq> cu_channel_flags b)"
    "mp_cltv_expiry_delta (fold (\<lambda>u. record_mutations u b) us m) \<longleftrightarrow>
      mp_cltv_expiry_delta m \<or> (\<exists>u\<in>set us. cu_cltv_expiry_delta u \<noteq> cu_cltv_expiry_delta b)"
    "mp_htlc_minimum_msat (fold (\<lambda>u. record_mutations u b) us m) \<longleftrightarrow>
      mp_htlc_minimum_msat m \<or> (\<exists>u\<in>set us. cu_htlc_minimum_msat u \<noteq> cu_htlc_minimum_msat b)"
    "mp_fee_base_msat (fold (\<lambda>u. record_mutations u b) us m) \<longleftrightarrow>
      mp_fee_base_msat m \<or> (\<exists>u\<in>set us. cu_fee_base_msat u \<noteq> cu_fee_base_msat b)"
    "mp_fee_proportional_millionths (fold (\<lambda>u. record_mutations u b) us m) \<longleftrightarrow>
      mp_fee_proportional_millionths m \<or> (\<exists>u\<in>set us. cu_fee_proportional_millionths u \<noteq> cu_fee_proportional_millionths b)"
    "mp_htlc_maximum_msat (fold (\<lambda>u. record_mutations u b) us m) \<longleftrightarrow>
      mp_htlc_maximum_msat m \<or> (\<exists>u\<in>set us. cu_htlc_maximum_msat u \<noteq> cu_htlc_maximum_msat b)" for m
    by (induction us arbitrary: m) (simp_all add: record_mutations_def)
  show "mp_flags (mutations_against b us) \<longleftrightarrow> (\<exists>u\<in>set us. cu_channel_flags u \<noteq> cu_channel_flags b)"
    "mp_cltv_expiry_delta (mutations_against b us) \<longleftrightarrow> (\<exists>u\<in>set us. cu_cltv_expiry_delta u \<noteq> cu_cltv_expiry_delta b)"
    "mp_htlc_minimum_msat (mutations_against b us) \<longleftrightarrow> (\<exists>u\<in>set us. cu_htlc_minimum_msat u \<noteq> cu_htlc_minimum_msat b)"
    "mp_fee_base_msat (mutations_against b us) \<longleftrightarrow> (\<exists>u\<in>set us. cu_fee_base_msat u \<noteq> cu_fee_base_msat b)"
    "mp_fee_proportional_millionths (mutations_against b us) \<longleftrightarrow>
       (\<exists>u\<in>set us. cu_fee_proportional_millionths u \<noteq> cu_fee_proportional_millionths b)"
    "mp_htlc_maximum_msat (mutations_against b us) \<longleftrightarrow> (\<exists>u\<in>set us. cu_htlc_maximum_msat u \<noteq> cu_htlc_maximum_msat b)"
    by (simp_all add: mutations_against_def * mutated_properties_default_def)
qed

lemma fold_intermediate_rest:
  "fold (intermediate_of E) (map (\<lambda>r. (r, False)) rs) u =
     (case dud_last_update_before_seen u of None \<Rightarrow> u
      | Some b \<Rightarrow> u\<lparr>dud_mutated_properties :=
          fold (\<lambda>r. record_mutations (update_of E r) (ud_update b)) rs (dud_mutated_properties u)\<rparr>)"
  by (induction rs arbitrary: u) (auto simp: intermediate_of_def intermediate_delta_def split: option.split)

lemma fold_intermediate:
  "fold (intermediate_of E) ((r, True) # map (\<lambda>r. (r, False)) rs) u =
     u\<lparr>dud_latest_update_after_seen := Some (delta_of_row E r),
       dud_mutated_properties := (case dud_last_update_before_seen u of None \<Rightarrow> dud_mutated_properties u
         | Some b \<Rightarrow> fold (\<lambda>r. record_mutations (update_of E r) (ud_update b)) (r # rs) (dud_mutated_properties u))\<rparr>"
  by (auto simp: fold_intermediate_rest intermediate_of_def intermediate_delta_def delta_of_row_def Let_def split: option.split)

section \<open>What fetch_channel_updates delivers\<close>

definition rows_of :: "database \<Rightarrow> u64 \<Rightarrow> bool \<Rightarrow> channel_update_row set" where
  "rows_of db scid b = {r \<in> set (db_channel_updates db). update_row_key r = (scid, b)}"

definition after_sync :: "u32 \<Rightarrow> channel_update_row \<Rightarrow> bool" where
  "after_sync last_sync r \<longleftrightarrow> cur_seen r \<ge> to_timestamp last_sync"

definition updated_since :: "database \<Rightarrow> u32 \<Rightarrow> u64 \<Rightarrow> bool" where
  "updated_since db last_sync scid \<longleftrightarrow> (\<exists>b. \<exists>r \<in> rows_of db scid b. after_sync last_sync r)"

text \<open>The last update the client may have seen: of the rows before the sync the one seen last.\<close>

definition is_reference :: "lookup_env \<Rightarrow> database \<Rightarrow> u32 \<Rightarrow> u64 \<Rightarrow> bool \<Rightarrow> update_delta option \<Rightarrow> bool" where
  "is_reference E db last_sync scid b x = (case x of
     None \<Rightarrow> \<forall>r \<in> rows_of db scid b. after_sync last_sync r
   | Some y \<Rightarrow> \<exists>r \<in> rows_of db scid b. \<not> after_sync last_sync r \<and> y = delta_of_row E r \<and>
       (\<forall>r' \<in> rows_of db scid b. \<not> after_sync last_sync r' \<longrightarrow> cur_seen r' \<le> cur_seen r))"

text \<open>The update to send: of the rows since the sync the one with the highest timestamp.\<close>

definition is_latest :: "lookup_env \<Rightarrow> database \<Rightarrow> u32 \<Rightarrow> u64 \<Rightarrow> bool \<Rightarrow> update_delta option \<Rightarrow> bool" where
  "is_latest E db last_sync scid b x = (case x of
     None \<Rightarrow> \<forall>r \<in> rows_of db scid b. \<not> after_sync last_sync r
   | Some y \<Rightarrow> \<exists>r \<in> rows_of db scid b. after_sync last_sync r \<and> y = delta_of_row E r \<and>
       (\<forall>r' \<in> rows_of db scid b. after_sync last_sync r' \<longrightarrow> cur_timestamp r' \<le> cur_timestamp r))"

definition is_mutated :: "lookup_env \<Rightarrow> database \<Rightarrow> u32 \<Rightarrow> u64 \<Rightarrow> bool \<Rightarrow> update_delta option \<Rightarrow> mutated_properties \<Rightarrow> bool" where
  "is_mutated E db last_sync scid b x m = (case x of
     None \<Rightarrow> m = mutated_properties_default
   | Some y \<Rightarrow> \<exists>us. set us = update_of E ` {r \<in> rows_of db scid b. after_sync last_sync r} \<and> m = mutations_against (ud_update y) us)"

definition direction_spec :: "lookup_env \<Rightarrow> database \<Rightarrow> u32 \<Rightarrow> u64 \<Rightarrow> bool \<Rightarrow> directed_update_delta \<Rightarrow> bool" where
  "direction_spec E db last_sync scid b u \<longleftrightarrow>
     is_reference E db last_sync scid b (dud_last_update_before_seen u) \<and>
     is_latest E db last_sync scid b (dud_latest_update_after_seen u) \<and>
     is_mutated E db last_sync scid b (dud_last_update_before_seen u) (dud_mutated_properties u)"

definition updates_table_ok :: "lookup_env \<Rightarrow> database \<Rightarrow> bool" where
  "updates_table_ok E db \<longleftrightarrow> distinct (map cur_id (db_channel_updates db)) \<and>
     (\<forall>r \<in> set (db_channel_updates db). update_row_ok E r) \<and>
     reorders (le_scan_reference_ids E) \<and> reorders (le_scan_reference E) \<and> reorders (le_scan_intermediate E)"

lemma reference_rows_set:
  assumes "updates_table_ok E db" and "r \<in> set (reference_rows E db last_sync)"
  shows "r \<in> set (db_channel_updates db)" and "\<not> after_sync last_sync r" and "updated_since db last_sync (cur_short_channel_id r)"
    and "r' \<in> set (db_channel_updates db) \<Longrightarrow> \<not> after_sync last_sync r' \<Longrightarrow> update_row_key r' = update_row_key r \<Longrightarrow> cur_seen r' \<le> cur_seen r"
proof -
  let ?t = "to_timestamp last_sync"
  let ?touched = "cur_short_channel_id ` {r \<in> set (db_channel_updates db). cur_seen r \<ge> ?t}"
  let ?rank = "\<lambda>r. (sint (cur_short_channel_id r), cur_direction r, - cur_seen r)"
  let ?rows = "filter (\<lambda>r. cur_seen r < ?t \<and> cur_short_channel_id r \<in> ?touched) (le_scan_reference_ids E (db_channel_updates db))"
  have sc: "reorders (le_scan_reference_ids E)" "reorders (le_scan_reference E)"
    using assms(1) by (simp_all add: updates_table_ok_def)
  note [simp] = reorders_set [OF sc(1)] reorders_set [OF sc(2)]
  from assms(2) obtain q where r: "r \<in> set (db_channel_updates db)"
    and q: "q \<in> set (distinct_on update_row_key (sort_key ?rank ?rows))" and "cur_id q = cur_id r"
    by (auto simp: reference_rows_def Let_def)
  have "q \<in> set ?rows" using distinct_on_first(1) [OF q] .
  then have "q \<in> set (db_channel_updates db)" by simp
  then have "q = r"
    using r \<open>cur_id q = cur_id r\<close> assms(1) by (auto simp: updates_table_ok_def distinct_map dest: inj_onD)
  with \<open>q \<in> set ?rows\<close> have before: "cur_seen r < ?t" and touched: "cur_short_channel_id r \<in> ?touched" by auto
  show "r \<in> set (db_channel_updates db)" by (rule r)
  show "\<not> after_sync last_sync r" using before by (simp add: after_sync_def)
  show "updated_since db last_sync (cur_short_channel_id r)"
    using touched by (fastforce simp: updated_since_def rows_of_def after_sync_def)
  assume "r' \<in> set (db_channel_updates db)" "\<not> after_sync last_sync r'" "update_row_key r' = update_row_key r"
  with touched have "r' \<in> set ?rows" by (auto simp: after_sync_def)
  from distinct_on_first(2) [OF q this] \<open>update_row_key r' = update_row_key r\<close> \<open>q = r\<close>
  show "cur_seen r' \<le> cur_seen r" by (auto simp: less_eq_prod_def)
qed

lemma reference_rows_exist:
  assumes ok: "updates_table_ok E db" and r': "r' \<in> set (db_channel_updates db)" "\<not> after_sync last_sync r'"
    and touched: "updated_since db last_sync (cur_short_channel_id r')"
  shows "\<exists>r \<in> set (reference_rows E db last_sync). update_row_key r = update_row_key r'"
proof -
  have sc: "reorders (le_scan_reference_ids E)" "reorders (le_scan_reference E)"
    using ok by (simp_all add: updates_table_ok_def)
  note [simp] = reorders_set [OF sc(1)] reorders_set [OF sc(2)]
  let ?t = "to_timestamp last_sync"
  let ?touched = "cur_short_channel_id ` {r \<in> set (db_channel_updates db). cur_seen r \<ge> ?t}"
  let ?rank = "\<lambda>r. (sint (cur_short_channel_id r), cur_direction r, - cur_seen r)"
  let ?rows = "sort_key ?rank (filter (\<lambda>r. cur_seen r < ?t \<and> cur_short_channel_id r \<in> ?touched)
    (le_scan_reference_ids E (db_channel_updates db)))"
  have "cur_short_channel_id r' \<in> ?touched"
    using touched by (auto simp: updated_since_def rows_of_def after_sync_def) (metis (no_types, lifting) image_eqI mem_Collect_eq)
  with r' have "r' \<in> set ?rows" by (simp add: after_sync_def)
  from distinct_on_exists [OF this, of update_row_key] obtain r where
    r: "r \<in> set (distinct_on update_row_key ?rows)" "update_row_key r = update_row_key r'" by blast
  have "r \<in> set (db_channel_updates db)"
    using set_distinct_on_subset [of update_row_key ?rows] r(1) by auto
  with r show ?thesis by (intro bexI [of _ r]) (auto simp: reference_rows_def Let_def)
qed

lemma intermediate_rows_set:
  assumes "updates_table_ok E db"
  shows "set (intermediate_rows E db last_sync) = {r \<in> set (db_channel_updates db). after_sync last_sync r}"
  using assms by (auto simp: intermediate_rows_def updates_table_ok_def reorders_set after_sync_def)

definition fresh_direction :: "directed_update_delta \<Rightarrow> bool" where
  "fresh_direction u \<longleftrightarrow> dud_last_update_before_seen u = None \<and> dud_latest_update_after_seen u = None \<and>
     dud_mutated_properties u = mutated_properties_default"

lemma fresh_default: "fresh_direction directed_update_delta_default"
  by (simp add: fresh_direction_def directed_update_delta_default_def)

lemma direction_after_reference:
  fixes b :: bool
  assumes ok: "updates_table_ok E db" and touched: "updated_since db last_sync scid" and fresh: "fresh_direction u0"
  defines "u1 \<equiv> fold (set_reference E) (filter (\<lambda>r. update_row_key r = (scid, b)) (reference_rows E db last_sync)) u0"
  shows "is_reference E db last_sync scid b (dud_last_update_before_seen u1)"
    and "dud_latest_update_after_seen u1 = None" and "dud_mutated_properties u1 = mutated_properties_default"
    and "dud_serialization_update_flags u1 = dud_serialization_update_flags u0"
proof -
  let ?rows = "filter (\<lambda>r. update_row_key r = (scid, b)) (reference_rows E db last_sync)"
  show "dud_latest_update_after_seen u1 = None" "dud_mutated_properties u1 = mutated_properties_default"
    "dud_serialization_update_flags u1 = dud_serialization_update_flags u0"
    using fresh by (simp_all add: u1_def fold_set_reference fresh_direction_def)
  show "is_reference E db last_sync scid b (dud_last_update_before_seen u1)"
  proof (cases "?rows = []")
    case True
    then have none: "dud_last_update_before_seen u1 = None" using fresh by (simp add: u1_def fold_set_reference fresh_direction_def)
    have "after_sync last_sync r" if "r \<in> rows_of db scid b" for r
    proof (rule ccontr)
      assume "\<not> after_sync last_sync r"
      with reference_rows_exist [OF ok, of r last_sync] that touched True show False
        by (auto simp: rows_of_def filter_empty_conv)
    qed
    then show ?thesis by (simp add: is_reference_def none)
  next
    case False
    then have l: "last ?rows \<in> set (reference_rows E db last_sync)" "update_row_key (last ?rows) = (scid, b)"
      using last_in_set [OF False] by auto
    moreover have "dud_last_update_before_seen u1 = Some (delta_of_row E (last ?rows))"
      using False by (simp add: u1_def fold_set_reference)
    ultimately show ?thesis
      using reference_rows_set [OF ok l(1)] by (auto simp: is_reference_def rows_of_def intro!: bexI [of _ "last ?rows"])
  qed
qed

lemma direction_result:
  fixes b :: bool
  assumes ok: "updates_table_ok E db" and touched: "updated_since db last_sync scid" and fresh: "fresh_direction u0"
  defines "u1 \<equiv> fold (set_reference E) (filter (\<lambda>r. update_row_key r = (scid, b)) (reference_rows E db last_sync)) u0"
  defines "u2 \<equiv> fold (intermediate_of E) (filter (\<lambda>x. update_row_key (fst x) = (scid, b))
      (mark_first update_row_key {} (intermediate_rows E db last_sync))) u1"
  shows "direction_spec E db last_sync scid b u2"
    and "dud_serialization_update_flags u2 = dud_serialization_update_flags u0"
proof -
  note u1 = direction_after_reference [OF ok touched fresh, of b, folded u1_def]
  note marked = filter_mark_first [of update_row_key "(scid, b)" "{}" "intermediate_rows E db last_sync"]
  let ?rows = "filter (\<lambda>r. update_row_key r = (scid, b)) (intermediate_rows E db last_sync)"
  have set: "set ?rows = {r \<in> rows_of db scid b. after_sync last_sync r}"
    by (auto simp: intermediate_rows_set [OF ok] rows_of_def)
  have "direction_spec E db last_sync scid b u2 \<and> dud_serialization_update_flags u2 = dud_serialization_update_flags u0"
  proof (cases ?rows)
    case Nil
    then have "u2 = u1" by (simp only: u2_def marked list.case fold.simps id_apply)
    moreover have "\<forall>r \<in> rows_of db scid b. \<not> after_sync last_sync r"
      using set unfolding Nil by auto
    ultimately show ?thesis
      using u1 by (auto simp: direction_spec_def is_latest_def is_mutated_def mutations_against_def split: option.split
          intro!: exI [of _ "[]"])
  next
    case (Cons r rs)
    then have u2: "u2 = u1\<lparr>dud_latest_update_after_seen := Some (delta_of_row E r),
       dud_mutated_properties := (case dud_last_update_before_seen u1 of None \<Rightarrow> dud_mutated_properties u1
         | Some b \<Rightarrow> fold (\<lambda>r. record_mutations (update_of E r) (ud_update b)) (r # rs) (dud_mutated_properties u1))\<rparr>"
      by (simp only: u2_def marked list.case empty_iff not_False_eq_True fold_intermediate [of E r rs u1])
    have "sorted (map (\<lambda>r. (sint (cur_short_channel_id r), - cur_timestamp r)) ?rows)"
      by (simp add: intermediate_rows_def sorted_filter)
    moreover have "\<forall>x \<in> set ?rows. cur_short_channel_id x = scid" by auto
    ultimately have max: "cur_timestamp r' \<le> cur_timestamp r" if "r' \<in> set ?rows" for r'
      using that unfolding Cons by (auto simp: less_eq_prod_def)
    have "r \<in> rows_of db scid b" "after_sync last_sync r" using set unfolding Cons by auto
    with max set have "is_latest E db last_sync scid b (Some (delta_of_row E r))"
      by (auto simp: is_latest_def)
    moreover have "fold (\<lambda>r. record_mutations (update_of E r) w) (r # rs) mutated_properties_default =
        mutations_against w (map (update_of E) ?rows)" for w
      by (simp only: mutations_against_def fold_map o_def Cons)
    moreover have "set (map (update_of E) ?rows) = update_of E ` {r \<in> rows_of db scid b. after_sync last_sync r}"
      using set by simp
    ultimately show ?thesis
      using u1 by (auto simp: u2 direction_spec_def is_mutated_def split: option.split
          intro!: exI [of _ "map (update_of E) ?rows"])
  qed
  then show "direction_spec E db last_sync scid b u2"
    and "dud_serialization_update_flags u2 = dud_serialization_update_flags u0" by simp_all
qed

definition fresh_set :: "delta_set \<Rightarrow> bool" where
  "fresh_set ds \<longleftrightarrow> (\<forall>scid d b u. bt_get ds scid = Some d \<longrightarrow> dir_of b d = Some u \<longrightarrow> fresh_direction u)"

definition delta_or_default :: "delta_set \<Rightarrow> u64 \<Rightarrow> channel_delta" where
  "delta_or_default ds scid = (case bt_get ds scid of None \<Rightarrow> channel_delta_default | Some d \<Rightarrow> d)"

definition channel_spec :: "lookup_env \<Rightarrow> database \<Rightarrow> u32 \<Rightarrow> u64 \<Rightarrow> channel_delta \<Rightarrow> channel_delta \<Rightarrow> bool" where
  "channel_spec E db last_sync scid d d' \<longleftrightarrow>
     cd_announcement d' = cd_announcement d \<and> cd_requires_reminder d' = cd_requires_reminder d \<and>
     cd_first_bidirectional_updates_seen d' = cd_first_bidirectional_updates_seen d \<and>
     (\<forall>b. if rows_of db scid b = {} then dir_of b d' = dir_of b d
          else \<exists>u. dir_of b d' = Some u \<and> direction_spec E db last_sync scid b u \<and>
            dud_serialization_update_flags u = dud_serialization_update_flags (dir_or_default (dir_of b d)))"

abbreviation enter_reference :: "lookup_env \<Rightarrow> channel_update_row \<Rightarrow> delta_set \<Rightarrow> delta_set" where
  "enter_reference E r \<equiv> bt_upd (cur_short_channel_id r) channel_delta_default
     (upd_direction (cur_direction r) (set_reference E r))"

lemma fetch_channel_updates_eq:
  assumes ok: "updates_table_ok E db"
  shows "fetch_channel_updates E db last_sync ds = Inr
    (fold (enter_intermediate E) (mark_first update_row_key {} (intermediate_rows E db last_sync))
      (fold (enter_reference E) (reference_rows E db last_sync) ds))"
proof -
  let ?ref = "reference_rows E db last_sync" and ?int = "intermediate_rows E db last_sync"
  have rows: "update_row_ok E r" if "r \<in> set (db_channel_updates db)" for r
    using ok that by (simp add: updates_table_ok_def)
  have l1: "fold_res (reference_row_step E) ?ref (ds, []) =
      Inr (fold (enter_reference E) ?ref ds, rev (map cur_id ?ref))"
    using reference_loop [of ?ref E ds "[]"] reference_rows_set(1) [OF ok] rows by simp
  have "cur_id r \<notin> set (rev (map cur_id ?ref))" if "r \<in> set ?int" for r
  proof
    assume "cur_id r \<in> set (rev (map cur_id ?ref))"
    then obtain q where q: "q \<in> set ?ref" "cur_id q = cur_id r" by auto
    then have "q = r"
      using that reference_rows_set(1) [OF ok q(1)] ok intermediate_rows_set [OF ok, of last_sync]
      by (auto simp: updates_table_ok_def distinct_map dest: inj_onD)
    with that reference_rows_set(2) [OF ok q(1)] intermediate_rows_set [OF ok, of last_sync] show False by auto
  qed
  moreover have "sorted (map (\<lambda>r. sint (cur_short_channel_id r)) ?int)"
  proof -
    have "sorted (map (\<lambda>r. (sint (cur_short_channel_id r), - cur_timestamp r)) ?int)"
      by (simp add: intermediate_rows_def)
    then show ?thesis unfolding sorted_map by (rule sorted_wrt_mono_rel [rotated]) (auto simp: less_eq_prod_def)
  qed
  ultimately obtain st where "fold_res (intermediate_row_step E (rev (map cur_id ?ref))) ?int
      (fold (enter_reference E) ?ref ds, - 1, False, False) =
    Inr (fold (enter_intermediate E) (mark_first update_row_key {} ?int) (fold (enter_reference E) ?ref ds), st)"
    using intermediate_loop [of ?int E "rev (map cur_id ?ref)" "[]" "(False, False)" "- 1" "fold (enter_reference E) ?ref ds"]
      rows intermediate_rows_set [OF ok, of last_sync] by auto
  with l1 show ?thesis by (simp add: fetch_channel_updates_def)
qed

lemma channel_result:
  assumes ok: "updates_table_ok E db" and touched: "updated_since db last_sync scid"
    and fresh: "\<And>b u. dir_of b d = Some u \<Longrightarrow> fresh_direction u"
  defines "d1 \<equiv> fold (\<lambda>r. upd_direction (cur_direction r) (set_reference E r))
      (filter (\<lambda>r. cur_short_channel_id r = scid) (reference_rows E db last_sync)) d"
  defines "d2 \<equiv> fold (\<lambda>x. upd_direction (cur_direction (fst x)) (intermediate_of E x))
      (filter (\<lambda>x. cur_short_channel_id (fst x) = scid) (mark_first update_row_key {} (intermediate_rows E db last_sync))) d1"
  shows "channel_spec E db last_sync scid d d2"
proof -
  let ?ref = "reference_rows E db last_sync" and ?int = "intermediate_rows E db last_sync"
  let ?marked = "mark_first update_row_key {} ?int"
  have "if rows_of db scid b = {} then dir_of b d2 = dir_of b d
      else \<exists>u. dir_of b d2 = Some u \<and> direction_spec E db last_sync scid b u \<and>
        dud_serialization_update_flags u = dud_serialization_update_flags (dir_or_default (dir_of b d))" for b
  proof -
    define R where "R = filter (\<lambda>r. update_row_key r = (scid, b)) ?ref"
    define M where "M = filter (\<lambda>x. update_row_key (fst x) = (scid, b)) ?marked"
    let ?u0 = "dir_or_default (dir_of b d)"
    let ?u2 = "fold (intermediate_of E) M (fold (set_reference E) R ?u0)"
    have fr: "fresh_direction ?u0" using fresh by (auto simp: dir_or_default_def fresh_default split: option.split)
    have d1: "dir_of b d1 = (if R = [] then dir_of b d else Some (fold (set_reference E) R ?u0))"
      unfolding d1_def dir_of_fold R_def by (auto simp: filter_empty_conv conj_commute intro!: arg_cong [of _ _ Some] fold_cong)
    have d2: "dir_of b d2 = (if M = [] then dir_of b d1 else Some (fold (intermediate_of E) M (dir_or_default (dir_of b d1))))"
      unfolding d2_def dir_of_fold M_def by (auto simp: filter_empty_conv conj_commute)
    have M: "set (map fst M) = {r \<in> rows_of db scid b. after_sync last_sync r}"
    proof -
      have "set (map fst M) = {r \<in> fst ` set ?marked. update_row_key r = (scid, b)}" by (auto simp: M_def)
      also have "fst ` set ?marked = set ?int" by (metis list.set_map map_fst_mark_first)
      finally show ?thesis by (auto simp: intermediate_rows_set [OF ok] rows_of_def)
    qed
    show ?thesis
    proof (cases "rows_of db scid b = {}")
      case True
      then have "set (map fst M) = {}" using M by simp
      then have "M = []" by simp
      moreover have "R = []"
        using True reference_rows_set(1) [OF ok] by (auto simp: R_def rows_of_def filter_empty_conv)
      ultimately show ?thesis using True by (simp add: d1 d2)
    next
      case False
      have "M \<noteq> [] \<or> R \<noteq> []"
      proof (rule ccontr)
        assume none: "\<not> (M \<noteq> [] \<or> R \<noteq> [])"
        from False obtain r where r: "r \<in> rows_of db scid b" by blast
        with none M have "\<not> after_sync last_sync r" by auto
        with reference_rows_exist [OF ok, of r last_sync] r touched none show False
          by (auto simp: rows_of_def R_def filter_empty_conv)
      qed
      then have "dir_of b d2 = Some ?u2" by (auto simp: d1 d2 dir_or_default_def)
      with direction_result [OF ok touched fr, of b, folded R_def, folded M_def] False show ?thesis by simp
    qed
  qed
  moreover have "cd_announcement d2 = cd_announcement d" "cd_requires_reminder d2 = cd_requires_reminder d"
    "cd_first_bidirectional_updates_seen d2 = cd_first_bidirectional_updates_seen d"
    by (simp_all add: d1_def d2_def)
  ultimately show ?thesis by (simp add: channel_spec_def)
qed

lemma fetch_channel_updates_spec:
  assumes ok: "updates_table_ok E db" and inv: "bt_inv ds" and fresh: "fresh_set ds"
  shows "\<exists>ds'. fetch_channel_updates E db last_sync ds = Inr ds' \<and> bt_inv ds' \<and>
    (\<forall>scid. if updated_since db last_sync scid
       then \<exists>d'. bt_get ds' scid = Some d' \<and> channel_spec E db last_sync scid (delta_or_default ds scid) d'
       else bt_get ds' scid = bt_get ds scid)"
proof -
  let ?ref = "reference_rows E db last_sync" and ?int = "intermediate_rows E db last_sync"
  let ?marked = "mark_first update_row_key {} ?int"
  define ds1 where "ds1 = fold (enter_reference E) ?ref ds"
  define ds2 where "ds2 = fold (enter_intermediate E) ?marked ds1"
  have inv1: "bt_inv ds1" unfolding ds1_def by (rule btree.inv_fold_upd [OF inv])
  have inv2: "bt_inv ds2" unfolding ds2_def by (rule btree.inv_fold_upd [OF inv1])
  have ex: "(\<exists>x \<in> set ?marked. cur_short_channel_id (fst x) = scid) \<longleftrightarrow> updated_since db last_sync scid" for scid
  proof -
    have "(\<exists>x \<in> set ?marked. cur_short_channel_id (fst x) = scid) \<longleftrightarrow> (\<exists>r \<in> fst ` set ?marked. cur_short_channel_id r = scid)" by auto
    also have "fst ` set ?marked = set ?int" by (metis list.set_map map_fst_mark_first)
    finally show ?thesis
      by (auto simp: intermediate_rows_set [OF ok] updated_since_def rows_of_def)
  qed
  have get1: "delta_or_default ds1 scid = fold (\<lambda>r. upd_direction (cur_direction r) (set_reference E r))
      (filter (\<lambda>r. cur_short_channel_id r = scid) ?ref) (delta_or_default ds scid)" for scid
    using btree.get_fold_upd [OF inv, of cur_short_channel_id channel_delta_default
        "\<lambda>r. upd_direction (cur_direction r) (set_reference E r)" ?ref scid]
    by (auto simp: delta_or_default_def ds1_def filter_empty_conv)
  have get2: "bt_get ds2 scid = (if updated_since db last_sync scid
      then Some (fold (\<lambda>x. upd_direction (cur_direction (fst x)) (intermediate_of E x))
        (filter (\<lambda>x. cur_short_channel_id (fst x) = scid) ?marked) (delta_or_default ds1 scid))
      else bt_get ds1 scid)" for scid
    using btree.get_fold_upd [OF inv1, of "\<lambda>x. cur_short_channel_id (fst x)" channel_delta_default
        "\<lambda>x. upd_direction (cur_direction (fst x)) (intermediate_of E x)" ?marked scid]
    by (simp add: ds2_def ex delta_or_default_def)
  have "\<exists>d'. bt_get ds2 scid = Some d' \<and> channel_spec E db last_sync scid (delta_or_default ds scid) d'"
    if "updated_since db last_sync scid" for scid
  proof -
    have "fresh_direction u" if "dir_of b (delta_or_default ds scid) = Some u" for b u
      using that fresh by (auto simp: delta_or_default_def fresh_set_def dir_of_def channel_delta_default_def split: option.splits if_splits)
    from channel_result [OF ok that this] that show ?thesis by (simp add: get2 get1)
  qed
  moreover have "bt_get ds2 scid = bt_get ds scid" if "\<not> updated_since db last_sync scid" for scid
    using that get2 [of scid] reference_rows_set(3) [OF ok]
      btree.get_fold_upd [OF inv, of cur_short_channel_id channel_delta_default
        "\<lambda>r. upd_direction (cur_direction r) (set_reference E r)" ?ref scid]
    by (auto simp: ds1_def)
  ultimately show ?thesis
    using fetch_channel_updates_eq [OF ok, of last_sync ds] inv2 by (auto simp: ds1_def ds2_def)
qed

end
