(* ===== verification/Lookup_Nodes.thy ===== *)
theory Lookup_Nodes
  imports Lookup_Channels
begin

text \<open>
  What \<open>fetch_node_updates\<close> of src/lookup.rs delivers. The loop carries its variables from row to
  row; because the rows come grouped by public key, the outcome of each node depends on its own rows
  only. Without reminders the strategy is described in full: a node with details from before the
  sync is mutated exactly in what changed since.
\<close>

section \<open>Rows and keys\<close>

lemma lower_hex_inj: "lower_hex xs = lower_hex ys \<Longrightarrow> xs = ys"
  using to_vec_loop_lower_hex [of 0 "[]" xs "[]"] to_vec_loop_lower_hex [of 0 "[]" ys "[]"] by simp

lemma node_id_hex_inj: "node_id_hex m = node_id_hex n \<longleftrightarrow> m = n"
proof
  assume "node_id_hex m = node_id_hex n"
  then have "be_write 33 (word_of_node_id m) = be_write 33 (word_of_node_id n)"
    by (auto simp: node_id_hex_def dest: lower_hex_inj)
  then have "word_of_node_id m = word_of_node_id n"
    using be_node_id.dec_enc_Nil [of "word_of_node_id m"] be_node_id.dec_enc_Nil [of "word_of_node_id n"]
    by (metis option.inject prod.inject)
  then show "m = n" by (rule node_id.expand)
qed simp

definition node_of :: "lookup_env \<Rightarrow> node_announcement_row \<Rightarrow> unsigned_node_announcement" where
  "node_of E r = contents (the (le_read_node_announcement E (nar_announcement_signed r)))"

abbreviation row_node :: "lookup_env \<Rightarrow> node_announcement_row \<Rightarrow> node_id" where
  "row_node E r \<equiv> na_node_id (node_of E r)"

definition node_row_ok :: "lookup_env \<Rightarrow> node_announcement_row \<Rightarrow> bool" where
  "node_row_ok E r \<longleftrightarrow> le_read_node_announcement E (nar_announcement_signed r) \<noteq> None \<and>
     node_id_hex (row_node E r) = nar_public_key r"

definition nodes_table_ok :: "lookup_env \<Rightarrow> database \<Rightarrow> bool" where
  "nodes_table_ok E db \<longleftrightarrow> (\<forall>r \<in> set (db_node_announcements db). node_row_ok E r) \<and>
     reorders (le_scan_node_reference E) \<and> reorders (le_scan_node_intermediate E)"

lemma unwrap_node:
  "node_row_ok E r \<Longrightarrow> \<exists>m. unwrap (le_read_node_announcement E (nar_announcement_signed r)) = Inr m \<and> contents m = node_of E r"
  by (auto simp: node_row_ok_def node_of_def unwrap_def)

lemma hm_keys_upd: "k \<in> fst ` set m \<Longrightarrow> map fst (hm_upd k d f m) = map fst m"
  by (induction k d f m rule: hm_upd.induct) force+

section \<open>The reference rows\<close>

definition details_of_row :: "lookup_env \<Rightarrow> node_announcement_row \<Rightarrow> node_details" where
  "details_of_row E r = \<lparr>nd_seen = Some (seen_u32 E (nar_seen r)), nd_features = na_features (node_of E r),
     nd_addresses = remdups (na_addresses (node_of E r))\<rparr>"

definition set_node_reference :: "lookup_env \<Rightarrow> node_announcement_row \<Rightarrow> node_delta \<Rightarrow> node_delta" where
  "set_node_reference E r d = (case nde_last_details_before_seen d of Some _ \<Rightarrow> d
     | None \<Rightarrow> d\<lparr>nde_last_details_before_seen := Some (details_of_row E r)\<rparr>)"

lemma node_reference_loop:
  assumes "\<And>r. r \<in> set rows \<Longrightarrow> node_row_ok E r"
  shows "fold_res (node_reference_step E) rows ds =
    Inr (fold (\<lambda>r. hm_upd (row_node E r) node_delta_default (set_node_reference E r)) rows ds)"
  using assms
proof (induction rows arbitrary: ds)
  case (Cons r rows)
  then have "node_row_ok E r" by simp
  from unwrap_node [OF this] obtain m where
    m: "unwrap (le_read_node_announcement E (nar_announcement_signed r)) = Inr m" "contents m = node_of E r" by blast
  have "node_reference_step E r ds = Inr (hm_upd (row_node E r) node_delta_default (set_node_reference E r) ds)"
    unfolding node_reference_step_def set_node_reference_def [abs_def] details_of_row_def m(1) m(2) [symmetric] Let_def
    by simp
  with Cons show ?case by simp
qed simp

section \<open>The intermediate rows\<close>

definition scan_node ::
  "lookup_env \<Rightarrow> bool \<Rightarrow> u32 \<Rightarrow> u32 \<Rightarrow> node_announcement_row \<Rightarrow> node_scan \<times> node_delta \<Rightarrow> node_scan \<times> node_delta" where
  "scan_node E ir last_sync inclusion r x =
     node_intermediate_delta ir last_sync inclusion (seen_u32 E (nar_seen r)) (node_of E r) (fst x) (snd x)"

lemma scan_node_restart:
  "ns_previous_node_id ns \<noteq> Some (row_node E r) \<Longrightarrow>
   scan_node E ir last_sync inclusion r (ns, d) = scan_node E ir last_sync inclusion r (node_scan_start, d)"
  by (simp add: scan_node_def node_intermediate_delta_def node_scan_start_def Let_def)

lemma scan_node_previous [simp]:
  "ns_previous_node_id (fst (scan_node E ir last_sync inclusion r x)) = Some (row_node E r)"
  by (simp add: scan_node_def node_intermediate_delta_def Let_def split_beta)

lemma scan_nodes_previous:
  "rs \<noteq> [] \<Longrightarrow> ns_previous_node_id (fst (fold (scan_node E ir last_sync inclusion) rs x)) = Some (row_node E (last rs))"
  by (induction rs arbitrary: x rule: rev_induct) simp_all

definition node_or_default :: "node_delta_set \<Rightarrow> node_id \<Rightarrow> node_delta" where
  "node_or_default ds n = (case hm_get ds n of None \<Rightarrow> node_delta_default | Some d \<Rightarrow> d)"

text \<open>The scan of one node: its rows alone, from the start.\<close>

definition node_result ::
  "lookup_env \<Rightarrow> bool \<Rightarrow> u32 \<Rightarrow> u32 \<Rightarrow> node_delta_set \<Rightarrow> node_announcement_row list \<Rightarrow> node_id \<Rightarrow> node_scan \<times> node_delta" where
  "node_result E ir last_sync inclusion ds rows n =
     fold (scan_node E ir last_sync inclusion) (filter (\<lambda>r. row_node E r = n) rows) (node_scan_start, node_or_default ds n)"

definition scanned_to ::
  "lookup_env \<Rightarrow> bool \<Rightarrow> u32 \<Rightarrow> u32 \<Rightarrow> node_delta_set \<Rightarrow> node_announcement_row list \<Rightarrow> node_delta_set \<Rightarrow> node_scan \<Rightarrow> bool" where
  "scanned_to E ir last_sync inclusion ds0 rows ds ns \<longleftrightarrow>
     (\<forall>n. hm_get ds n = (if \<exists>r \<in> set rows. row_node E r = n
        then Some (snd (node_result E ir last_sync inclusion ds0 rows n)) else hm_get ds0 n)) \<and>
     (if rows = [] then ns = node_scan_start
      else ns = fst (node_result E ir last_sync inclusion ds0 rows (row_node E (last rows))))"

lemma node_intermediate_step_eq:
  assumes "node_row_ok E r"
  shows "node_intermediate_step E ir last_sync inclusion r (ds, ns) =
    Inr (hm_insert (row_node E r) (snd (scan_node E ir last_sync inclusion r (ns, node_or_default ds (row_node E r)))) ds,
      fst (scan_node E ir last_sync inclusion r (ns, node_or_default ds (row_node E r))))"
  using unwrap_node [OF assms]
  by (auto simp: node_intermediate_step_def scan_node_def node_or_default_def Let_def split_beta split: option.split)

lemma node_loop_step:
  assumes ok: "node_row_ok E r" and grouped: "\<And>x. x \<in> set rows \<Longrightarrow> row_node E x = row_node E r \<Longrightarrow> row_node E (last rows) = row_node E r"
    and st: "scanned_to E ir last_sync inclusion ds0 rows ds ns"
  shows "\<exists>ds' ns'. node_intermediate_step E ir last_sync inclusion r (ds, ns) = Inr (ds', ns') \<and>
    scanned_to E ir last_sync inclusion ds0 (rows @ [r]) ds' ns'"
proof -
  let ?n = "row_node E r"
  let ?x = "scan_node E ir last_sync inclusion r (ns, node_or_default ds ?n)"
  have res: "?x = node_result E ir last_sync inclusion ds0 (rows @ [r]) ?n"
  proof (cases "\<exists>x \<in> set rows. row_node E x = ?n")
    case True
    then have l: "row_node E (last rows) = ?n" "rows \<noteq> []" using grouped by auto
    with True st have "(ns, node_or_default ds ?n) = node_result E ir last_sync inclusion ds0 rows ?n"
      by (auto simp: scanned_to_def node_or_default_def prod_eq_iff)
    then show ?thesis by (simp add: node_result_def)
  next
    case False
    then have none: "filter (\<lambda>r. row_node E r = ?n) rows = []" by (auto simp: filter_empty_conv)
    have "node_or_default ds ?n = node_or_default ds0 ?n" using False st by (simp add: scanned_to_def node_or_default_def)
    moreover have "ns_previous_node_id ns \<noteq> Some ?n"
    proof (cases "rows = []")
      case True
      then show ?thesis using st by (simp add: scanned_to_def node_scan_start_def)
    next
      case ne: False
      let ?l = "row_node E (last rows)"
      have "filter (\<lambda>r. row_node E r = ?l) rows \<noteq> []" using last_in_set [OF ne] by (auto simp: filter_empty_conv)
      from scan_nodes_previous [OF this] last_in_set [OF this] ne st have "ns_previous_node_id ns = Some ?l"
        by (simp add: scanned_to_def node_result_def)
      then show ?thesis using False last_in_set [OF ne] by auto
    qed
    ultimately show ?thesis by (simp add: scan_node_restart node_result_def none)
  qed
  have "node_result E ir last_sync inclusion ds0 (rows @ [r]) m = node_result E ir last_sync inclusion ds0 rows m" if "m \<noteq> ?n" for m
    using that by (simp add: node_result_def)
  then have "scanned_to E ir last_sync inclusion ds0 (rows @ [r]) (hm_insert ?n (snd ?x) ds) (fst ?x)"
    using st by (auto simp: scanned_to_def res hm_get_insert)
  then show ?thesis using node_intermediate_step_eq [OF ok, of ir last_sync inclusion ds ns] by blast
qed

lemma node_rows_loop:
  assumes "\<And>r. r \<in> set rows \<Longrightarrow> node_row_ok E r" and "sorted (map nar_public_key rows)"
  shows "\<exists>ds' ns'. fold_res (node_intermediate_step E ir last_sync inclusion) rows (ds0, node_scan_start) = Inr (ds', ns') \<and>
    scanned_to E ir last_sync inclusion ds0 rows ds' ns'"
  using assms
proof (induction rows rule: rev_induct)
  case Nil
  then show ?case by (simp add: scanned_to_def)
next
  case (snoc r rows)
  then obtain ds ns where ih: "fold_res (node_intermediate_step E ir last_sync inclusion) rows (ds0, node_scan_start) = Inr (ds, ns)"
    "scanned_to E ir last_sync inclusion ds0 rows ds ns"
    by (auto simp: sorted_append)
  have pk: "nar_public_key x = node_id_hex (row_node E x)" if "x \<in> set rows \<union> {r}" for x
    using snoc.prems(1) that by (auto simp: node_row_ok_def)
  have "\<exists>ds' ns'. node_intermediate_step E ir last_sync inclusion r (ds, ns) = Inr (ds', ns') \<and>
    scanned_to E ir last_sync inclusion ds0 (rows @ [r]) ds' ns'"
  proof (rule node_loop_step)
    fix x assume x: "x \<in> set rows" "row_node E x = row_node E r"
    then obtain front l where rows: "rows = front @ [l]" by (cases rows rule: rev_cases) auto
    then have "nar_public_key x \<le> nar_public_key l" "nar_public_key l \<le> nar_public_key r"
      using snoc.prems(2) x(1) by (auto simp: sorted_append)
    moreover have mem: "x \<in> set rows \<union> {r}" "l \<in> set rows \<union> {r}" "r \<in> set rows \<union> {r}"
      using x(1) by (simp_all add: rows)
    ultimately have "nar_public_key l = nar_public_key r"
      using x(2) unfolding pk [OF mem(1)] pk [OF mem(3)] by simp
    then have "node_id_hex (row_node E l) = node_id_hex (row_node E r)"
      by (simp only: pk [OF mem(2), symmetric] pk [OF mem(3), symmetric])
    then show "row_node E (last rows) = row_node E r" using rows by (simp add: node_id_hex_inj)
  qed (use snoc.prems(1) ih(2) in simp_all)
  with ih(1) show ?case by (auto simp: fold_res_append)
qed

section \<open>What fetch_node_updates delivers\<close>

definition node_after_reference :: "lookup_env \<Rightarrow> database \<Rightarrow> bytes list \<Rightarrow> u32 \<Rightarrow> node_id \<Rightarrow> node_delta \<Rightarrow> node_delta" where
  "node_after_reference E db ids last_sync n d =
     fold (set_node_reference E) (filter (\<lambda>r. row_node E r = n) (node_reference_rows E db ids last_sync)) d"

definition graph_hex_ids :: "network_graph \<Rightarrow> bytes list" where
  "graph_hex_ids g = map (\<lambda>(n, _). node_id_hex n) (graph_node_deltas g)"

definition node_rows_threshold :: "u32 \<Rightarrow> u64 \<Rightarrow> u32" where
  "node_rows_threshold last_sync current = (if should_snapshot_include_reminders last_sync current
     then min last_sync (ucast (current - PRUNE_INTERVAL)) else last_sync)"

definition node_outcome :: "lookup_env \<Rightarrow> database \<Rightarrow> network_graph \<Rightarrow> u32 \<Rightarrow> u64 \<Rightarrow> node_id \<Rightarrow> node_delta \<Rightarrow> node_delta" where
  "node_outcome E db g last_sync current n d =
     snd (fold (scan_node E (should_snapshot_include_reminders last_sync current) last_sync (ucast (current - CHANNEL_REMINDER_AGE)))
       (filter (\<lambda>r. row_node E r = n) (node_intermediate_rows E db (graph_hex_ids g) (node_rows_threshold last_sync current)))
       (node_scan_start, node_after_reference E db (graph_hex_ids g) last_sync n d))"

lemma graph_hex_ids_iff: "node_id_hex n \<in> set (graph_hex_ids g) \<longleftrightarrow> n \<in> fst ` set (graph_node_deltas g)"
  by (force simp: graph_hex_ids_def node_id_hex_inj)

lemma node_rows_in_graph:
  assumes "nodes_table_ok E db" and "r \<in> set (node_reference_rows E db (graph_hex_ids g) t) \<union> set (node_intermediate_rows E db (graph_hex_ids g) t)"
  shows "node_row_ok E r" and "row_node E r \<in> fst ` set (graph_node_deltas g)" and "r \<in> set (db_node_announcements db)"
proof -
  have "r \<in> set (db_node_announcements db) \<and> nar_public_key r \<in> set (graph_hex_ids g)"
    using assms set_distinct_on_subset [of nar_public_key]
    by (fastforce simp: node_reference_rows_def node_intermediate_rows_def nodes_table_ok_def reorders_set)
  moreover from this show "node_row_ok E r" using assms(1) by (simp add: nodes_table_ok_def)
  ultimately show "row_node E r \<in> fst ` set (graph_node_deltas g)" "r \<in> set (db_node_announcements db)"
    by (auto simp: node_row_ok_def simp flip: graph_hex_ids_iff)
qed

lemma fetch_node_updates_spec:
  fixes now :: u64 and reference :: "u64 option"
  assumes ok: "nodes_table_ok E db" and inv: "hm_inv (graph_node_deltas g)" and time: "PRUNE_INTERVAL \<le> current"
    and current: "current = (case reference of Some t \<Rightarrow> t | None \<Rightarrow> now)"
  shows "\<exists>ds. fetch_node_updates E now db g last_sync reference = Inr ds \<and> hm_inv ds \<and>
    (\<forall>n. hm_get ds n = map_option (node_outcome E db g last_sync current n) (hm_get (graph_node_deltas g) n))"
proof -
  let ?ids = "graph_hex_ids g" and ?ir = "should_snapshot_include_reminders last_sync current"
  let ?inc = "ucast (current - CHANNEL_REMINDER_AGE) :: u32" and ?t = "node_rows_threshold last_sync current"
  let ?rows = "node_intermediate_rows E db ?ids ?t"
  define ds1 where "ds1 = fold (\<lambda>r. hm_upd (row_node E r) node_delta_default (set_node_reference E r))
    (node_reference_rows E db ?ids last_sync) (graph_node_deltas g)"
  have sub: "CHANNEL_REMINDER_AGE \<le> current"
    using time by (auto simp: PRUNE_INTERVAL_def CHANNEL_REMINDER_AGE_def intro: order_trans [rotated])
  have l1: "fold_res (node_reference_step E) (node_reference_rows E db ?ids last_sync) (graph_node_deltas g) = Inr ds1"
    unfolding ds1_def using node_rows_in_graph(1) [OF ok] by (intro node_reference_loop) blast
  have "sorted (map nar_public_key ?rows)"
  proof -
    have "sorted (map (\<lambda>r. (nar_public_key r, - nar_timestamp r)) ?rows)" by (simp add: node_intermediate_rows_def)
    then show ?thesis unfolding sorted_map by (rule sorted_wrt_mono_rel [rotated]) (auto simp: less_eq_prod_def)
  qed
  with node_rows_in_graph(1) [OF ok] obtain ds ns where
    l2: "fold_res (node_intermediate_step E ?ir last_sync ?inc) ?rows (ds1, node_scan_start) = Inr (ds, ns)"
      and sc: "scanned_to E ?ir last_sync ?inc ds1 ?rows ds ns"
    using node_rows_loop [of ?rows E ?ir last_sync ?inc ds1] by blast
  have fetch: "fetch_node_updates E now db g last_sync reference = Inr ds"
    using sub time l1 l2
    by (simp add: fetch_node_updates_def current [symmetric] Let_def graph_hex_ids_def [symmetric] unwrap_def checked_sub_def
        node_rows_threshold_def)
  have inv1: "hm_inv ds1" unfolding ds1_def by (rule hmap.inv_fold_upd [OF inv])
  have "hm_inv (fst (ds, ns))"
    using l2 by (rule fold_res_invariant [where P = "\<lambda>x. hm_inv (fst x)"])
      (auto simp: inv1 node_intermediate_step_def hm_insert_def Let_def split_beta bind_res_eq_Inr intro!: hm_inv_upd)
  moreover have "hm_get ds n = map_option (node_outcome E db g last_sync current n) (hm_get (graph_node_deltas g) n)" for n
  proof -
    have none: "(\<forall>r \<in> set (node_reference_rows E db ?ids last_sync) \<union> set ?rows. row_node E r \<noteq> n)"
      if "hm_get (graph_node_deltas g) n = None"
      using that node_rows_in_graph(2) [OF ok, of _ g] by (auto simp: hm_get_map_of map_of_eq_None_iff)
    have g1: "hm_get ds1 n = map_option (node_after_reference E db ?ids last_sync n) (hm_get (graph_node_deltas g) n)"
      unfolding ds1_def hmap.get_fold_upd [OF inv] using none
      by (cases "hm_get (graph_node_deltas g) n") (auto simp: node_after_reference_def filter_empty_conv)
    show ?thesis
      using sc none
      by (cases "hm_get (graph_node_deltas g) n")
        (auto simp: scanned_to_def g1 node_result_def node_outcome_def node_or_default_def filter_empty_conv)
  qed
  ultimately show ?thesis using fetch by simp
qed

section \<open>The strategy of a node\<close>

lemma scan_node_latest:
  "map_option nd_features (nde_latest_details (snd (scan_node E ir t inc r x))) = map_option nd_features (nde_latest_details (snd x))"
  "map_option nd_addresses (nde_latest_details (snd (scan_node E ir t inc r x))) = map_option nd_addresses (nde_latest_details (snd x))"
  by (auto simp: scan_node_def node_intermediate_delta_def Let_def split_beta option.map_comp o_def split: option.split)

lemma set_node_reference_latest: "nde_latest_details (set_node_reference E r d) = nde_latest_details d"
  by (simp add: set_node_reference_def split: option.split)

lemma node_outcome_latest:
  "map_option nd_features (nde_latest_details (node_outcome E db g t c n d)) = map_option nd_features (nde_latest_details d)"
  "map_option nd_addresses (nde_latest_details (node_outcome E db g t c n d)) = map_option nd_addresses (nde_latest_details d)"
proof -
  have ref: "nde_latest_details (fold (set_node_reference E) rs d) = nde_latest_details d" for rs
    by (induction rs arbitrary: d) (simp_all add: set_node_reference_latest)
  have "map_option nd_features (nde_latest_details (snd (fold (scan_node E ir t inc) rs x))) = map_option nd_features (nde_latest_details (snd x))"
    "map_option nd_addresses (nde_latest_details (snd (fold (scan_node E ir t inc) rs x))) = map_option nd_addresses (nde_latest_details (snd x))"
    for ir t inc rs x
    by (induction rs arbitrary: x) (simp_all add: scan_node_latest)
  then show "map_option nd_features (nde_latest_details (node_outcome E db g t c n d)) = map_option nd_features (nde_latest_details d)"
    "map_option nd_addresses (nde_latest_details (node_outcome E db g t c n d)) = map_option nd_addresses (nde_latest_details d)"
    by (simp_all add: node_outcome_def node_after_reference_def ref)
qed

text \<open>How the rows of a node differ from the details the client has.\<close>

definition addresses_differ :: "lookup_env \<Rightarrow> node_details \<Rightarrow> node_announcement_row set \<Rightarrow> bool" where
  "addresses_differ E b rows \<longleftrightarrow> (\<exists>r \<in> rows. set (na_addresses (node_of E r)) \<noteq> set (nd_addresses b))"

definition features_differ :: "lookup_env \<Rightarrow> node_details \<Rightarrow> node_announcement_row set \<Rightarrow> bool" where
  "features_differ E b rows \<longleftrightarrow> (\<exists>r \<in> rows. na_features (node_of E r) \<noteq> nd_features b)"

lemma scan_since_sync:
  fixes ir :: bool and inclusion :: u32
  assumes "\<And>r. r \<in> set rows \<Longrightarrow> row_node E r = n \<and> last_sync \<le> seen_u32 E (nar_seen r)"
    and "nde_last_details_before_seen d = Some b" and "nde_strategy d = None" and "rows \<noteq> []"
  defines "x \<equiv> fold (scan_node E ir last_sync inclusion) rows (node_scan_start, d)"
  shows "ns_has_address_set_changed (fst x) = addresses_differ E b (set rows) \<and>
    ns_has_feature_set_changed (fst x) = features_differ E b (set rows) \<and>
    nde_last_details_before_seen (snd x) = Some b \<and>
    nde_strategy (snd x) = (if addresses_differ E b (set rows) \<or> features_differ E b (set rows)
      then Some (NodeMutated \<lparr>mnp_addresses = addresses_differ E b (set rows), mnp_features = features_differ E b (set rows)\<rparr>) else None)"
  unfolding x_def using assms(1,4)
proof (induction rows rule: rev_induct)
  case (snoc r rows)
  let ?y = "fold (scan_node E ir last_sync inclusion) rows (node_scan_start, d)"
  have now: "last_sync \<le> seen_u32 E (nar_seen r)" "row_node E r = n" using snoc.prems(1) by auto
  show ?case
  proof (cases "rows = []")
    case True
    then show ?thesis using assms(2,3) now
      by (auto simp: scan_node_def node_intermediate_delta_def node_scan_compare_def node_scan_start_def
          addresses_differ_def features_differ_def Let_def)
  next
    case False
    with snoc have ih: "ns_has_address_set_changed (fst ?y) = addresses_differ E b (set rows)"
      "ns_has_feature_set_changed (fst ?y) = features_differ E b (set rows)" "nde_last_details_before_seen (snd ?y) = Some b"
      "nde_strategy (snd ?y) = (if addresses_differ E b (set rows) \<or> features_differ E b (set rows)
      then Some (NodeMutated \<lparr>mnp_addresses = addresses_differ E b (set rows), mnp_features = features_differ E b (set rows)\<rparr>) else None)"
      by auto
    have "ns_previous_node_id (fst ?y) = Some n"
      using scan_nodes_previous [OF False] snoc.prems(1) last_in_set [OF False] by simp
    moreover have "addresses_differ E b (set (rows @ [r])) \<longleftrightarrow> addresses_differ E b (set rows) \<or> set (na_addresses (node_of E r)) \<noteq> set (nd_addresses b)"
      "features_differ E b (set (rows @ [r])) \<longleftrightarrow> features_differ E b (set rows) \<or> na_features (node_of E r) \<noteq> nd_features b"
      by (auto simp: addresses_differ_def features_differ_def)
    ultimately show ?thesis using ih now
      by (auto simp: scan_node_def [of E ir last_sync inclusion r] node_intermediate_delta_def node_scan_compare_def Let_def)
  qed
qed simp

lemma scan_without_reference:
  assumes "nde_last_details_before_seen d = None" and "rows \<noteq> []"
  shows "nde_strategy (snd (fold (scan_node E ir last_sync inclusion) rows (ns, d))) = Some NodeFull"
proof -
  have last: "nde_last_details_before_seen (snd (fold (scan_node E ir last_sync inclusion) rs x)) = nde_last_details_before_seen (snd x)" for rs x
    by (induction rs arbitrary: x)
      (auto simp: scan_node_def node_intermediate_delta_def Let_def split_beta split: option.split)
  obtain front r where "rows = front @ [r]" using assms(2) by (cases rows rule: rev_cases) auto
  then show ?thesis using last [of front "(ns, d)"] assms(1)
    by (simp add: scan_node_def [of E ir last_sync inclusion r] node_intermediate_delta_def Let_def split_beta)
qed

text \<open>The rounding of a \<open>seen\<close> column to whole seconds, in the range of 32-bit times.\<close>

definition epoch_ok :: "lookup_env \<Rightarrow> bool" where
  "epoch_ok E \<longleftrightarrow> (\<forall>x. 0 \<le> x \<and> x \<le> 4294967295000000 \<longrightarrow> (\<exists>s \<ge> 0. le_epoch E x = word_of_int s \<and> \<bar>1000000 * s - x\<bar> \<le> 500000))"

lemma seen_u32_ge:
  assumes "epoch_ok E" and "0 \<le> x" "x \<le> 4294967295000000" and "to_timestamp t \<le> x"
  shows "t \<le> seen_u32 E x"
proof -
  from assms(1-3) obtain s where s: "0 \<le> s" "le_epoch E x = word_of_int s" "\<bar>1000000 * s - x\<bar> \<le> 500000"
    by (auto simp: epoch_ok_def)
  then have "s \<le> 4294967295" "uint t \<le> s" using assms(3,4) by (simp_all add: to_timestamp_def)
  moreover have "uint (seen_u32 E x) = s"
    using s(1,2) \<open>s \<le> 4294967295\<close> by (simp add: seen_u32_def unsigned_ucast_eq unsigned_of_int take_bit_int_eq_self)
  ultimately show ?thesis by (simp add: word_le_def)
qed

definition node_rows_of :: "database \<Rightarrow> node_id \<Rightarrow> node_announcement_row set" where
  "node_rows_of db n = {r \<in> set (db_node_announcements db). nar_public_key r = node_id_hex n}"

definition is_node_reference :: "lookup_env \<Rightarrow> database \<Rightarrow> u32 \<Rightarrow> node_id \<Rightarrow> node_details option \<Rightarrow> bool" where
  "is_node_reference E db last_sync n x = (case x of
     None \<Rightarrow> \<forall>r \<in> node_rows_of db n. to_timestamp last_sync \<le> nar_seen r
   | Some b \<Rightarrow> \<exists>r \<in> node_rows_of db n. nar_seen r < to_timestamp last_sync \<and> b = details_of_row E r \<and>
       (\<forall>r' \<in> node_rows_of db n. nar_seen r' < to_timestamp last_sync \<longrightarrow> nar_seen r' \<le> nar_seen r))"

lemma fold_set_node_reference:
  "fold (set_node_reference E) rs d =
     (case nde_last_details_before_seen d of Some _ \<Rightarrow> d
      | None \<Rightarrow> (case rs of [] \<Rightarrow> d | r # _ \<Rightarrow> d\<lparr>nde_last_details_before_seen := Some (details_of_row E r)\<rparr>))"
  by (induction rs arbitrary: d) (auto simp: set_node_reference_def split: option.split list.split)

lemma node_after_reference_spec:
  assumes ok: "nodes_table_ok E db" and n: "node_id_hex n \<in> set ids" and d: "nde_last_details_before_seen d = None"
  shows "is_node_reference E db last_sync n (nde_last_details_before_seen (node_after_reference E db ids last_sync n d))"
    and "nde_strategy (node_after_reference E db ids last_sync n d) = nde_strategy d"
proof -
  let ?rank = "\<lambda>r. (nar_public_key r, - nar_seen r)"
  let ?base = "filter (\<lambda>r. nar_public_key r \<in> set ids \<and> nar_seen r < to_timestamp last_sync)
    (le_scan_node_reference E (db_node_announcements db))"
  let ?rows = "filter (\<lambda>r. row_node E r = n) (distinct_on nar_public_key (sort_key ?rank ?base))"
  have base: "set ?base = {r \<in> set (db_node_announcements db). nar_public_key r \<in> set ids \<and> nar_seen r < to_timestamp last_sync}"
    using ok by (simp add: nodes_table_ok_def reorders_set)
  have key: "row_node E r = n \<longleftrightarrow> nar_public_key r = node_id_hex n" if "r \<in> set (db_node_announcements db)" for r
    using ok that by (auto simp: nodes_table_ok_def node_row_ok_def simp flip: node_id_hex_inj)
  show "nde_strategy (node_after_reference E db ids last_sync n d) = nde_strategy d"
    using d by (simp add: node_after_reference_def fold_set_node_reference split: list.split)
  have last: "nde_last_details_before_seen (node_after_reference E db ids last_sync n d) =
      (case ?rows of [] \<Rightarrow> None | r # _ \<Rightarrow> Some (details_of_row E r))"
    using d by (simp add: node_after_reference_def node_reference_rows_def fold_set_node_reference split: list.split)
  show "is_node_reference E db last_sync n (nde_last_details_before_seen (node_after_reference E db ids last_sync n d))"
  proof (cases ?rows)
    case Nil
    have "to_timestamp last_sync \<le> nar_seen r" if r: "r \<in> node_rows_of db n" for r
    proof (rule ccontr)
      assume "\<not> to_timestamp last_sync \<le> nar_seen r"
      with r n have "r \<in> set (sort_key ?rank ?base)" by (simp add: base node_rows_of_def del: set_filter)
      from distinct_on_exists [OF this, of nar_public_key] obtain q where
        q: "q \<in> set (distinct_on nar_public_key (sort_key ?rank ?base))" "nar_public_key q = nar_public_key r" by blast
      have "q \<in> set (db_node_announcements db)" using distinct_on_first(1) [OF q(1)] base by blast
      then have "row_node E q = n" using key q(2) r by (simp add: node_rows_of_def)
      with q(1) Nil show False by (simp add: filter_empty_conv)
    qed
    then show ?thesis by (simp add: last Nil is_node_reference_def)
  next
    case (Cons r rs)
    then have "r \<in> set ?rows" by simp
    then have r: "r \<in> set (distinct_on nar_public_key (sort_key ?rank ?base))" "row_node E r = n" by simp_all
    have rb: "r \<in> set ?base" using distinct_on_first(1) [OF r(1)] .
    have rdb: "r \<in> set (db_node_announcements db)" using rb base by blast
    have rk: "nar_public_key r = node_id_hex n" using key [OF rdb] r(2) by simp
    have "nar_seen r' \<le> nar_seen r" if r': "r' \<in> node_rows_of db n" "nar_seen r' < to_timestamp last_sync" for r'
    proof -
      have "r' \<in> set ?base" unfolding base using r' n by (simp add: node_rows_of_def)
      from distinct_on_first(2) [OF r(1) this] r'(1) rk show ?thesis
        by (simp add: node_rows_of_def less_eq_prod_def)
    qed
    moreover have "nar_seen r < to_timestamp last_sync" using rb base by blast
    ultimately show ?thesis using rdb rk
      by (auto simp: last Cons is_node_reference_def node_rows_of_def)
  qed
qed

text \<open>The strategy that a node deserves from the rows seen since the sync, without reminders.\<close>

definition node_strategy_spec :: "lookup_env \<Rightarrow> node_details option \<Rightarrow> node_announcement_row set \<Rightarrow> node_serialization_strategy option" where
  "node_strategy_spec E x rows =
     (if rows = {} then None
      else case x of None \<Rightarrow> Some NodeFull
        | Some b \<Rightarrow> if addresses_differ E b rows \<or> features_differ E b rows
            then Some (NodeMutated \<lparr>mnp_addresses = addresses_differ E b rows, mnp_features = features_differ E b rows\<rparr>)
            else None)"

definition node_rows_since :: "database \<Rightarrow> u32 \<Rightarrow> node_id \<Rightarrow> node_announcement_row set" where
  "node_rows_since db last_sync n = {r \<in> node_rows_of db n. to_timestamp last_sync \<le> nar_seen r}"

definition seen_in_range :: "database \<Rightarrow> bool" where
  "seen_in_range db \<longleftrightarrow> (\<forall>r \<in> set (db_node_announcements db). 0 \<le> nar_seen r \<and> nar_seen r \<le> 4294967295000000)"

lemma node_intermediate_rows_of:
  assumes ok: "nodes_table_ok E db" and n: "node_id_hex n \<in> set ids"
  shows "set (filter (\<lambda>r. row_node E r = n) (node_intermediate_rows E db ids last_sync)) = node_rows_since db last_sync n"
proof -
  have key: "row_node E r = n \<longleftrightarrow> nar_public_key r = node_id_hex n" if "r \<in> set (db_node_announcements db)" for r
    using ok that by (auto simp: nodes_table_ok_def node_row_ok_def simp flip: node_id_hex_inj)
  have "set (node_intermediate_rows E db ids last_sync) =
      {r \<in> set (db_node_announcements db). nar_public_key r \<in> set ids \<and> to_timestamp last_sync \<le> nar_seen r}"
    using ok by (auto simp: node_intermediate_rows_def nodes_table_ok_def reorders_set)
  then show ?thesis using n key by (auto simp: node_rows_since_def node_rows_of_def)
qed

lemma graph_node_deltas_fresh:
  "hm_get (graph_node_deltas g) n = Some d \<Longrightarrow> nde_last_details_before_seen d = None \<and> nde_strategy d = None"
  by (auto simp: hm_get_map_of graph_node_deltas_def dest!: map_of_SomeD)
    (auto simp: List.map_filter_def)

lemma scan_keeps_reference:
  "nde_last_details_before_seen (snd (fold (scan_node E ir t inc) rs x)) = nde_last_details_before_seen (snd x)"
  by (induction rs arbitrary: x)
    (auto simp: scan_node_def node_intermediate_delta_def Let_def split_beta split: option.split)

lemma node_outcome_strategy:
  assumes ok: "nodes_table_ok E db" and epoch: "epoch_ok E" and range: "seen_in_range db"
    and quiet: "\<not> should_snapshot_include_reminders last_sync current"
    and n: "hm_get (graph_node_deltas g) n = Some d"
  defines "x \<equiv> node_outcome E db g last_sync current n d"
  shows "is_node_reference E db last_sync n (nde_last_details_before_seen x)"
    and "nde_strategy x = node_strategy_spec E (nde_last_details_before_seen x) (node_rows_since db last_sync n)"
proof -
  let ?ids = "graph_hex_ids g"
  let ?d1 = "node_after_reference E db ?ids last_sync n d"
  let ?rows = "filter (\<lambda>r. row_node E r = n) (node_intermediate_rows E db ?ids last_sync)"
  have ids: "node_id_hex n \<in> set ?ids"
    using n by (auto simp: graph_hex_ids_iff hm_get_map_of dest!: map_of_SomeD intro: rev_image_eqI)
  have d: "nde_last_details_before_seen d = None" "nde_strategy d = None" using graph_node_deltas_fresh [OF n] by auto
  note ref = node_after_reference_spec [OF ok ids d(1), of last_sync]
  have x: "x = snd (fold (scan_node E False last_sync (ucast (current - CHANNEL_REMINDER_AGE))) ?rows (node_scan_start, ?d1))"
    using quiet by (simp add: x_def node_outcome_def node_rows_threshold_def)
  have last: "nde_last_details_before_seen x = nde_last_details_before_seen ?d1" by (simp add: x scan_keeps_reference)
  show "is_node_reference E db last_sync n (nde_last_details_before_seen x)" using ref(1) by (simp add: last)
  note set = node_intermediate_rows_of [OF ok ids, of last_sync]
  have since: "row_node E r = n \<and> last_sync \<le> seen_u32 E (nar_seen r)" if r: "r \<in> set ?rows" for r
  proof -
    have "r \<in> node_rows_since db last_sync n" using r set by blast
    then have "0 \<le> nar_seen r" "nar_seen r \<le> 4294967295000000" "to_timestamp last_sync \<le> nar_seen r"
      using range by (auto simp: seen_in_range_def node_rows_since_def node_rows_of_def)
    from seen_u32_ge [OF epoch this] r show ?thesis by simp
  qed
  show "nde_strategy x = node_strategy_spec E (nde_last_details_before_seen x) (node_rows_since db last_sync n)"
  proof (cases "?rows = []")
    case True
    then have "node_rows_since db last_sync n = {}" using set by simp
    with True show ?thesis using ref(2) d(2) by (simp add: x node_strategy_spec_def)
  next
    case False
    then have ne: "node_rows_since db last_sync n \<noteq> {}" using set by (metis set_empty)
    show ?thesis
    proof (cases "nde_last_details_before_seen ?d1")
      case None
      with scan_without_reference [OF None False] ne show ?thesis by (simp add: x scan_keeps_reference node_strategy_spec_def)
    next
      case (Some b)
      have strat: "nde_strategy ?d1 = None" using ref(2) d(2) by simp
      from scan_since_sync [where ir = False and inclusion = "ucast (current - CHANNEL_REMINDER_AGE)", OF since Some strat False]
      show ?thesis using ne Some unfolding x [symmetric] last set by (simp add: node_strategy_spec_def)
    qed
  qed
qed

end
