(* ===== verification/Lookup_Announcements.thy ===== *)
theory Lookup_Announcements
  imports Lookup_Channels
begin

text \<open>
  What \<open>fetch_channel_announcements\<close> of src/lookup.rs delivers: the announcement of each channel
  of the graph, the moment since which both directions are known when that is not before the last
  sync, and the reminders. The nested \<open>DISTINCT ON\<close> query is shown to compute the later of the two
  first updates.
\<close>

section \<open>Announcement rows\<close>

definition announcement_of :: "lookup_env \<Rightarrow> channel_announcement_row \<Rightarrow> unsigned_channel_announcement" where
  "announcement_of E r = contents (the (le_read_channel_announcement E (car_announcement_signed r)))"

definition announcement_row_ok :: "lookup_env \<Rightarrow> channel_announcement_row \<Rightarrow> bool" where
  "announcement_row_ok E r \<longleftrightarrow> le_read_channel_announcement E (car_announcement_signed r) \<noteq> None \<and>
     ca_short_channel_id (announcement_of E r) = car_short_channel_id r"

definition announcement_delta_of :: "lookup_env \<Rightarrow> channel_announcement_row \<Rightarrow> announcement_delta" where
  "announcement_delta_of E r = \<lparr>ad_seen = seen_u32 E (car_seen r), ad_announcement = announcement_of E r\<rparr>"

definition announcements_table_ok :: "lookup_env \<Rightarrow> database \<Rightarrow> bool" where
  "announcements_table_ok E db \<longleftrightarrow> (\<forall>r \<in> set (db_channel_announcements db). announcement_row_ok E r) \<and>
     distinct (map car_short_channel_id (db_channel_announcements db)) \<and> reorders (le_scan_announcements E)"

definition enter_announcement :: "lookup_env \<Rightarrow> channel_announcement_row \<Rightarrow> channel_delta \<Rightarrow> channel_delta" where
  "enter_announcement E r d = d\<lparr>cd_announcement := Some (announcement_delta_of E r)\<rparr>"

lemma announcement_loop_eq:
  assumes "\<And>r. r \<in> set rows \<Longrightarrow> announcement_row_ok E r"
  shows "fold_res (announcement_row_step E) rows ds =
    Inr (fold (\<lambda>r. bt_upd (car_short_channel_id r) channel_delta_default (enter_announcement E r)) rows ds)"
  using assms
proof (induction rows arbitrary: ds)
  case (Cons r rows)
  then have "announcement_row_ok E r" by simp
  then have "announcement_row_step E r ds =
      Inr (bt_upd (car_short_channel_id r) channel_delta_default (enter_announcement E r) ds)"
    by (auto simp: announcement_row_step_def announcement_row_ok_def announcement_of_def unwrap_def
        enter_announcement_def [abs_def] announcement_delta_of_def Let_def)
  with Cons show ?case by simp
qed simp

section \<open>The first updates of both directions\<close>

text \<open>The moment from which updates of both directions were known: the later of the first ones.\<close>

definition first_seen :: "database \<Rightarrow> u64 \<Rightarrow> int" where
  "first_seen db scid = Max {Min (cur_seen ` rows_of db scid b) | b. rows_of db scid b \<noteq> {}}"

lemma finite_rows_of [simp]: "finite (rows_of db scid b)"
  by (simp add: rows_of_def)

definition channel_rows :: "database \<Rightarrow> u64 \<Rightarrow> bool" where
  "channel_rows db scid \<longleftrightarrow> (\<exists>b. rows_of db scid b \<noteq> {})"

lemma directional_last_seens_row:
  assumes sc: "reorders (le_scan_oldest E)" and r: "r \<in> set (directional_last_seens E db ids)"
  shows "r \<in> rows_of db (cur_short_channel_id r) (cur_direction r)" and "cur_short_channel_id r \<in> set ids"
    and "cur_seen r = Min (cur_seen ` rows_of db (cur_short_channel_id r) (cur_direction r))"
proof -
  note D = r [unfolded directional_last_seens_def]
  from distinct_on_first(1) [OF D] show r: "r \<in> rows_of db (cur_short_channel_id r) (cur_direction r)"
    and ids: "cur_short_channel_id r \<in> set ids"
    by (simp_all add: rows_of_def reorders_set [OF sc])
  have "cur_seen r \<le> cur_seen x" if "x \<in> rows_of db (cur_short_channel_id r) (cur_direction r)" for x
    using distinct_on_first(2) [OF D, of x] that ids by (auto simp: rows_of_def less_eq_prod_def reorders_set [OF sc])
  then show "cur_seen r = Min (cur_seen ` rows_of db (cur_short_channel_id r) (cur_direction r))"
    using r by (intro Min_eqI [symmetric]) auto
qed

lemma directional_last_seens_exist:
  assumes sc: "reorders (le_scan_oldest E)" and "scid \<in> set ids" and "rows_of db scid b \<noteq> {}"
  shows "\<exists>r \<in> set (directional_last_seens E db ids). update_row_key r = (scid, b)"
proof -
  from assms(3) obtain x where x: "x \<in> set (db_channel_updates db)" "update_row_key x = (scid, b)"
    by (auto simp: rows_of_def)
  then have "x \<in> set (sort_key (\<lambda>r. (sint (cur_short_channel_id r), cur_direction r, cur_seen r))
      (filter (\<lambda>r. cur_short_channel_id r \<in> set ids) (le_scan_oldest E (db_channel_updates db))))"
    using assms(2) by (simp add: reorders_set [OF sc])
  from distinct_on_exists [OF this, of update_row_key] x(2) show ?thesis
    by (simp add: directional_last_seens_def)
qed

lemma newest_of_oldest:
  assumes sc: "reorders (le_scan_oldest E)"
    and r: "r \<in> set (directional_last_seens E db ids)"
    and max: "\<And>x. x \<in> set (directional_last_seens E db ids) \<Longrightarrow> cur_short_channel_id x = cur_short_channel_id r \<Longrightarrow> cur_seen x \<le> cur_seen r"
  shows "cur_seen r = first_seen db (cur_short_channel_id r)"
proof -
  let ?mins = "{Min (cur_seen ` rows_of db (cur_short_channel_id r) b) | b. rows_of db (cur_short_channel_id r) b \<noteq> {}}"
  note rD = directional_last_seens_row [OF sc r]
  have "finite ?mins"
    by (rule finite_subset [of _ "(\<lambda>b. Min (cur_seen ` rows_of db (cur_short_channel_id r) b)) ` UNIV"]) auto
  moreover have "cur_seen r \<in> ?mins" using rD by blast
  moreover have "y \<le> cur_seen r" if "y \<in> ?mins" for y
  proof -
    from that obtain b where b: "y = Min (cur_seen ` rows_of db (cur_short_channel_id r) b)" "rows_of db (cur_short_channel_id r) b \<noteq> {}"
      by auto
    from directional_last_seens_exist [OF sc rD(2) b(2)] obtain x where
      x: "x \<in> set (directional_last_seens E db ids)" "update_row_key x = (cur_short_channel_id r, b)" by blast
    with max [of x] directional_last_seens_row(3) [OF sc x(1)] b(1) show ?thesis by simp
  qed
  ultimately show ?thesis unfolding first_seen_def by (intro Max_eqI [symmetric])
qed

lemma newer_oldest_row:
  assumes sc: "reorders (le_scan_oldest E)" "reorders (le_scan_newer_oldest E)"
    and r: "r \<in> set (newer_oldest_directional_updates E db ids last_sync)"
  shows "cur_short_channel_id r \<in> set ids \<and> cur_seen r = first_seen db (cur_short_channel_id r) \<and>
    to_timestamp last_sync \<le> cur_seen r \<and> channel_rows db (cur_short_channel_id r)"
proof -
  from r have C: "r \<in> set (distinct_on cur_short_channel_id
      (sort_key (\<lambda>r. (sint (cur_short_channel_id r), - cur_seen r)) (le_scan_newer_oldest E (directional_last_seens E db ids))))"
    and t: "to_timestamp last_sync \<le> cur_seen r"
    by (simp_all add: newer_oldest_directional_updates_def Let_def)
  from distinct_on_first(1) [OF C] have D: "r \<in> set (directional_last_seens E db ids)"
    by (simp add: reorders_set [OF sc(2)])
  have "cur_seen r = first_seen db (cur_short_channel_id r)"
    by (rule newest_of_oldest [OF sc(1) D])
      (use distinct_on_first(2) [OF C] in \<open>auto simp: less_eq_prod_def reorders_set [OF sc(2)]\<close>)
  then show ?thesis using directional_last_seens_row [OF sc(1) D] t by (auto simp: channel_rows_def)
qed

lemma newer_oldest_exists:
  assumes sc: "reorders (le_scan_oldest E)" "reorders (le_scan_newer_oldest E)"
    and scid: "scid \<in> set ids" "channel_rows db scid" "to_timestamp last_sync \<le> first_seen db scid"
  shows "\<exists>r \<in> set (newer_oldest_directional_updates E db ids last_sync). cur_short_channel_id r = scid"
proof -
  let ?L = "sort_key (\<lambda>r. (sint (cur_short_channel_id r), - cur_seen r)) (le_scan_newer_oldest E (directional_last_seens E db ids))"
  from scid(2) obtain b where "rows_of db scid b \<noteq> {}" by (auto simp: channel_rows_def)
  from directional_last_seens_exist [OF sc(1) scid(1) this] obtain x where x: "x \<in> set ?L" "cur_short_channel_id x = scid"
    by (auto simp: reorders_set [OF sc(2)])
  from distinct_on_exists [OF x(1), of cur_short_channel_id] x(2) obtain r where
    r: "r \<in> set (distinct_on cur_short_channel_id ?L)" "cur_short_channel_id r = scid" by auto
  from distinct_on_first(1) [OF r(1)] have D: "r \<in> set (directional_last_seens E db ids)"
    by (simp add: reorders_set [OF sc(2)])
  have "cur_seen r = first_seen db (cur_short_channel_id r)"
    by (rule newest_of_oldest [OF sc(1) D])
      (use distinct_on_first(2) [OF r(1)] in \<open>auto simp: less_eq_prod_def reorders_set [OF sc(2)]\<close>)
  with r scid(3) show ?thesis
    by (auto simp: newer_oldest_directional_updates_def Let_def)
qed

lemma first_updates_loop:
  "fold (first_updates_step E) rows ds = fold (\<lambda>r. bt_upd (cur_short_channel_id r) channel_delta_default
     (\<lambda>d. d\<lparr>cd_first_bidirectional_updates_seen := Some (seen_u32 E (cur_seen r))\<rparr>)) rows ds"
  by (simp add: first_updates_step_def [abs_def])

section \<open>Reminders\<close>

definition remind :: "network_graph \<Rightarrow> u64 \<Rightarrow> channel_delta \<Rightarrow> channel_delta" where
  "remind g scid d =
     (case graph_channel g scid of
        Some c \<Rightarrow> (case (ci_one_to_two c, ci_two_to_one c) of
          (Some info_12, Some info_21) \<Rightarrow>
            upd_direction True (\<lambda>u. u\<lparr>dud_serialization_update_flags := Some (if cui_enabled info_21 then 1 else 3)\<rparr>)
              (upd_direction False (\<lambda>u. u\<lparr>dud_serialization_update_flags := Some (if cui_enabled info_12 then 0 else 2)\<rparr>)
                (d\<lparr>cd_requires_reminder := True\<rparr>))
        | _ \<Rightarrow> d\<lparr>cd_requires_reminder := True\<rparr>)
      | None \<Rightarrow> d\<lparr>cd_requires_reminder := True\<rparr>)"

lemma remind_idem: "remind g scid (remind g scid d) = remind g scid d"
  by (cases d) (auto simp: remind_def upd_direction_def Let_def split: option.split)

lemma reminder_loop:
  assumes "\<And>r. r \<in> set rows \<Longrightarrow> update_row_ok E r"
  shows "fold_res (reminder_row_step E g threshold) rows ds =
    Inr (fold (\<lambda>r. bt_upd (cur_short_channel_id r) channel_delta_default (remind g (cur_short_channel_id r)))
      (filter (\<lambda>r. seen_u32 E (cur_seen r) < f64_as_u32 threshold) rows) ds)"
  using assms
proof (induction rows arbitrary: ds)
  case (Cons r rows)
  then have "update_row_ok E r" by simp
  then have "reminder_row_step E g threshold r ds =
      Inr (if seen_u32 E (cur_seen r) < f64_as_u32 threshold
           then bt_upd (cur_short_channel_id r) channel_delta_default (remind g (cur_short_channel_id r)) ds else ds)"
    using unwrap_update [of E r]
    by (auto simp: reminder_row_step_def update_row_ok_def Let_def bt_upd_twice o_def remind_def [abs_def] split: option.split)
  with Cons show ?case by simp
qed simp

section \<open>What fetch_channel_announcements delivers\<close>

definition announcement_entry :: "lookup_env \<Rightarrow> database \<Rightarrow> (64 word) list \<Rightarrow> u64 \<Rightarrow> announcement_delta option" where
  "announcement_entry E db ids scid = (if scid \<in> set ids
     then map_option (announcement_delta_of E) (find (\<lambda>r. car_short_channel_id r = scid) (db_channel_announcements db))
     else None)"

definition first_entry :: "lookup_env \<Rightarrow> database \<Rightarrow> (64 word) list \<Rightarrow> u32 \<Rightarrow> u64 \<Rightarrow> u32 option" where
  "first_entry E db ids last_sync scid =
     (if scid \<in> set ids \<and> channel_rows db scid \<and> to_timestamp last_sync \<le> first_seen db scid
      then Some (seen_u32 E (first_seen db scid)) else None)"

definition reminder_due :: "lookup_env \<Rightarrow> database \<Rightarrow> (64 word) list \<Rightarrow> u32 \<Rightarrow> u64 \<Rightarrow> u64 \<Rightarrow> bool" where
  "reminder_due E db ids last_sync current scid \<longleftrightarrow> should_snapshot_include_reminders last_sync current \<and>
     (\<exists>r \<in> set (mutated_updates E db ids (current - PRUNE_INTERVAL)).
        cur_short_channel_id r = scid \<and> seen_u32 E (cur_seen r) < f64_as_u32 (current - CHANNEL_REMINDER_AGE))"

definition announced_delta :: "lookup_env \<Rightarrow> database \<Rightarrow> network_graph \<Rightarrow> u32 \<Rightarrow> u64 \<Rightarrow> u64 \<Rightarrow> channel_delta" where
  "announced_delta E db g last_sync current scid =
     (let ids = graph_channel_ids g;
          base = channel_delta_default\<lparr>cd_announcement := announcement_entry E db ids scid,
            cd_first_bidirectional_updates_seen := first_entry E db ids last_sync scid\<rparr>
      in if reminder_due E db ids last_sync current scid then remind g scid base else base)"

definition lookup_ok :: "lookup_env \<Rightarrow> database \<Rightarrow> bool" where
  "lookup_ok E db \<longleftrightarrow> announcements_table_ok E db \<and> updates_table_ok E db \<and>
     reorders (le_scan_oldest E) \<and> reorders (le_scan_newer_oldest E) \<and>
     reorders (le_scan_window E) \<and> reorders (le_scan_mutated E)"

lemma set_annotate: "fst ` set (annotate_successors differs rs) = set rs"
  by (induction differs rs rule: annotate_successors.induct) auto

lemma distinct_successor_rows_subset:
  assumes "reorders (le_scan_window E)" and "r \<in> set (distinct_successor_rows E db ids threshold)"
  shows "r \<in> set (db_channel_updates db)"
proof -
  from assms(2) obtain k where "r \<in> fst ` set (annotate_successors update_row_differs
      (sort_key (\<lambda>r. - cur_seen r) (filter (\<lambda>r. update_row_key r = k) (le_scan_window E (filter (\<lambda>r.
        cur_short_channel_id r \<in> set ids \<and> cur_seen r \<ge> to_timestamp threshold) (db_channel_updates db))))))"
    by (force simp: distinct_successor_rows_def Let_def)
  then show ?thesis by (simp add: set_annotate reorders_set [OF assms(1)])
qed

lemma mutated_updates_subset:
  assumes "reorders (le_scan_window E)" "reorders (le_scan_mutated E)" and "r \<in> set (mutated_updates E db ids threshold)"
  shows "r \<in> set (db_channel_updates db)"
  using distinct_on_first(1) [OF assms(3) [unfolded mutated_updates_def]] distinct_successor_rows_subset [OF assms(1)]
  by (simp add: reorders_set [OF assms(2)])

lemma find_member: "find P xs = Some z \<Longrightarrow> z \<in> set xs \<and> P z"
  by (induction xs) (auto split: if_splits)

lemma announcement_entry_cases:
  fixes ids :: "64 word list"
  assumes ok: "announcements_table_ok E db"
  defines "rows \<equiv> announcement_rows E db ids"
  shows "(\<exists>r \<in> set rows. car_short_channel_id r = scid) \<longleftrightarrow> announcement_entry E db ids scid \<noteq> None"
    and "r \<in> set rows \<Longrightarrow> car_short_channel_id r = scid \<Longrightarrow> announcement_entry E db ids scid = Some (announcement_delta_of E r)"
    and "r \<in> set rows \<Longrightarrow> announcement_row_ok E r"
proof -
  let ?all = "db_channel_announcements db"
  have set: "set rows = {r \<in> set ?all. car_short_channel_id r \<in> set ids}"
    using ok by (simp add: rows_def announcement_rows_def announcements_table_ok_def reorders_set)
  have find: "find (\<lambda>r. car_short_channel_id r = car_short_channel_id q) rs = Some q"
    if "q \<in> set rs" "distinct (map car_short_channel_id rs)" for q rs
    using that by (induction rs) auto
  have uniq: "find (\<lambda>r. car_short_channel_id r = scid) ?all = Some q" if "q \<in> set ?all" "car_short_channel_id q = scid" for q
    using find [OF that(1)] ok that(2) by (simp add: announcements_table_ok_def)
  show "(\<exists>r \<in> set rows. car_short_channel_id r = scid) \<longleftrightarrow> announcement_entry E db ids scid \<noteq> None"
    by (cases "find (\<lambda>r. car_short_channel_id r = scid) ?all")
      (auto simp: set announcement_entry_def find_None_iff dest: find_member)
  show "r \<in> set rows \<Longrightarrow> car_short_channel_id r = scid \<Longrightarrow> announcement_entry E db ids scid = Some (announcement_delta_of E r)"
    using uniq [of r] by (auto simp: set announcement_entry_def)
  show "r \<in> set rows \<Longrightarrow> announcement_row_ok E r"
    using ok by (auto simp: set announcements_table_ok_def)
qed

lemma first_entry_cases:
  assumes sc: "reorders (le_scan_oldest E)" "reorders (le_scan_newer_oldest E)"
  shows "r \<in> set (newer_oldest_directional_updates E db ids last_sync) \<Longrightarrow> cur_short_channel_id r = scid \<Longrightarrow>
      first_entry E db ids last_sync scid = Some (seen_u32 E (cur_seen r))"
    and "(\<exists>r \<in> set (newer_oldest_directional_updates E db ids last_sync). cur_short_channel_id r = scid) \<longleftrightarrow>
      first_entry E db ids last_sync scid \<noteq> None"
proof -
  show *: "first_entry E db ids last_sync scid = Some (seen_u32 E (cur_seen r))"
    if "r \<in> set (newer_oldest_directional_updates E db ids last_sync)" "cur_short_channel_id r = scid" for r
    using newer_oldest_row [OF sc that(1)] that(2) by (simp add: first_entry_def)
  show "(\<exists>r \<in> set (newer_oldest_directional_updates E db ids last_sync). cur_short_channel_id r = scid) \<longleftrightarrow>
      first_entry E db ids last_sync scid \<noteq> None"
  proof
    assume "first_entry E db ids last_sync scid \<noteq> None"
    then show "\<exists>r \<in> set (newer_oldest_directional_updates E db ids last_sync). cur_short_channel_id r = scid"
      by (intro newer_oldest_exists [OF sc]) (auto simp: first_entry_def split: if_splits)
  qed (use * in fastforce)
qed

text \<open>The delta set after each of the three loops of \<open>fetch_channel_announcements\<close>.\<close>

definition announced_set :: "lookup_env \<Rightarrow> database \<Rightarrow> u64 list \<Rightarrow> delta_set" where
  "announced_set E db ids = fold (\<lambda>r. bt_upd (car_short_channel_id r) channel_delta_default (enter_announcement E r))
     (announcement_rows E db ids) []"

definition first_seen_set :: "lookup_env \<Rightarrow> database \<Rightarrow> u64 list \<Rightarrow> u32 \<Rightarrow> delta_set" where
  "first_seen_set E db ids last_sync = fold (\<lambda>r. bt_upd (cur_short_channel_id r) channel_delta_default
     (\<lambda>d. d\<lparr>cd_first_bidirectional_updates_seen := Some (seen_u32 E (cur_seen r))\<rparr>))
     (newer_oldest_directional_updates E db ids last_sync) (announced_set E db ids)"

definition reminded_rows :: "lookup_env \<Rightarrow> database \<Rightarrow> u64 list \<Rightarrow> u32 \<Rightarrow> u64 \<Rightarrow> channel_update_row list" where
  "reminded_rows E db ids last_sync current = (if should_snapshot_include_reminders last_sync current
    then filter (\<lambda>r. seen_u32 E (cur_seen r) < f64_as_u32 (current - CHANNEL_REMINDER_AGE))
      (mutated_updates E db ids (current - PRUNE_INTERVAL)) else [])"

definition reminded_set :: "lookup_env \<Rightarrow> database \<Rightarrow> network_graph \<Rightarrow> u32 \<Rightarrow> u64 \<Rightarrow> delta_set" where
  "reminded_set E db g last_sync current =
     fold (\<lambda>r. bt_upd (cur_short_channel_id r) channel_delta_default (remind g (cur_short_channel_id r)))
       (reminded_rows E db (graph_channel_ids g) last_sync current) (first_seen_set E db (graph_channel_ids g) last_sync)"

lemma stages_inv: "bt_inv (announced_set E db ids)" "bt_inv (first_seen_set E db ids last_sync)" "bt_inv (reminded_set E db g last_sync current)"
  unfolding announced_set_def first_seen_set_def reminded_set_def by (intro btree.inv_fold_upd btree.inv_emp)+

lemma fetch_channel_announcements_stages:
  fixes now :: u64 and reference :: "u64 option"
  assumes ok: "lookup_ok E db" and time: "PRUNE_INTERVAL \<le> current"
    and current: "current = (case reference of Some t \<Rightarrow> t | None \<Rightarrow> now)"
  shows "fetch_channel_announcements E now db g last_sync reference [] = Inr (reminded_set E db g last_sync current)"
proof -
  let ?ids = "graph_channel_ids g"
  from ok have ann: "announcements_table_ok E db" and upd: "updates_table_ok E db"
    and sc: "reorders (le_scan_window E)" "reorders (le_scan_mutated E)"
    by (simp_all add: lookup_ok_def)
  have sub: "CHANNEL_REMINDER_AGE \<le> current"
    using time by (auto simp: PRUNE_INTERVAL_def CHANNEL_REMINDER_AGE_def intro: order_trans [rotated])
  have annrows: "announcement_row_ok E r" if "r \<in> set (announcement_rows E db ?ids)" for r
    using announcement_entry_cases(3) [OF ann that] .
  have rows: "update_row_ok E r" if "r \<in> set (mutated_updates E db ?ids threshold)" for r threshold
    using mutated_updates_subset [OF sc that] upd by (simp add: updates_table_ok_def)
  have l1: "fold_res (announcement_row_step E) (announcement_rows E db ?ids) [] = Inr (announced_set E db ?ids)"
    unfolding announced_set_def using announcement_loop_eq [OF annrows] by blast
  have l3: "fold_res (reminder_row_step E g (current - CHANNEL_REMINDER_AGE))
      (mutated_updates E db ?ids (current - PRUNE_INTERVAL)) (first_seen_set E db ?ids last_sync) = Inr (reminded_set E db g last_sync current)"
    if "should_snapshot_include_reminders last_sync current"
    using reminder_loop [OF rows] that by (simp add: reminded_set_def reminded_rows_def)
  show ?thesis
  proof (cases "should_snapshot_include_reminders last_sync current")
    case True
    then show ?thesis using sub time l3
      by (simp add: fetch_channel_announcements_def current [symmetric] Let_def l1 first_updates_loop
          first_seen_set_def [symmetric] unwrap_def checked_sub_def)
  next
    case False
    then show ?thesis
      by (simp add: fetch_channel_announcements_def current [symmetric] Let_def l1 first_updates_loop
          first_seen_set_def [symmetric] reminded_set_def reminded_rows_def)
  qed
qed

lemma get_announced_set:
  assumes ann: "announcements_table_ok E db"
  shows "bt_get (announced_set E db ids) scid = (if announcement_entry E db ids scid \<noteq> None
     then Some (channel_delta_default\<lparr>cd_announcement := announcement_entry E db ids scid\<rparr>) else None)"
  unfolding announced_set_def announcement_entry_cases(1) [OF ann, symmetric]
  by (subst btree.get_fold_upd_same [where h = "\<lambda>d. d\<lparr>cd_announcement := announcement_entry E db ids scid\<rparr>"])
    (auto simp: enter_announcement_def [abs_def] announcement_entry_cases(2) [OF ann])

lemma get_first_seen_set:
  assumes sc: "reorders (le_scan_oldest E)" "reorders (le_scan_newer_oldest E)"
  shows "bt_get (first_seen_set E db ids last_sync) scid = (if first_entry E db ids last_sync scid \<noteq> None
     then Some ((case bt_get (announced_set E db ids) scid of None \<Rightarrow> channel_delta_default | Some d \<Rightarrow> d)\<lparr>cd_first_bidirectional_updates_seen :=
       first_entry E db ids last_sync scid\<rparr>) else bt_get (announced_set E db ids) scid)"
  unfolding first_seen_set_def first_entry_cases(2) [OF sc, symmetric]
  by (subst btree.get_fold_upd_same [where h = "\<lambda>d. d\<lparr>cd_first_bidirectional_updates_seen := first_entry E db ids last_sync scid\<rparr>"])
    (use stages_inv(1) first_entry_cases(1) [OF sc] in auto)

lemma get_reminded_set:
  "bt_get (reminded_set E db g last_sync current) scid =
     (let ds = first_seen_set E db (graph_channel_ids g) last_sync
      in if reminder_due E db (graph_channel_ids g) last_sync current scid
         then Some (remind g scid (case bt_get ds scid of None \<Rightarrow> channel_delta_default | Some d \<Rightarrow> d)) else bt_get ds scid)"
proof -
  have due: "reminder_due E db (graph_channel_ids g) last_sync current scid \<longleftrightarrow>
      (\<exists>r \<in> set (reminded_rows E db (graph_channel_ids g) last_sync current). cur_short_channel_id r = scid)"
    by (auto simp: reminded_rows_def reminder_due_def)
  show ?thesis unfolding reminded_set_def due Let_def
    by (subst btree.get_fold_upd_same [where h = "remind g scid"]) (use stages_inv(2) remind_idem in auto)
qed

lemma fetch_channel_announcements_spec:
  fixes now :: u64 and reference :: "u64 option"
  assumes ok: "lookup_ok E db" and time: "PRUNE_INTERVAL \<le> current"
    and current: "current = (case reference of Some t \<Rightarrow> t | None \<Rightarrow> now)"
  shows "\<exists>ds. fetch_channel_announcements E now db g last_sync reference [] = Inr ds \<and> bt_inv ds \<and>
    (\<forall>scid. bt_get ds scid = (let ids = graph_channel_ids g in
       if announcement_entry E db ids scid \<noteq> None \<or> first_entry E db ids last_sync scid \<noteq> None \<or>
         reminder_due E db ids last_sync current scid
       then Some (announced_delta E db g last_sync current scid) else None))"
proof (intro exI conjI allI)
  show "fetch_channel_announcements E now db g last_sync reference [] = Inr (reminded_set E db g last_sync current)"
    by (rule fetch_channel_announcements_stages [OF assms])
  show "bt_inv (reminded_set E db g last_sync current)" by (rule stages_inv)
  fix scid
  from ok have ann: "announcements_table_ok E db" and sc: "reorders (le_scan_oldest E)" "reorders (le_scan_newer_oldest E)"
    by (simp_all add: lookup_ok_def)
  have triv: "channel_delta_default\<lparr>cd_announcement := None\<rparr> = channel_delta_default"
    "d\<lparr>cd_first_bidirectional_updates_seen := None\<rparr> = d" if "cd_first_bidirectional_updates_seen d = None" for d
    using that by (cases d; simp add: channel_delta_default_def)+
  show "bt_get (reminded_set E db g last_sync current) scid = (let ids = graph_channel_ids g in
       if announcement_entry E db ids scid \<noteq> None \<or> first_entry E db ids last_sync scid \<noteq> None \<or>
         reminder_due E db ids last_sync current scid
       then Some (announced_delta E db g last_sync current scid) else None)"
    by (auto simp: get_reminded_set get_first_seen_set [OF sc] get_announced_set [OF ann] announced_delta_def triv
        channel_delta_default_def Let_def)
qed

end
