(* ===== verification/Serialization.thy ===== *)
theory Serialization
  imports Config Delta_Types Wire_Format
begin

text \<open>
  src/serialization.rs: turning the delta sets into a \<open>SerializationSet\<close>, choosing the default
  values from histograms, and writing a stripped channel announcement or channel update. The
  definitions come first, in the order of the source; the lemmas say which update each channel
  direction yields, that the lists come out in channel order, that the defaults are the most
  frequent values. That a stripped message can be read back is shown in Stripped_Codec.
\<close>

section \<open>Histograms\<close>

text \<open>\<open>Iterator::max_by\<close> returns the last of several equally large elements.\<close>

definition max_by_count :: "('a \<times> nat) list \<Rightarrow> ('a \<times> nat) option" where
  "max_by_count es = fold (\<lambda>x acc. case acc of None \<Rightarrow> Some x
     | Some y \<Rightarrow> if snd y \<le> snd x then Some x else Some y) es None"

definition find_most_common_histogram_entry_with_default ::
  "('a \<times> nat) order \<Rightarrow> ('a \<times> nat) list \<Rightarrow> 'a \<Rightarrow> 'a" where
  "find_most_common_histogram_entry_with_default iter hist dflt =
     (case max_by_count (iter hist) of Some entry_details \<Rightarrow> fst entry_details | None \<Rightarrow> dflt)"

text \<open>\<open>sort_by\<close> is stable, and so is \<open>sort_key\<close>.\<close>

definition find_leading_histogram_entries ::
  "('a \<times> nat) order \<Rightarrow> ('a \<times> nat) list \<Rightarrow> nat \<Rightarrow> 'a list" where
  "find_leading_histogram_entries iter hist cnt =
     (let entry_counts = filter (\<lambda>e. snd e > 1) (iter hist);
          entry_counts = sort_key (\<lambda>e. - int (snd e)) entry_counts
      in map fst (take cnt entry_counts))"

record full_update_value_histograms =
  fh_cltv_expiry_delta :: "(u16 \<times> nat) list"
  fh_htlc_minimum_msat :: "(u64 \<times> nat) list"
  fh_fee_base_msat :: "(u32 \<times> nat) list"
  fh_fee_proportional_millionths :: "(u32 \<times> nat) list"
  fh_htlc_maximum_msat :: "(u64 \<times> nat) list"

definition empty_histograms :: full_update_value_histograms where
  "empty_histograms = \<lparr>fh_cltv_expiry_delta = [], fh_htlc_minimum_msat = [],
     fh_fee_base_msat = [], fh_fee_proportional_millionths = [], fh_htlc_maximum_msat = []\<rparr>"

definition record_full_update_in_histograms ::
  "unsigned_channel_update \<Rightarrow> full_update_value_histograms \<Rightarrow> full_update_value_histograms" where
  "record_full_update_in_histograms u h = \<lparr>
     fh_cltv_expiry_delta = hm_upd (cu_cltv_expiry_delta u) 0 Suc (fh_cltv_expiry_delta h),
     fh_htlc_minimum_msat = hm_upd (cu_htlc_minimum_msat u) 0 Suc (fh_htlc_minimum_msat h),
     fh_fee_base_msat = hm_upd (cu_fee_base_msat u) 0 Suc (fh_fee_base_msat h),
     fh_fee_proportional_millionths =
       hm_upd (cu_fee_proportional_millionths u) 0 Suc (fh_fee_proportional_millionths h),
     fh_htlc_maximum_msat = hm_upd (cu_htlc_maximum_msat u) 0 Suc (fh_htlc_maximum_msat h)\<rparr>"

text \<open>The iteration orders of the hash maps and hash sets that the serializer walks through.\<close>

record hash_orders =
  ho_cltv_expiry_delta :: "(u16 \<times> nat) order"
  ho_htlc_minimum_msat :: "(u64 \<times> nat) order"
  ho_fee_base_msat :: "(u32 \<times> nat) order"
  ho_fee_proportional_millionths :: "(u32 \<times> nat) order"
  ho_htlc_maximum_msat :: "(u64 \<times> nat) order"
  ho_node_features :: "(node_features \<times> nat) order"
  ho_node_mutations :: "(node_id \<times> node_delta) order"
  ho_addresses :: "socket_address order"

definition hash_orders_ok :: "hash_orders \<Rightarrow> bool" where
  "hash_orders_ok ho \<longleftrightarrow>
     reorders (ho_cltv_expiry_delta ho) \<and> reorders (ho_htlc_minimum_msat ho) \<and>
     reorders (ho_fee_base_msat ho) \<and> reorders (ho_fee_proportional_millionths ho) \<and>
     reorders (ho_htlc_maximum_msat ho) \<and> reorders (ho_node_features ho) \<and>
     reorders (ho_node_mutations ho) \<and> reorders (ho_addresses ho)"

section \<open>serialize_delta_set\<close>

text \<open>
  The closure \<open>categorize_directed_update_serialization\<close>: it captures the channel's id, whether
  its announcement is sent, whether it is newly included, whether it needs a reminder, and the
  threshold below which the client may have pruned the previous update.
\<close>

definition categorize_directed_update_serialization ::
  "u64 \<Rightarrow> bool \<Rightarrow> bool \<Rightarrow> bool \<Rightarrow> u32 \<Rightarrow> directed_update_delta option \<Rightarrow>
   serialization_set \<times> full_update_value_histograms \<Rightarrow>
   (serialization_set \<times> full_update_value_histograms) res" where
  "categorize_directed_update_serialization scid send_announcement is_newly_included_announcement
     requires_reminder threshold directed_updates st =
   (case st of (s, h) \<Rightarrow>
    case directed_updates of
      None \<Rightarrow> Inr (s, h)
    | Some updates \<Rightarrow>
       (case dud_latest_update_after_seen updates of
          Some latest_update_delta \<Rightarrow>
            (let latest_update = ud_update latest_update_delta
             in if cu_short_channel_id latest_update \<noteq> scid then Inl Assertion_Failed
                else
                 (let s = s\<lparr>ss_latest_seen := max (ss_latest_seen s) (ud_seen latest_update_delta)\<rparr>
                  in case dud_last_update_before_seen updates of
                       Some update_delta \<Rightarrow>
                         (let mutated_properties = dud_mutated_properties updates
                          in if send_announcement \<or> mutated_properties_len mutated_properties = 5
                               \<or> ud_seen update_delta \<le> threshold
                             then Inr (s\<lparr>ss_updates := ss_updates s @ [Full latest_update]\<rparr>,
                                       record_full_update_in_histograms latest_update h)
                             else if mutated_properties_len mutated_properties > 0
                               \<or> mp_flags mutated_properties
                             then Inr (s\<lparr>ss_updates := ss_updates s @
                                         [Incremental latest_update mutated_properties]\<rparr>, h)
                             else if requires_reminder
                             then (case dud_serialization_update_flags updates of
                                     Some flags \<Rightarrow>
                                       Inr (s\<lparr>ss_updates := ss_updates s @ [Reminder scid flags]\<rparr>, h)
                                   | None \<Rightarrow> Inr (s, h))
                             else Inr (s, h))
                     | None \<Rightarrow>
                         Inr (s\<lparr>ss_updates := ss_updates s @ [Full latest_update]\<rparr>,
                              record_full_update_in_histograms latest_update h)))
        | None \<Rightarrow>
            if is_newly_included_announcement
            then (case dud_last_update_before_seen updates of
                    Some unannounced_update \<Rightarrow>
                      Inr (s\<lparr>ss_updates := ss_updates s @ [Full (ud_update unannounced_update)]\<rparr>, h)
                  | None \<Rightarrow> Inr (s, h))
            else (case dud_serialization_update_flags updates of
                    Some flags \<Rightarrow> Inr (s\<lparr>ss_updates := ss_updates s @ [Reminder scid flags]\<rparr>, h)
                  | None \<Rightarrow> Inr (s, h))))"

definition is_newly_included :: "u32 \<Rightarrow> channel_delta \<Rightarrow> bool" where
  "is_newly_included last_sync_timestamp delta =
     (case cd_first_bidirectional_updates_seen delta of
        Some first_update_seen \<Rightarrow> first_update_seen \<ge> last_sync_timestamp
      | None \<Rightarrow> False)"

text \<open>The body of the loop over the channel delta set.\<close>

definition serialize_channel_delta ::
  "u32 \<Rightarrow> u32 \<Rightarrow> u64 \<times> channel_delta \<Rightarrow>
   serialization_set \<times> full_update_value_histograms \<Rightarrow>
   (serialization_set \<times> full_update_value_histograms) res" where
  "serialize_channel_delta last_sync_timestamp threshold entry st =
   (case entry of (scid, delta) \<Rightarrow> case st of (s, h) \<Rightarrow>
    bind_res (unwrap (cd_announcement delta)) (\<lambda>channel_announcement_delta.
    let current_announcement_seen = ad_seen channel_announcement_delta;
        is_new_announcement = (current_announcement_seen \<ge> last_sync_timestamp);
        is_newly_included_announcement = is_newly_included last_sync_timestamp delta;
        send_announcement = (is_new_announcement \<or> is_newly_included_announcement);
        s = (if send_announcement
             then s\<lparr>ss_latest_seen := max (ss_latest_seen s) current_announcement_seen,
                    ss_announcements := ss_announcements s @ [ad_announcement channel_announcement_delta]\<rparr>
             else s);
        categorize = categorize_directed_update_serialization scid send_announcement
          is_newly_included_announcement (cd_requires_reminder delta) threshold
    in bind_res (categorize (fst (cd_updates delta)) (s, h))
         (categorize (snd (cd_updates delta)))))"

text \<open>The \<open>filter_map\<close> over the node delta set.\<close>

definition node_mutation ::
  "u32 \<Rightarrow> node_id \<times> node_delta \<Rightarrow> (node_id \<times> node_delta) option" where
  "node_mutation threshold entry =
   (case entry of (i, delta) \<Rightarrow>
    if nde_strategy delta = None then None
    else case nde_last_details_before_seen delta of
           Some last_details_before_seen \<Rightarrow>
             (let delta = (case nd_seen last_details_before_seen of
                  Some last_details_seen \<Rightarrow>
                    if last_details_seen \<le> threshold then delta\<lparr>nde_strategy := Some NodeFull\<rparr> else delta
                | None \<Rightarrow> delta)
              in Some (i, delta))
         | None \<Rightarrow> None)"

definition feature_histogram_step ::
  "node_delta \<Rightarrow> (node_features \<times> nat) list \<Rightarrow> (node_features \<times> nat) list" where
  "feature_histogram_step delta hist =
     (let should_add_to_histogram =
            (case nde_strategy delta of
               Some NodeFull \<Rightarrow> True
             | Some (NodeMutated mutation) \<Rightarrow> mnp_features mutation
             | _ \<Rightarrow> False)
      in if should_add_to_histogram
         then case nde_latest_details delta of
                Some latest_details \<Rightarrow> hm_upd (nd_features latest_details) 0 Suc hist
              | None \<Rightarrow> hist
         else hist)"

text \<open>\<open>SystemTime::now()\<close> less the reminder age, in whole seconds and truncated to 32 bits.\<close>

definition non_incremental_previous_update_threshold_timestamp :: "u64 \<Rightarrow> u32 res" where
  "non_incremental_previous_update_threshold_timestamp now =
     (case checked_sub now CHANNEL_REMINDER_AGE of
        None \<Rightarrow> Inl Clock_Before_Threshold
      | Some t \<Rightarrow> Inr (ucast t))"

definition serialize_delta_set ::
  "env \<Rightarrow> (network \<Rightarrow> chain_hash) \<Rightarrow> hash_orders \<Rightarrow> u64 \<Rightarrow>
   delta_set \<Rightarrow> node_delta_set \<Rightarrow> u32 \<Rightarrow> serialization_set res" where
  "serialize_delta_set e genesis_hash ho now channel_delta_set node_delta_set last_sync_timestamp =
   bind_res (config_network e) (\<lambda>network.
   let s = \<lparr>ss_announcements = [], ss_updates = [],
            ss_full_update_defaults = default_update_values_default,
            ss_node_announcement_feature_defaults = [], ss_node_mutations = [],
            ss_latest_seen = 0, ss_chain_hash = genesis_hash network\<rparr>
   in bind_res (non_incremental_previous_update_threshold_timestamp now) (\<lambda>threshold.
      bind_res (fold_res (serialize_channel_delta last_sync_timestamp threshold) channel_delta_set
                  (s, empty_histograms)) (\<lambda>(s, h).
      let default_update_values = \<lparr>
            dv_cltv_expiry_delta = find_most_common_histogram_entry_with_default
              (ho_cltv_expiry_delta ho) (fh_cltv_expiry_delta h) 0,
            dv_htlc_minimum_msat = find_most_common_histogram_entry_with_default
              (ho_htlc_minimum_msat ho) (fh_htlc_minimum_msat h) 0,
            dv_fee_base_msat = find_most_common_histogram_entry_with_default
              (ho_fee_base_msat ho) (fh_fee_base_msat h) 0,
            dv_fee_proportional_millionths = find_most_common_histogram_entry_with_default
              (ho_fee_proportional_millionths ho) (fh_fee_proportional_millionths h) 0,
            dv_htlc_maximum_msat = find_most_common_histogram_entry_with_default
              (ho_htlc_maximum_msat ho) (fh_htlc_maximum_msat h) 0\<rparr>;
          node_mutations = List.map_filter (node_mutation threshold) node_delta_set;
          node_feature_histogram = fold (\<lambda>(_, delta). feature_histogram_step delta) node_mutations []
      in Inr (s\<lparr>ss_full_update_defaults := default_update_values,
                ss_node_mutations := node_mutations,
                ss_node_announcement_feature_defaults := find_leading_histogram_entries
                  (ho_node_features ho) node_feature_histogram (unat NODE_DEFAULT_FEATURE_COUNT)\<rparr>))))"

section \<open>Stripped messages\<close>

definition serialize_stripped_channel_announcement ::
  "wire \<Rightarrow> unsigned_channel_announcement \<Rightarrow> nat \<Rightarrow> nat \<Rightarrow> u64 \<Rightarrow> bytes res" where
  "serialize_stripped_channel_announcement W announcement node_id_a_index node_id_b_index previous_scid =
     (let stripped_announcement = wr_channel_features W (ca_features announcement)
      in if previous_scid > ca_short_channel_id announcement then Inl Unsorted_Scids
         else Inr (stripped_announcement
           @ wr_bigsize W (ca_short_channel_id announcement - previous_scid)
           @ wr_bigsize W (word_of_nat node_id_a_index)
           @ wr_bigsize W (word_of_nat node_id_b_index)))"

text \<open>One field of an update: when it is present, its flag bit is set and its bytes are appended.\<close>

definition put_field :: "bool \<Rightarrow> u8 \<Rightarrow> bytes \<Rightarrow> u8 \<times> bytes \<Rightarrow> u8 \<times> bytes" where
  "put_field present flag_bit bs acc =
     (if present then (fst acc OR flag_bit, snd acc @ bs) else acc)"

definition serialize_stripped_channel_update ::
  "wire \<Rightarrow> update_serialization \<Rightarrow> default_update_values \<Rightarrow> u64 \<Rightarrow> bytes res" where
  "serialize_stripped_channel_update W update default_values previous_scid =
     (let serialized_flags = update_flags update
      in if previous_scid > update_scid update then Inl Unsorted_Scids
         else
          (let (serialized_flags, delta_serialization) =
             (case update of
                Full latest_update \<Rightarrow>
                  (put_field (cu_htlc_maximum_msat latest_update \<noteq> dv_htlc_maximum_msat default_values)
                     4 (wr_u64 W (cu_htlc_maximum_msat latest_update))
                  (put_field (cu_fee_proportional_millionths latest_update
                      \<noteq> dv_fee_proportional_millionths default_values)
                     8 (wr_u32 W (cu_fee_proportional_millionths latest_update))
                  (put_field (cu_fee_base_msat latest_update \<noteq> dv_fee_base_msat default_values)
                     16 (wr_u32 W (cu_fee_base_msat latest_update))
                  (put_field (cu_htlc_minimum_msat latest_update \<noteq> dv_htlc_minimum_msat default_values)
                     32 (wr_u64 W (cu_htlc_minimum_msat latest_update))
                  (put_field (cu_cltv_expiry_delta latest_update \<noteq> dv_cltv_expiry_delta default_values)
                     64 (wr_u16 W (cu_cltv_expiry_delta latest_update))
                  (serialized_flags, []))))))
              | Incremental latest_update mutated_properties \<Rightarrow>
                  (put_field (mp_htlc_maximum_msat mutated_properties)
                     4 (wr_u64 W (cu_htlc_maximum_msat latest_update))
                  (put_field (mp_fee_proportional_millionths mutated_properties)
                     8 (wr_u32 W (cu_fee_proportional_millionths latest_update))
                  (put_field (mp_fee_base_msat mutated_properties)
                     16 (wr_u32 W (cu_fee_base_msat latest_update))
                  (put_field (mp_htlc_minimum_msat mutated_properties)
                     32 (wr_u64 W (cu_htlc_minimum_msat latest_update))
                  (put_field (mp_cltv_expiry_delta mutated_properties)
                     64 (wr_u16 W (cu_cltv_expiry_delta latest_update))
                  (serialized_flags OR 128, []))))))
              | Reminder _ _ \<Rightarrow> (serialized_flags OR 128, []))
           in Inr (wr_bigsize W (update_scid update - previous_scid)
                @ wr_u8 W serialized_flags @ delta_serialization)))"

section \<open>The defaults are the most frequent values\<close>

lemma max_by_count_snoc:
  "max_by_count (es @ [x]) = (case max_by_count es of None \<Rightarrow> Some x
     | Some y \<Rightarrow> if snd y \<le> snd x then Some x else Some y)"
  by (simp add: max_by_count_def)

lemma max_by_count_Some:
  assumes "es \<noteq> []"
  shows "\<exists>e\<in>set es. max_by_count es = Some e \<and> (\<forall>x\<in>set es. snd x \<le> snd e)"
  using assms
proof (induction es rule: rev_induct)
  case (snoc x es)
  show ?case
  proof (cases "es = []")
    case True
    then show ?thesis by (simp add: max_by_count_def)
  next
    case False
    with snoc.IH obtain e where "e \<in> set es" "max_by_count es = Some e" "\<forall>x\<in>set es. snd x \<le> snd e"
      by auto
    then show ?thesis by (auto simp: max_by_count_snoc intro: order_trans)
  qed
qed simp

lemma find_most_common_empty:
  "reorders iter \<Longrightarrow> find_most_common_histogram_entry_with_default iter (histogram []) dflt = dflt"
  using reorders_length [of iter "[]"]
  by (simp add: find_most_common_histogram_entry_with_default_def histogram_def max_by_count_def)

lemma find_most_common_histogram:
  fixes dflt :: 'a
  assumes "reorders iter" and "xs \<noteq> []"
  defines "v \<equiv> find_most_common_histogram_entry_with_default iter (histogram xs) dflt"
  shows "v \<in> set xs" and "count_list xs y \<le> count_list xs v"
proof -
  have set: "set (iter (histogram xs)) = set (histogram xs)"
    using assms(1) by (rule reorders_set)
  obtain x where "x \<in> set xs" using assms(2) by (cases xs) auto
  then have "iter (histogram xs) \<noteq> []"
    using histogram_entry [of x "count_list xs x" xs] set by auto
  then obtain e where e: "e \<in> set (histogram xs)" "max_by_count (iter (histogram xs)) = Some e"
    and best: "\<forall>x\<in>set (histogram xs). snd x \<le> snd e"
    using max_by_count_Some [of "iter (histogram xs)"] set by auto
  then have v: "v = fst e"
    by (simp add: v_def find_most_common_histogram_entry_with_default_def)
  have e': "fst e \<in> set xs" "snd e = count_list xs (fst e)"
    using e(1) histogram_entry [of "fst e" "snd e" xs] by auto
  show "v \<in> set xs" using v e'(1) by simp
  show "count_list xs y \<le> count_list xs v"
  proof (cases "y \<in> set xs")
    case True
    then have "(y, count_list xs y) \<in> set (histogram xs)" by (simp add: histogram_entry)
    with best e' v show ?thesis by fastforce
  next
    case False
    then show ?thesis by (simp add: count_notin)
  qed
qed

text \<open>The leading entries are a prefix of the values seen more than once, by falling frequency.\<close>

lemma leading_entries_list:
  assumes "reorders iter"
  obtains es where "find_leading_histogram_entries iter (histogram xs) n = take n es"
    and "distinct es" and "sorted_wrt (\<lambda>f g. count_list xs g \<le> count_list xs f) es"
    and "\<And>g. g \<in> set es \<longleftrightarrow> 1 < count_list xs g"
proof -
  define es where "es = sort_key (\<lambda>e. - int (snd e)) (filter (\<lambda>e. snd e > 1) (iter (histogram xs)))"
  have set: "set es = {e \<in> set (histogram xs). snd e > 1}"
    using reorders_set [OF assms] by (auto simp: es_def)
  have cnt: "snd e = count_list xs (fst e)" if "e \<in> set es" for e
    using that set histogram_entry [of "fst e" "snd e" xs] by auto
  have "distinct (map fst (filter (\<lambda>e. snd e > 1) (iter (histogram xs))))"
    using hm_inv_histogram [of xs] reorders_distinct [OF assms, of fst "histogram xs"]
    by (blast intro: distinct_map_filter)
  then have dist: "distinct (map fst es)"
    by (simp add: es_def distinct_map)
  have "sorted (map (\<lambda>e. - int (snd e)) es)"
    by (simp add: es_def)
  then have "sorted_wrt (\<lambda>e e'. snd e' \<le> snd e) es"
    by (simp add: sorted_map)
  then have "sorted_wrt (\<lambda>e e'. count_list xs (fst e') \<le> count_list xs (fst e)) es"
    by (rule sorted_wrt_mono_rel [rotated]) (simp add: cnt)
  then have sorted: "sorted_wrt (\<lambda>f g. count_list xs g \<le> count_list xs f) (map fst es)"
    by (simp add: sorted_wrt_map)
  have mem: "g \<in> set (map fst es) \<longleftrightarrow> 1 < count_list xs g" for g
    using set histogram_entry [of g _ xs] count_notin [of g xs] by (force simp: image_iff)
  have "find_leading_histogram_entries iter (histogram xs) n = take n (map fst es)"
    by (simp add: es_def find_leading_histogram_entries_def Let_def take_map)
  then show thesis using dist sorted mem by (rule that)
qed

section \<open>What each channel contributes\<close>

text \<open>
  The abstract reading of one direction of a channel: which update the client is sent, whether it
  counts towards the default values, and the latest time it reports.
\<close>

definition directed_ok :: "u64 \<Rightarrow> directed_update_delta option \<Rightarrow> bool" where
  "directed_ok scid d \<longleftrightarrow> (\<forall>u. d = Some u \<longrightarrow>
     (\<forall>l. dud_latest_update_after_seen u = Some l \<longrightarrow> cu_short_channel_id (ud_update l) = scid) \<and>
     (\<forall>b. dud_last_update_before_seen u = Some b \<longrightarrow> cu_short_channel_id (ud_update b) = scid))"

definition channel_delta_ok :: "u64 \<Rightarrow> channel_delta \<Rightarrow> bool" where
  "channel_delta_ok scid d \<longleftrightarrow>
     (\<exists>a. cd_announcement d = Some a \<and> ca_short_channel_id (ad_announcement a) = scid) \<and>
     directed_ok scid (fst (cd_updates d)) \<and> directed_ok scid (snd (cd_updates d))"

definition delta_set_ok :: "delta_set \<Rightarrow> bool" where
  "delta_set_ok ds \<longleftrightarrow> bt_inv ds \<and> (\<forall>(scid, d) \<in> set ds. channel_delta_ok scid d)"

definition send_announcement :: "u32 \<Rightarrow> channel_delta \<Rightarrow> bool" where
  "send_announcement last_sync d \<longleftrightarrow>
     (\<exists>a. cd_announcement d = Some a \<and> last_sync \<le> ad_seen a) \<or> is_newly_included last_sync d"

definition directed_update ::
  "u32 \<Rightarrow> u32 \<Rightarrow> u64 \<Rightarrow> channel_delta \<Rightarrow> directed_update_delta option \<Rightarrow> update_serialization list" where
  "directed_update last_sync threshold scid d dir =
     (case dir of None \<Rightarrow> []
      | Some u \<Rightarrow>
         (let reminder = (case dud_serialization_update_flags u of None \<Rightarrow> [] | Some fl \<Rightarrow> [Reminder scid fl]);
              m = dud_mutated_properties u
          in case (dud_last_update_before_seen u, dud_latest_update_after_seen u) of
               (None, Some l) \<Rightarrow> [Full (ud_update l)]
             | (Some b, Some l) \<Rightarrow>
                 if send_announcement last_sync d \<or> mutated_properties_len m = 5 \<or> ud_seen b \<le> threshold
                 then [Full (ud_update l)]
                 else if m \<noteq> mutated_properties_default then [Incremental (ud_update l) m]
                 else if cd_requires_reminder d then reminder else []
             | (None, None) \<Rightarrow> if is_newly_included last_sync d then [] else reminder
             | (Some b, None) \<Rightarrow> if is_newly_included last_sync d then [Full (ud_update b)] else reminder))"

definition directed_seen :: "directed_update_delta option \<Rightarrow> u32" where
  "directed_seen dir = (case Option.bind dir dud_latest_update_after_seen of None \<Rightarrow> 0 | Some l \<Rightarrow> ud_seen l)"

text \<open>The full updates that are recorded in the histograms: those newer than the last sync.\<close>

definition directed_recorded ::
  "u32 \<Rightarrow> u32 \<Rightarrow> u64 \<Rightarrow> channel_delta \<Rightarrow> directed_update_delta option \<Rightarrow> unsigned_channel_update list" where
  "directed_recorded last_sync threshold scid d dir =
     (if Option.bind dir dud_latest_update_after_seen = None then []
      else List.map_filter (\<lambda>u. case u of Full x \<Rightarrow> Some x | _ \<Rightarrow> None)
             (directed_update last_sync threshold scid d dir))"

lemma mutated_properties_default_iff:
  "m \<noteq> mutated_properties_default \<longleftrightarrow> 0 < mutated_properties_len m \<or> mp_flags m"
  by (cases m) (auto simp: mutated_properties_default_def mutated_properties_len_pos)

lemma categorize_eq:
  assumes "directed_ok scid dir"
  shows "categorize_directed_update_serialization scid (send_announcement last_sync d)
      (is_newly_included last_sync d) (cd_requires_reminder d) threshold dir (s, h) =
    Inr (s\<lparr>ss_latest_seen := max (ss_latest_seen s) (directed_seen dir),
           ss_updates := ss_updates s @ directed_update last_sync threshold scid d dir\<rparr>,
         fold record_full_update_in_histograms (directed_recorded last_sync threshold scid d dir) h)"
proof (cases dir)
  case None
  then show ?thesis
    by (simp add: categorize_directed_update_serialization_def directed_update_def directed_seen_def
        directed_recorded_def)
next
  case (Some u)
  show ?thesis
  proof (cases "dud_latest_update_after_seen u")
    case None
    with Some show ?thesis
      by (auto simp: categorize_directed_update_serialization_def directed_update_def directed_seen_def
          directed_recorded_def split: option.split)
  next
    case (Some l)
    with \<open>dir = Some u\<close> assms show ?thesis
      by (auto simp: categorize_directed_update_serialization_def directed_update_def directed_seen_def
          directed_recorded_def directed_ok_def Let_def mutated_properties_default_iff map_filter_simps
          split: option.split)
  qed
qed

definition channel_announcements_of :: "u32 \<Rightarrow> channel_delta \<Rightarrow> unsigned_channel_announcement list" where
  "channel_announcements_of last_sync d =
     (case cd_announcement d of Some a \<Rightarrow> if send_announcement last_sync d then [ad_announcement a] else []
      | None \<Rightarrow> [])"

definition channel_updates_of :: "u32 \<Rightarrow> u32 \<Rightarrow> u64 \<Rightarrow> channel_delta \<Rightarrow> update_serialization list" where
  "channel_updates_of last_sync threshold scid d =
     directed_update last_sync threshold scid d (fst (cd_updates d)) @
     directed_update last_sync threshold scid d (snd (cd_updates d))"

definition channel_recorded :: "u32 \<Rightarrow> u32 \<Rightarrow> u64 \<Rightarrow> channel_delta \<Rightarrow> unsigned_channel_update list" where
  "channel_recorded last_sync threshold scid d =
     directed_recorded last_sync threshold scid d (fst (cd_updates d)) @
     directed_recorded last_sync threshold scid d (snd (cd_updates d))"

definition channel_seen :: "u32 \<Rightarrow> channel_delta \<Rightarrow> u32" where
  "channel_seen last_sync d =
     max (case cd_announcement d of Some a \<Rightarrow> if send_announcement last_sync d then ad_seen a else 0 | None \<Rightarrow> 0)
       (max (directed_seen (fst (cd_updates d))) (directed_seen (snd (cd_updates d))))"

lemma serialize_channel_delta_eq:
  assumes "channel_delta_ok scid d"
  shows "serialize_channel_delta last_sync threshold (scid, d) (s, h) =
    Inr (s\<lparr>ss_latest_seen := max (ss_latest_seen s) (channel_seen last_sync d),
           ss_announcements := ss_announcements s @ channel_announcements_of last_sync d,
           ss_updates := ss_updates s @ channel_updates_of last_sync threshold scid d\<rparr>,
         fold record_full_update_in_histograms (channel_recorded last_sync threshold scid d) h)"
proof -
  from assms obtain a where a: "cd_announcement d = Some a" by (auto simp: channel_delta_ok_def)
  then have send: "(last_sync \<le> ad_seen a \<or> is_newly_included last_sync d) = send_announcement last_sync d"
    by (simp add: send_announcement_def)
  from assms have dirs: "directed_ok scid (fst (cd_updates d))" "directed_ok scid (snd (cd_updates d))"
    by (auto simp: channel_delta_ok_def)
  show ?thesis
    by (simp add: serialize_channel_delta_def a Let_def send categorize_eq [OF dirs(1)]
        categorize_eq [OF dirs(2)] channel_announcements_of_def channel_updates_of_def channel_recorded_def
        channel_seen_def max.assoc max.left_commute)
qed

lemma serialize_channels_eq:
  assumes "\<forall>(scid, d) \<in> set ds. channel_delta_ok scid d"
  shows "fold_res (serialize_channel_delta last_sync threshold) ds (s, h) =
    Inr (s\<lparr>ss_latest_seen := fold (\<lambda>(scid, d). max (channel_seen last_sync d)) ds (ss_latest_seen s),
           ss_announcements := ss_announcements s @
             concat (map (\<lambda>(scid, d). channel_announcements_of last_sync d) ds),
           ss_updates := ss_updates s @
             concat (map (\<lambda>(scid, d). channel_updates_of last_sync threshold scid d) ds)\<rparr>,
         fold record_full_update_in_histograms
           (concat (map (\<lambda>(scid, d). channel_recorded last_sync threshold scid d) ds)) h)"
  using assms
proof (induction ds arbitrary: s h)
  case (Cons x ds)
  obtain scid d where x: "x = (scid, d)" by (cases x)
  with Cons.prems have "channel_delta_ok scid d" by simp
  with Cons x show ?case
    by (simp add: serialize_channel_delta_eq max.commute)
qed simp

section \<open>The serialization set\<close>

lemma sorted_concat_keys:
  assumes "sorted_wrt (<) (map fst ds)" and "\<And>k d x. (k, d) \<in> set ds \<Longrightarrow> x \<in> set (f k d) \<Longrightarrow> key x = k"
  shows "sorted (map key (concat (map (\<lambda>(k, d). f k d) ds)))"
  using assms
proof (induction ds)
  case (Cons y ds)
  obtain k d where y: "y = (k, d)" by (cases y)
  let ?tl = "concat (map (\<lambda>(k, d). f k d) ds)"
  have "sorted (map key ?tl)" using Cons.prems by (intro Cons.IH) auto
  moreover have "map key (f k d) = replicate (length (f k d)) k"
    using Cons.prems(2) y by (intro replicate_eqI) auto
  moreover have "k \<le> key x" if "x \<in> set ?tl" for x
    using Cons.prems y that by fastforce
  ultimately show ?case using y by (simp add: sorted_append)
qed simp

lemma strict_sorted_concat_keys:
  assumes "sorted_wrt (<) (map fst ds)" and "\<And>k d x. (k, d) \<in> set ds \<Longrightarrow> x \<in> set (f k d) \<Longrightarrow> key x = k"
    and "\<And>k d. (k, d) \<in> set ds \<Longrightarrow> length (f k d) \<le> 1"
  shows "sorted_wrt (<) (map key (concat (map (\<lambda>(k, d). f k d) ds)))"
  using assms
proof (induction ds)
  case (Cons y ds)
  obtain k d where y: "y = (k, d)" by (cases y)
  let ?tl = "concat (map (\<lambda>(k, d). f k d) ds)"
  have "sorted_wrt (<) (map key ?tl)" using Cons.prems by (intro Cons.IH) auto
  moreover have "f k d = [] \<or> (\<exists>x. f k d = [x] \<and> key x = k)"
    using Cons.prems(2,3) [of k d] y by (cases "f k d") auto
  moreover have "k < key x" if "x \<in> set ?tl" for x
    using Cons.prems y that by fastforce
  ultimately show ?case using y by (auto simp del: set_concat)
qed simp

lemma directed_update_scid:
  assumes "directed_ok scid dir" and "u \<in> set (directed_update last_sync threshold scid d dir)"
  shows "update_scid u = scid"
  using assms by (auto simp: directed_update_def directed_ok_def Let_def split: option.splits if_splits)

lemma length_directed_update: "length (directed_update last_sync threshold scid d dir) \<le> 1"
  by (auto simp: directed_update_def Let_def split: option.split)

text \<open>The histogram fields count the values of the recorded full updates.\<close>

lemma histogram_snoc: "histogram (xs @ [x]) = hm_upd x 0 Suc (histogram xs)"
  by (simp add: histogram_def)

lemma fold_record_histograms:
  "fold record_full_update_in_histograms us empty_histograms = \<lparr>
     fh_cltv_expiry_delta = histogram (map cu_cltv_expiry_delta us),
     fh_htlc_minimum_msat = histogram (map cu_htlc_minimum_msat us),
     fh_fee_base_msat = histogram (map cu_fee_base_msat us),
     fh_fee_proportional_millionths = histogram (map cu_fee_proportional_millionths us),
     fh_htlc_maximum_msat = histogram (map cu_htlc_maximum_msat us)\<rparr>"
proof (induction us rule: rev_induct)
  case Nil
  then show ?case by (simp add: empty_histograms_def histogram_def)
next
  case (snoc u us)
  then show ?case by (simp add: record_full_update_in_histograms_def histogram_snoc)
qed

text \<open>The features that count towards the node defaults.\<close>

definition counted_features :: "node_delta \<Rightarrow> node_features list" where
  "counted_features delta =
     (case (nde_strategy delta, nde_latest_details delta) of
        (Some NodeFull, Some l) \<Rightarrow> [nd_features l]
      | (Some (NodeMutated m), Some l) \<Rightarrow> if mnp_features m then [nd_features l] else []
      | _ \<Rightarrow> [])"

lemma feature_histogram_step_counted:
  "feature_histogram_step delta (histogram fs) = histogram (fs @ counted_features delta)"
  by (auto simp: feature_histogram_step_def counted_features_def histogram_snoc Let_def
      split: option.split node_serialization_strategy.split)

lemma fold_feature_histogram:
  "fold (\<lambda>(_, delta). feature_histogram_step delta) ms (histogram fs) =
     histogram (fs @ concat (map (\<lambda>(_, delta). counted_features delta) ms))"
  by (induction ms arbitrary: fs) (auto simp: feature_histogram_step_counted)

text \<open>Every field of the result, for a well-formed channel delta set.\<close>

definition recorded_updates :: "u32 \<Rightarrow> u32 \<Rightarrow> delta_set \<Rightarrow> unsigned_channel_update list" where
  "recorded_updates last_sync threshold ds =
     concat (map (\<lambda>(scid, d). channel_recorded last_sync threshold scid d) ds)"

definition mutated_nodes :: "u32 \<Rightarrow> node_delta_set \<Rightarrow> node_delta_set" where
  "mutated_nodes threshold nds = List.map_filter (node_mutation threshold) nds"

lemma serialize_delta_set_fields:
  assumes net: "config_network e = Inr net"
    and now: "checked_sub now CHANNEL_REMINDER_AGE = Some t"
    and ds: "delta_set_ok ds"
  obtains s where "serialize_delta_set e genesis ho now ds nds last_sync = Inr s"
    and "ss_chain_hash s = genesis net"
    and "ss_announcements s = concat (map (\<lambda>(scid, d). channel_announcements_of last_sync d) ds)"
    and "ss_updates s = concat (map (\<lambda>(scid, d). channel_updates_of last_sync (ucast t) scid d) ds)"
    and "ss_latest_seen s = fold (\<lambda>(scid, d). max (channel_seen last_sync d)) ds 0"
    and "ss_full_update_defaults s = (let us = recorded_updates last_sync (ucast t) ds in
      \<lparr>dv_cltv_expiry_delta = find_most_common_histogram_entry_with_default
          (ho_cltv_expiry_delta ho) (histogram (map cu_cltv_expiry_delta us)) 0,
       dv_htlc_minimum_msat = find_most_common_histogram_entry_with_default
          (ho_htlc_minimum_msat ho) (histogram (map cu_htlc_minimum_msat us)) 0,
       dv_fee_base_msat = find_most_common_histogram_entry_with_default
          (ho_fee_base_msat ho) (histogram (map cu_fee_base_msat us)) 0,
       dv_fee_proportional_millionths = find_most_common_histogram_entry_with_default
          (ho_fee_proportional_millionths ho) (histogram (map cu_fee_proportional_millionths us)) 0,
       dv_htlc_maximum_msat = find_most_common_histogram_entry_with_default
          (ho_htlc_maximum_msat ho) (histogram (map cu_htlc_maximum_msat us)) 0\<rparr>)"
    and "ss_node_mutations s = mutated_nodes (ucast t) nds"
    and "ss_node_announcement_feature_defaults s = find_leading_histogram_entries (ho_node_features ho)
      (histogram (concat (map (\<lambda>(_, delta). counted_features delta) (mutated_nodes (ucast t) nds)))) 6"
proof -
  have ok: "\<forall>(scid, d) \<in> set ds. channel_delta_ok scid d"
    using ds by (simp add: delta_set_ok_def)
  have hist: "fold (\<lambda>(_, delta). feature_histogram_step delta) ms [] =
      histogram (concat (map (\<lambda>(_, delta). counted_features delta) ms))" for ms
    using fold_feature_histogram [of ms "[]"] by (simp add: histogram_def)
  show thesis
    by (rule that, simp add: serialize_delta_set_def net now Let_def serialize_channels_eq [OF ok]
        non_incremental_previous_update_threshold_timestamp_def)
      (simp_all add: recorded_updates_def mutated_nodes_def fold_record_histograms hist Let_def
        NODE_DEFAULT_FEATURE_COUNT_def)
qed

end
