(* ===== verification/Stripped_Codec.thy ===== *)
theory Stripped_Codec
  imports Serialization "HOL-Library.Monad_Syntax"
begin

text \<open>
  Reading back what \<open>serialize_stripped_channel_announcement\<close> and
  \<open>serialize_stripped_channel_update\<close> of src/serialization.rs write. The readers are the
  reference of the format; both writers are shown to be streams in the sense of the locale
  \<open>stream_codec\<close>, so whole sequences of messages can be read back as well.
\<close>

section \<open>Reading stripped updates\<close>

text \<open>
  The reader of the snapshot format, as the reference for the writer: an incremental update
  carries only the fields whose flag bit is set, a full update takes the missing ones from the
  defaults.
\<close>

record wire_update =
  wu_scid :: u64
  wu_flags :: u8
  wu_incremental :: bool
  wu_cltv_expiry_delta :: "u16 option"
  wu_htlc_minimum_msat :: "u64 option"
  wu_fee_base_msat :: "u32 option"
  wu_fee_proportional_millionths :: "u32 option"
  wu_htlc_maximum_msat :: "u64 option"

definition read_field :: "bool \<Rightarrow> 'a option \<Rightarrow> 'a reader \<Rightarrow> 'a option reader" where
  "read_field present absent r bs =
     (if present then map_option (\<lambda>(x, rest). (Some x, rest)) (r bs) else Some (absent, bs))"

definition decode_update :: "wire_reader \<Rightarrow> default_update_values \<Rightarrow> u64 \<Rightarrow> wire_update reader" where
  "decode_update R dv previous_scid bs = do {
     (scid_delta, bs) \<leftarrow> rd_bigsize R bs;
     (fl, bs) \<leftarrow> rd_u8 R bs;
     let absent = (\<lambda>v. if bit fl 7 then None else Some v);
     (cltv, bs) \<leftarrow> read_field (bit fl 6) (if bit fl 7 then None else Some (dv_cltv_expiry_delta dv)) (rd_u16 R) bs;
     (hmin, bs) \<leftarrow> read_field (bit fl 5) (absent (dv_htlc_minimum_msat dv)) (rd_u64 R) bs;
     (base, bs) \<leftarrow> read_field (bit fl 4) (if bit fl 7 then None else Some (dv_fee_base_msat dv)) (rd_u32 R) bs;
     (prop, bs) \<leftarrow> read_field (bit fl 3) (if bit fl 7 then None else Some (dv_fee_proportional_millionths dv)) (rd_u32 R) bs;
     (hmax, bs) \<leftarrow> read_field (bit fl 2) (absent (dv_htlc_maximum_msat dv)) (rd_u64 R) bs;
     Some (\<lparr>wu_scid = previous_scid + scid_delta, wu_flags = fl AND 3, wu_incremental = bit fl 7,
       wu_cltv_expiry_delta = cltv, wu_htlc_minimum_msat = hmin, wu_fee_base_msat = base,
       wu_fee_proportional_millionths = prop, wu_htlc_maximum_msat = hmax\<rparr>, bs)
   }"

text \<open>What the client is meant to see.\<close>

fun update_view :: "update_serialization \<Rightarrow> wire_update" where
  "update_view (Full u) = \<lparr>wu_scid = cu_short_channel_id u, wu_flags = cu_channel_flags u,
     wu_incremental = False, wu_cltv_expiry_delta = Some (cu_cltv_expiry_delta u),
     wu_htlc_minimum_msat = Some (cu_htlc_minimum_msat u), wu_fee_base_msat = Some (cu_fee_base_msat u),
     wu_fee_proportional_millionths = Some (cu_fee_proportional_millionths u),
     wu_htlc_maximum_msat = Some (cu_htlc_maximum_msat u)\<rparr>"
| "update_view (Incremental u m) = \<lparr>wu_scid = cu_short_channel_id u, wu_flags = cu_channel_flags u,
     wu_incremental = True,
     wu_cltv_expiry_delta = (if mp_cltv_expiry_delta m then Some (cu_cltv_expiry_delta u) else None),
     wu_htlc_minimum_msat = (if mp_htlc_minimum_msat m then Some (cu_htlc_minimum_msat u) else None),
     wu_fee_base_msat = (if mp_fee_base_msat m then Some (cu_fee_base_msat u) else None),
     wu_fee_proportional_millionths =
       (if mp_fee_proportional_millionths m then Some (cu_fee_proportional_millionths u) else None),
     wu_htlc_maximum_msat = (if mp_htlc_maximum_msat m then Some (cu_htlc_maximum_msat u) else None)\<rparr>"
| "update_view (Reminder scid fl) = \<lparr>wu_scid = scid, wu_flags = fl, wu_incremental = True,
     wu_cltv_expiry_delta = None, wu_htlc_minimum_msat = None, wu_fee_base_msat = None,
     wu_fee_proportional_millionths = None, wu_htlc_maximum_msat = None\<rparr>"

text \<open>The format leaves two bits for the direction and disable flags.\<close>

definition update_writable :: "u64 \<Rightarrow> update_serialization \<Rightarrow> bool" where
  "update_writable previous_scid u \<longleftrightarrow> previous_scid \<le> update_scid u \<and> update_flags u AND 252 = 0"

lemma bit_252: "n < 8 \<Longrightarrow> bit (252 :: u8) n \<longleftrightarrow> 2 \<le> n"
  by (auto simp: less_Suc_eq numeral_eq_Suc bit_Suc)

lemma two_bit_flags:
  fixes f :: u8
  assumes "f AND 252 = 0"
  shows "2 \<le> n \<Longrightarrow> \<not> bit f n" and "f AND 3 = f"
proof -
  show high: "\<not> bit f n" if "2 \<le> n" for n
  proof (cases "n < 8")
    case True
    have "\<not> bit (f AND 252) n" unfolding assms by simp
    with bit_252 [OF True] that show ?thesis by (simp add: bit_and_iff)
  qed (auto dest: bit_imp_le_length)
  have "f AND mask 2 = f"
    by (rule bit_word_eqI) (use high in \<open>auto simp: bit_simps intro: leI ccontr\<close>)
  then show "f AND 3 = f" by (simp add: mask_numeral)
qed

lemma fst_put_field: "fst (put_field c m b acc) = fst acc OR (if c then m else 0)"
  and snd_put_field: "snd (put_field c m b acc) = snd acc @ (if c then b else [])"
  by (simp_all add: put_field_def)

lemma bit_mask_if: "bit (if c then m else 0 :: u8) n \<longleftrightarrow> c \<and> bit m n"
  and and_mask_if: "(if c then m else 0 :: u8) AND k = (if c then m AND k else 0)"
  by simp_all

lemma read_field_written:
  assumes "\<And>rest. r (w @ rest) = Some (v, rest)"
  shows "read_field c a r ((if c then w else []) @ rest) = Some (if c then Some v else a, rest)"
  using assms by (simp add: read_field_def)

lemmas flag_field_simps = fst_put_field snd_put_field bit_or_iff or_zero_bits bit_mask_if and_mask_if

lemma serialize_stripped_channel_update_roundtrip:
  assumes W: "wire_ok W R" and u: "update_writable prev u"
  shows "\<exists>bs. serialize_stripped_channel_update W u dv prev = Inr bs \<and>
    (\<forall>rest. decode_update R dv prev (bs @ rest) = Some (update_view u, rest))"
proof -
  have le: "\<not> prev > update_scid u" using u by (simp add: update_writable_def not_less)
  have fl: "\<not> bit (update_flags u) n" if "2 \<le> n" for n
    using u that two_bit_flags(1) by (auto simp: update_writable_def)
  have low: "update_flags u AND 3 = update_flags u"
    using u two_bit_flags(2) by (auto simp: update_writable_def)
  note fields = read_field_written [OF wire_okD(2) [OF W]] read_field_written [OF wire_okD(3) [OF W]]
    read_field_written [OF wire_okD(4) [OF W]]
  show ?thesis
  proof (cases u)
    case (Full x)
    with le fl low show ?thesis
      by (simp add: serialize_stripped_channel_update_def decode_update_def wire_laws [OF W] Let_def
        split_beta flag_field_simps fields)
  next
    case (Incremental x m)
    with le fl low show ?thesis
      by (simp add: serialize_stripped_channel_update_def decode_update_def wire_laws [OF W] Let_def
        split_beta flag_field_simps fields)
  next
    case (Reminder x m)
    with le fl low show ?thesis
      by (simp add: serialize_stripped_channel_update_def decode_update_def wire_laws [OF W] Let_def
        flag_field_simps read_field_def)
  qed
qed

text \<open>Both kinds of stripped message are streams in the sense of the codec locale.\<close>

interpretation update_stream: stream_codec
  "\<lambda>prev u. wire_ok W R \<and> update_writable prev u"
  "\<lambda>prev u. serialize_stripped_channel_update W u dv prev"
  "decode_update R dv" update_view update_scid wu_scid
  for W R dv
proof
  show "wu_scid (update_view u) = update_scid u" for u
    by (cases u) simp_all
qed (simp add: serialize_stripped_channel_update_roundtrip)

text \<open>An announcement refers to its nodes by their positions in the node list.\<close>

record wire_announcement =
  wa_features :: channel_features
  wa_scid :: u64
  wa_node_1 :: u64
  wa_node_2 :: u64

definition decode_announcement :: "wire_reader \<Rightarrow> u64 \<Rightarrow> wire_announcement reader" where
  "decode_announcement R previous_scid bs = do {
     (features, bs) \<leftarrow> rd_channel_features R bs;
     (scid_delta, bs) \<leftarrow> rd_bigsize R bs;
     (i, bs) \<leftarrow> rd_bigsize R bs;
     (j, bs) \<leftarrow> rd_bigsize R bs;
     Some (\<lparr>wa_features = features, wa_scid = previous_scid + scid_delta, wa_node_1 = i, wa_node_2 = j\<rparr>, bs)
   }"

definition announcement_view :: "unsigned_channel_announcement \<times> nat \<times> nat \<Rightarrow> wire_announcement" where
  "announcement_view x = (case x of (a, i, j) \<Rightarrow> \<lparr>wa_features = ca_features a,
     wa_scid = ca_short_channel_id a, wa_node_1 = word_of_nat i, wa_node_2 = word_of_nat j\<rparr>)"

definition enc_announcement :: "wire \<Rightarrow> u64 \<Rightarrow> unsigned_channel_announcement \<times> nat \<times> nat \<Rightarrow> bytes res" where
  "enc_announcement W previous_scid x =
     (case x of (a, i, j) \<Rightarrow> serialize_stripped_channel_announcement W a i j previous_scid)"

definition announcement_writable :: "u64 \<Rightarrow> unsigned_channel_announcement \<Rightarrow> bool" where
  "announcement_writable previous_scid a \<longleftrightarrow>
     previous_scid \<le> ca_short_channel_id a \<and> channel_features_fit (ca_features a)"

interpretation announcement_stream: stream_codec
  "\<lambda>prev x. wire_ok W R \<and> announcement_writable prev (fst x)"
  "enc_announcement W"
  "decode_announcement R" announcement_view "\<lambda>x. ca_short_channel_id (fst x)" wa_scid
  for W R
  by unfold_locales
    (auto simp: announcement_writable_def enc_announcement_def serialize_stripped_channel_announcement_def Let_def
      decode_announcement_def announcement_view_def wire_laws not_less)

lemma update_stream_ok:
  assumes "sorted (map update_scid us)" and "\<And>u. u \<in> set us \<Longrightarrow> update_flags u AND 252 = 0"
    and "\<And>u. u \<in> set us \<Longrightarrow> prev \<le> update_scid u" and "P"
  shows "ok_stream (\<lambda>prev u. P \<and> update_writable prev u) update_scid prev us"
  using assms by (induction us arbitrary: prev) (auto simp: update_writable_def)

lemma announcement_stream_ok:
  assumes "sorted (map (\<lambda>x. ca_short_channel_id (fst x)) xs)"
    and "\<And>x. x \<in> set xs \<Longrightarrow> channel_features_fit (ca_features (fst x))"
    and "\<And>x. x \<in> set xs \<Longrightarrow> prev \<le> ca_short_channel_id (fst x)" and "P"
  shows "ok_stream (\<lambda>prev x. P \<and> announcement_writable prev (fst x))
    (\<lambda>x. ca_short_channel_id (fst x)) prev xs"
  using assms by (induction xs arbitrary: prev) (auto simp: announcement_writable_def)

end
