(* ===== verification/Sample_Data.thy ===== *)
theory Sample_Data
  imports Serialization
begin

text \<open>Concrete messages and delta sets, on which the hypotheses of the theorems are evaluated.\<close>

definition sample_node :: "nat \<Rightarrow> node_id" where
  "sample_node k = NodeId (word_of_nat (2 * 256 ^ 32 + k))"

definition sample_announcement :: "u64 \<Rightarrow> unsigned_channel_announcement" where
  "sample_announcement scid = \<lparr>ca_features = ChannelFeatures [], ca_short_channel_id = scid,
     ca_node_id_1 = sample_node 1, ca_node_id_2 = sample_node 2\<rparr>"

definition sample_update :: "u64 \<Rightarrow> u8 \<Rightarrow> u32 \<Rightarrow> unsigned_channel_update" where
  "sample_update scid fl fee = \<lparr>cu_short_channel_id = scid, cu_timestamp = 1700000000,
     cu_channel_flags = fl, cu_cltv_expiry_delta = 40, cu_htlc_minimum_msat = 1,
     cu_htlc_maximum_msat = 1000000, cu_fee_base_msat = fee, cu_fee_proportional_millionths = 10\<rparr>"

definition sample_mutation :: mutated_properties where
  "sample_mutation = mutated_properties_default\<lparr>mp_fee_base_msat := True\<rparr>"

text \<open>A channel whose base fee changed from 5 to 7 in the first direction after the last sync.\<close>

definition sample_delta :: "u64 \<Rightarrow> channel_delta" where
  "sample_delta scid = channel_delta_default\<lparr>
     cd_announcement := Some \<lparr>ad_seen = 1699000000, ad_announcement = sample_announcement scid\<rparr>,
     cd_updates := (Some \<lparr>
        dud_last_update_before_seen = Some \<lparr>ud_seen = 1699900000, ud_update = sample_update scid 0 5\<rparr>,
        dud_latest_update_after_seen = Some \<lparr>ud_seen = 1700000100, ud_update = sample_update scid 0 7\<rparr>,
        dud_mutated_properties = sample_mutation,
        dud_serialization_update_flags = None\<rparr>, None)\<rparr>"

definition sample_delta_set :: delta_set where
  "sample_delta_set = [(100, sample_delta 100), (200, sample_delta 200)]"

definition sample_env :: env where
  "sample_env = (\<lambda>_. None)"

definition sample_genesis :: "network \<Rightarrow> chain_hash" where
  "sample_genesis net = ChainHash (case net of Bitcoin \<Rightarrow> 1 | Testnet \<Rightarrow> 2 | Signet \<Rightarrow> 3 | Regtest \<Rightarrow> 4)"

definition sample_orders :: hash_orders where
  "sample_orders = \<lparr>ho_cltv_expiry_delta = rev, ho_htlc_minimum_msat = rev, ho_fee_base_msat = rev,
     ho_fee_proportional_millionths = rev, ho_htlc_maximum_msat = rev, ho_node_features = rev,
     ho_node_mutations = rev, ho_addresses = rev\<rparr>"

lemmas sample_defs = sample_announcement_def sample_update_def sample_mutation_def sample_delta_def
  sample_delta_set_def sample_orders_def channel_delta_default_def

lemma sample_delta_set_ok: "delta_set_ok sample_delta_set"
  by (simp add: sample_defs delta_set_ok_def channel_delta_ok_def directed_ok_def)

lemma sample_orders_ok: "hash_orders_ok sample_orders"
  by (simp add: sample_defs hash_orders_ok_def)

lemma sample_env_network: "config_network sample_env = Inr Bitcoin"
  by (simp add: config_network_def sample_env_def env_or_def to_lowercase_def)

lemma sample_env_interval: "snapshot_generation_interval sample_env = Inr 10800"
  by (simp add: snapshot_generation_interval_def sample_env_def env_or_def
      SYMLINK_GRANULARITY_INTERVAL_def parse_unsigned_dec_string)

end
