(* ===== verification/Rapid_Sync.thy ===== *)
theory Rapid_Sync
  imports Stripped_Codec Sample_Data
begin

text \<open>
  The serializer of src/lib.rs: \<open>serialize_delta\<close>, which writes a complete snapshot, and
  \<open>serialize_empty_blob\<close>, the snapshot without content. The closure \<open>get_node_id_index\<close>
  numbers the node ids in order of first use. The node section of format version 2 stores flags
  in the first byte of each public key.
\<close>

section \<open>Definitions\<close>

definition GOSSIP_PREFIX :: bytes where
  "GOSSIP_PREFIX = [76, 68, 75]"

record serialized_response =
  sr_data :: bytes
  sr_message_count :: u32
  sr_node_announcement_count :: u32
  sr_node_update_count :: u32
  sr_node_feature_update_count :: u32
  sr_node_address_update_count :: u32
  sr_channel_announcement_count :: u32
  sr_update_count :: u32
  sr_update_count_full :: u32
  sr_update_count_incremental :: u32

text \<open>\<open>Snapshotter::round_down_to_nearest_multiple\<close> of src/snapshot.rs, which this module calls.\<close>

definition round_down_to_nearest_multiple :: "u64 \<Rightarrow> u64 \<Rightarrow> u64 res" where
  "round_down_to_nearest_multiple number multiple =
     (if multiple = 0 then Inl Rem_By_Zero
      else let round_multiple_delta = number mod multiple in Inr (number - round_multiple_delta))"

definition serialize_empty_blob ::
  "wire \<Rightarrow> env \<Rightarrow> (network \<Rightarrow> chain_hash) \<Rightarrow> u64 \<Rightarrow> u8 \<Rightarrow> bytes res" where
  "serialize_empty_blob W e genesis_hash current_timestamp serialization_version =
     (let blob = GOSSIP_PREFIX @ wr_u8 W serialization_version
      in bind_res (config_network e) (\<lambda>network.
         let blob = blob @ wr_chain_hash W (genesis_hash network)
         in bind_res (round_down_to_nearest_multiple current_timestamp
              (ucast SYMLINK_GRANULARITY_INTERVAL)) (\<lambda>rounded.
            let blob_timestamp = (ucast rounded :: u32);
                blob = blob @ wr_u32 W blob_timestamp;
                blob = (if serialization_version \<ge> 2 then blob @ wr_u8 W 0 else blob)
            in Inr (blob @ wr_u32 W 0 @ wr_u32 W 0 @ wr_u32 W 0))))"

text \<open>The state the closure \<open>get_node_id_index\<close> captures.\<close>

record node_indexer =
  ix_node_id_set :: "node_id list"
  ix_node_id_indices :: "(node_id \<times> nat) list"
  ix_node_ids :: "node_id list"
  ix_duplicate_node_ids :: "32 word"

definition empty_indexer :: node_indexer where
  "empty_indexer = \<lparr>ix_node_id_set = [], ix_node_id_indices = [], ix_node_ids = [],
     ix_duplicate_node_ids = 0\<rparr>"

definition get_node_id_index :: "node_id \<Rightarrow> node_indexer \<Rightarrow> (nat \<times> node_indexer) res" where
  "get_node_id_index node_id ix =
     (if node_id \<notin> set (ix_node_id_set ix)
      then (let node_ids = ix_node_ids ix @ [node_id];
                index = length node_ids - 1
            in Inr (index, ix\<lparr>ix_node_id_set := node_id # ix_node_id_set ix,
                 ix_node_ids := node_ids,
                 ix_node_id_indices := hm_insert node_id index (ix_node_id_indices ix)\<rparr>))
      else (case hm_get (ix_node_id_indices ix) node_id of
              Some index \<Rightarrow> Inr (index, ix\<lparr>ix_duplicate_node_ids := ix_duplicate_node_ids ix + 1\<rparr>)
            | None \<Rightarrow> Inl Unwrap_None))"

text \<open>The loop over the announcements threads the indexer, the output and the previous id.\<close>

definition announcement_step ::
  "wire \<Rightarrow> unsigned_channel_announcement \<Rightarrow> node_indexer \<times> bytes \<times> u64 \<Rightarrow>
   (node_indexer \<times> bytes \<times> u64) res" where
  "announcement_step W current_announcement st =
     (case st of (ix, output, previous_announcement_scid) \<Rightarrow>
      bind_res (get_node_id_index (ca_node_id_1 current_announcement) ix) (\<lambda>(id_index_1, ix).
      bind_res (get_node_id_index (ca_node_id_2 current_announcement) ix) (\<lambda>(id_index_2, ix).
      bind_res (serialize_stripped_channel_announcement W current_announcement id_index_1 id_index_2
          previous_announcement_scid) (\<lambda>stripped_announcement.
      Inr (ix, output @ stripped_announcement, ca_short_channel_id current_announcement)))))"

text \<open>The loop over the updates: output, previous id, and the two counters.\<close>

definition update_step ::
  "wire \<Rightarrow> default_update_values \<Rightarrow> update_serialization \<Rightarrow> bytes \<times> u64 \<times> u32 \<times> u32 \<Rightarrow>
   (bytes \<times> u64 \<times> u32 \<times> u32) res" where
  "update_step W default_update_values current_update st =
     (case st of (output, previous_update_scid, update_count_full, update_count_incremental) \<Rightarrow>
      let (update_count_full, update_count_incremental) =
        (case current_update of
           Full _ \<Rightarrow> (update_count_full + 1, update_count_incremental)
         | Incremental _ _ \<Rightarrow> (update_count_full, update_count_incremental + 1)
         | Reminder _ _ \<Rightarrow> (update_count_full, update_count_incremental + 1))
      in bind_res (serialize_stripped_channel_update W current_update default_update_values
           previous_update_scid) (\<lambda>stripped_update.
         Inr (output @ stripped_update, update_scid current_update,
           update_count_full, update_count_incremental)))"

definition write_default_update_values :: "wire \<Rightarrow> default_update_values \<Rightarrow> bytes" where
  "write_default_update_values W dv =
     wr_u16 W (dv_cltv_expiry_delta dv) @ wr_u64 W (dv_htlc_minimum_msat dv) @
     wr_u32 W (dv_fee_base_msat dv) @ wr_u32 W (dv_fee_proportional_millionths dv) @
     wr_u64 W (dv_htlc_maximum_msat dv)"

text \<open>Addresses: at most 255, and only those whose length fits a byte.\<close>

fun serialize_addresses :: "wire \<Rightarrow> socket_address list \<Rightarrow> u8 \<Rightarrow> bytes \<Rightarrow> u8 \<times> bytes" where
  "serialize_addresses W [] total_address_count address_serialization =
     (total_address_count, address_serialization)"
| "serialize_addresses W (address # rest) total_address_count address_serialization =
     (if total_address_count = 255 then (total_address_count, address_serialization)
      else if address_length W address < 256
      then serialize_addresses W rest (total_address_count + 1)
        (address_serialization @ wr_u8 W (word_of_nat (address_length W address)) @ wr_address W address)
      else serialize_addresses W rest total_address_count address_serialization)"

text \<open>\<open>buffer[0] |= m\<close>\<close>

definition or_first :: "u8 \<Rightarrow> bytes \<Rightarrow> bytes res" where
  "or_first m bs = (case bs of [] \<Rightarrow> Inl Index_Out_Of_Bounds | b # r \<Rightarrow> Inr ((b OR m) # r))"

fun position :: "'a \<Rightarrow> 'a list \<Rightarrow> nat option" where
  "position x [] = None"
| "position x (y # ys) = (if y = x then Some 0 else map_option Suc (position x ys))"

record node_counts =
  nc_node_update_count :: u32
  nc_node_feature_update_count :: u32
  nc_node_address_update_count :: u32

definition strategy_sends_addresses :: "node_serialization_strategy \<Rightarrow> bool" where
  "strategy_sends_addresses strategy = (case strategy of
     NodeMutated m \<Rightarrow> mnp_addresses m | NodeFull \<Rightarrow> True | NodeReminder \<Rightarrow> False)"

definition strategy_sends_features :: "node_serialization_strategy \<Rightarrow> bool" where
  "strategy_sends_features strategy = (case strategy of
     NodeMutated m \<Rightarrow> mnp_features m | NodeFull \<Rightarrow> True | NodeReminder \<Rightarrow> False)"

text \<open>The first match on the strategy: the addresses.\<close>

definition write_node_addresses ::
  "wire \<Rightarrow> hash_orders \<Rightarrow> node_delta \<Rightarrow> bytes \<Rightarrow> bytes res" where
  "write_node_addresses W ho delta buffer =
     bind_res (unwrap (nde_latest_details delta)) (\<lambda>details.
     let (total_address_count, address_serialization) =
           serialize_addresses W (ho_addresses ho (nd_addresses details)) 0 []
     in bind_res (or_first 4 buffer) (\<lambda>buffer.
        Inr (buffer @ wr_u8 W total_address_count @ address_serialization)))"

text \<open>The second match on the strategy: the features, by index or in full.\<close>

definition write_node_features ::
  "wire \<Rightarrow> node_features list \<Rightarrow> node_delta \<Rightarrow> bytes \<Rightarrow> bytes res" where
  "write_node_features W defaults delta buffer =
     bind_res (unwrap (nde_latest_details delta)) (\<lambda>details.
     let latest_features = nd_features details
     in case position latest_features defaults of
          Some index \<Rightarrow> or_first (push_bit 3 (word_of_nat (index + 1))) buffer
        | None \<Rightarrow> bind_res (or_first 56 buffer) (\<lambda>buffer.
            Inr (buffer @ wr_node_features W latest_features)))"

text \<open>The body of the loop over the node ids.\<close>

definition serialize_node ::
  "wire \<Rightarrow> hash_orders \<Rightarrow> serialization_set \<Rightarrow> u8 \<Rightarrow> node_id \<Rightarrow> bytes \<times> node_counts \<Rightarrow>
   (bytes \<times> node_counts) res" where
  "serialize_node W ho details serialization_version current_node_id st =
     (case st of (output, c) \<Rightarrow>
      let buffer = wr_node_id W current_node_id
      in case (if serialization_version \<ge> 2 then hm_get (ss_node_mutations details) current_node_id
               else None) of
           None \<Rightarrow> Inr (output @ buffer, c)
         | Some node_delta \<Rightarrow>
             bind_res (unwrap (nde_strategy node_delta)) (\<lambda>strategy.
             bind_res
               (if strategy_sends_addresses strategy
                then bind_res (write_node_addresses W ho node_delta buffer) (\<lambda>buffer.
                  Inr (buffer, c\<lparr>nc_node_address_update_count := nc_node_address_update_count c + 1\<rparr>))
                else Inr (buffer, c)) (\<lambda>(buffer, c).
             bind_res
               (if strategy_sends_features strategy
                then bind_res (write_node_features W (ss_node_announcement_feature_defaults details)
                    node_delta buffer) (\<lambda>buffer.
                  Inr (buffer, c\<lparr>nc_node_feature_update_count := nc_node_feature_update_count c + 1\<rparr>))
                else Inr (buffer, c)) (\<lambda>(buffer, c).
             if strategy_sends_addresses strategy \<or> strategy_sends_features strategy
             then Inr (output @ buffer, c\<lparr>nc_node_update_count := nc_node_update_count c + 1\<rparr>)
             else if strategy = NodeReminder
             then bind_res (or_first 64 buffer) (\<lambda>buffer. Inr (output @ buffer, c))
             else Inr (output @ buffer, c)))))"

definition serialize_delta ::
  "wire \<Rightarrow> env \<Rightarrow> hash_orders \<Rightarrow> serialization_set \<Rightarrow> u8 \<Rightarrow> serialized_response res" where
  "serialize_delta W e ho details serialization_version =
     bind_res (snapshot_generation_interval e) (\<lambda>snapshot_interval.
     let announcement_count = (word_of_nat (length (ss_announcements details)) :: u32);
         output = wr_u32 W announcement_count
     in bind_res (fold_res (announcement_step W) (ss_announcements details) (empty_indexer, output, 0))
       (\<lambda>(ix, output, _).
     let update_count = (word_of_nat (length (ss_updates details)) :: u32);
         output = output @ wr_u32 W update_count;
         default_update_values = ss_full_update_defaults details;
         output = (if update_count > 0
                   then output @ write_default_update_values W default_update_values else output)
     in bind_res (fold_res (update_step W default_update_values) (ss_updates details) (output, 0, 0, 0))
       (\<lambda>(output, _, update_count_full, update_count_incremental).
     let message_count = announcement_count + update_count;
         prefixed_output = GOSSIP_PREFIX @ [serialization_version];
         prefixed_output = prefixed_output @ wr_chain_hash W (ss_chain_hash details);
         latest_seen_timestamp = ss_latest_seen details;
         overflow_seconds = latest_seen_timestamp mod snapshot_interval;
         serialized_seen_timestamp = saturating_sub latest_seen_timestamp overflow_seconds;
         prefixed_output = prefixed_output @ wr_u32 W serialized_seen_timestamp
     in bind_res
       (if serialization_version \<ge> 2
        then bind_res (fold_res (\<lambda>mutated_node_id ix.
                 bind_res (get_node_id_index mutated_node_id ix) (\<lambda>(_, ix). Inr ix))
               (map fst (ho_node_mutations ho (ss_node_mutations details))) ix) (\<lambda>ix.
             let defaults = ss_node_announcement_feature_defaults details
             in Inr (ix, prefixed_output @ wr_u8 W (word_of_nat (length defaults)) @
                  concat (map (wr_node_features W) defaults)))
        else Inr (ix, prefixed_output)) (\<lambda>(ix, prefixed_output).
     let node_ids = ix_node_ids ix;
         node_id_count = (word_of_nat (length node_ids) :: u32);
         prefixed_output = prefixed_output @ wr_u32 W node_id_count
     in bind_res (fold_res (serialize_node W ho details serialization_version) node_ids
          (prefixed_output, \<lparr>nc_node_update_count = 0, nc_node_feature_update_count = 0,
             nc_node_address_update_count = 0\<rparr>)) (\<lambda>(prefixed_output, c).
     Inr \<lparr>sr_data = prefixed_output @ output, sr_message_count = message_count,
       sr_node_announcement_count = node_id_count,
       sr_node_update_count = nc_node_update_count c,
       sr_node_feature_update_count = nc_node_feature_update_count c,
       sr_node_address_update_count = nc_node_address_update_count c,
       sr_channel_announcement_count = announcement_count, sr_update_count = update_count,
       sr_update_count_full = update_count_full,
       sr_update_count_incremental = update_count_incremental\<rparr>)))))"

section \<open>Numbering the nodes\<close>

text \<open>
  What the announcement loop needs of the indexer: asking for a node never fails, returns a
  position at which the node stands, and only ever appends nodes that were not there.
\<close>

locale node_numbering =
  fixes idx :: "'k \<Rightarrow> 's \<Rightarrow> (nat \<times> 's) res" and ids :: "'s \<Rightarrow> 'k list" and ok :: "'s \<Rightarrow> bool"
  assumes idx_total: "ok s \<Longrightarrow> \<exists>i s'. idx k s = Inr (i, s')"
    and idx_ok: "ok s \<Longrightarrow> idx k s = Inr (i, s') \<Longrightarrow> ok s'"
    and idx_ids: "ok s \<Longrightarrow> idx k s = Inr (i, s') \<Longrightarrow>
      ids s' = (if k \<in> set (ids s) then ids s else ids s @ [k])"
    and idx_at: "ok s \<Longrightarrow> idx k s = Inr (i, s') \<Longrightarrow> i < length (ids s') \<and> ids s' ! i = k"
    and ok_distinct: "ok s \<Longrightarrow> distinct (ids s)"
begin

lemma idx_prefix: "ok s \<Longrightarrow> idx k s = Inr (i, s') \<Longrightarrow> prefix (ids s) (ids s')"
  using idx_ids [of s k i s'] by (cases "k \<in> set (ids s)") simp_all

lemma idx_set: "ok s \<Longrightarrow> idx k s = Inr (i, s') \<Longrightarrow> set (ids s') = insert k (set (ids s))"
  using idx_ids [of s k i s'] by (cases "k \<in> set (ids s)") auto

text \<open>A loop over keys that ignores the positions adds exactly the new keys.\<close>

lemma fold_idx:
  assumes "ok s"
  shows "\<exists>s'. fold_res (\<lambda>k s. bind_res (idx k s) (\<lambda>(_, s). Inr s)) ks s = Inr s' \<and> ok s' \<and>
    prefix (ids s) (ids s') \<and> set (ids s') = set (ids s) \<union> set ks"
  using assms
proof (induction ks arbitrary: s)
  case (Cons k ks)
  from idx_total [OF Cons.prems, of k] obtain i t where t: "idx k s = Inr (i, t)" by blast
  from Cons.IH [OF idx_ok [OF Cons.prems t]] t
    idx_prefix [OF Cons.prems t] idx_set [OF Cons.prems t]
  show ?case by (auto intro: prefix_order.trans)
qed simp

end

definition indexer_ok :: "node_indexer \<Rightarrow> bool" where
  "indexer_ok ix \<longleftrightarrow> distinct (ix_node_ids ix) \<and> set (ix_node_id_set ix) = set (ix_node_ids ix) \<and>
     (\<forall>n i. hm_get (ix_node_id_indices ix) n = Some i \<longleftrightarrow> i < length (ix_node_ids ix) \<and> ix_node_ids ix ! i = n)"

lemma get_node_id_index_ok:
  assumes "indexer_ok ix"
  shows "\<exists>i ix'. get_node_id_index n ix = Inr (i, ix') \<and> indexer_ok ix' \<and>
    ix_node_ids ix' = (if n \<in> set (ix_node_ids ix) then ix_node_ids ix else ix_node_ids ix @ [n]) \<and>
    i < length (ix_node_ids ix') \<and> ix_node_ids ix' ! i = n"
proof (cases "n \<in> set (ix_node_ids ix)")
  case True
  then obtain i where "i < length (ix_node_ids ix)" "ix_node_ids ix ! i = n"
    by (auto simp: in_set_conv_nth)
  with True assms show ?thesis
    by (auto simp: get_node_id_index_def indexer_ok_def split: option.split)
next
  case False
  with assms show ?thesis
    by (auto simp: get_node_id_index_def indexer_ok_def hm_get_insert nth_append less_Suc_eq Let_def)
qed

interpretation node_index: node_numbering get_node_id_index ix_node_ids indexer_ok
proof
  fix n i ix ix'
  assume ix: "indexer_ok ix"
  then show "\<exists>i ix'. get_node_id_index n ix = Inr (i, ix')" "distinct (ix_node_ids ix)"
    using get_node_id_index_ok [of ix n] by (auto simp: indexer_ok_def)
  assume eq: "get_node_id_index n ix = Inr (i, ix')"
  from get_node_id_index_ok [OF ix, of n] obtain k jx where "get_node_id_index n ix = Inr (k, jx)"
    and props: "indexer_ok jx"
    "ix_node_ids jx = (if n \<in> set (ix_node_ids ix) then ix_node_ids ix else ix_node_ids ix @ [n])"
    "k < length (ix_node_ids jx) \<and> ix_node_ids jx ! k = n"
    by blast
  with eq have "k = i" "jx = ix'" by simp_all
  with props show "indexer_ok ix'"
    "ix_node_ids ix' = (if n \<in> set (ix_node_ids ix) then ix_node_ids ix else ix_node_ids ix @ [n])"
    "i < length (ix_node_ids ix') \<and> ix_node_ids ix' ! i = n"
    by blast+
qed

lemma indexer_ok_empty: "indexer_ok empty_indexer"
  by (simp add: indexer_ok_def empty_indexer_def)

section \<open>The loops as streams\<close>

text \<open>The announcement loop writes the stream of the announcements with their node positions.\<close>

definition indexed :: "node_id list \<Rightarrow> (unsigned_channel_announcement \<times> nat \<times> nat) list \<Rightarrow> bool" where
  "indexed ids xs \<longleftrightarrow> (\<forall>(a, i, j) \<in> set xs.
     i < length ids \<and> ids ! i = ca_node_id_1 a \<and> j < length ids \<and> ids ! j = ca_node_id_2 a)"

lemma prefix_nth: "prefix ks ids \<Longrightarrow> k < length ks \<and> ks ! k = n \<Longrightarrow> k < length ids \<and> ids ! k = n"
  by (auto simp: prefix_def nth_append)

lemma announcement_step_ok:
  assumes ix: "indexer_ok ix" and wr: "announcement_writable prev a"
  obtains i j ix' b where
    "announcement_step W a (ix, out, prev) = Inr (ix', out @ b, ca_short_channel_id a)"
    and "enc_announcement W prev (a, i, j) = Inr b"
    and "indexer_ok ix'" and "prefix (ix_node_ids ix) (ix_node_ids ix')"
    and "set (ix_node_ids ix') = set (ix_node_ids ix) \<union> {ca_node_id_1 a, ca_node_id_2 a}"
    and "indexed (ix_node_ids ix') [(a, i, j)]"
proof -
  from node_index.idx_total [OF ix] obtain i ix1 where
    i: "get_node_id_index (ca_node_id_1 a) ix = Inr (i, ix1)" by blast
  note ix1 = node_index.idx_ok [OF ix i]
  from node_index.idx_total [OF ix1] obtain j ix2 where
    j: "get_node_id_index (ca_node_id_2 a) ix1 = Inr (j, ix2)" by blast
  note ix2 = node_index.idx_ok [OF ix1 j]
  from wr obtain b where b: "serialize_stripped_channel_announcement W a i j prev = Inr b"
    by (auto simp: announcement_writable_def serialize_stripped_channel_announcement_def not_less)
  show thesis
  proof (rule that)
    show "announcement_step W a (ix, out, prev) = Inr (ix2, out @ b, ca_short_channel_id a)"
      by (simp add: announcement_step_def i j b)
    show "enc_announcement W prev (a, i, j) = Inr b" by (simp add: enc_announcement_def b)
    show "prefix (ix_node_ids ix) (ix_node_ids ix2)"
      using node_index.idx_prefix [OF ix i] node_index.idx_prefix [OF ix1 j] by (rule prefix_order.trans)
    show "set (ix_node_ids ix2) = set (ix_node_ids ix) \<union> {ca_node_id_1 a, ca_node_id_2 a}"
      using node_index.idx_set [OF ix i] node_index.idx_set [OF ix1 j] by auto
    show "indexed (ix_node_ids ix2) [(a, i, j)]"
      using prefix_nth [OF node_index.idx_prefix [OF ix1 j] node_index.idx_at [OF ix i]]
        node_index.idx_at [OF ix1 j] by (simp add: indexed_def)
  qed (rule ix2)
qed

lemma indexed_prefix: "indexed ks xs \<Longrightarrow> prefix ks ids \<Longrightarrow> indexed ids xs"
  unfolding indexed_def by (fastforce simp: prefix_def nth_append)

lemma announcement_loop:
  assumes "indexer_ok ix" and "ok_stream announcement_writable ca_short_channel_id prev as"
  shows "\<exists>ix' xs bs prev'.
    fold_res (announcement_step W) as (ix, out, prev) = Inr (ix', out @ bs, prev') \<and>
    indexer_ok ix' \<and> prefix (ix_node_ids ix) (ix_node_ids ix') \<and>
    set (ix_node_ids ix') = set (ix_node_ids ix) \<union> (\<Union>a\<in>set as. {ca_node_id_1 a, ca_node_id_2 a}) \<and>
    map fst xs = as \<and> indexed (ix_node_ids ix') xs \<and>
    enc_stream (enc_announcement W) (\<lambda>x. ca_short_channel_id (fst x)) prev xs = Inr bs"
  using assms
proof (induction as arbitrary: ix out prev)
  case Nil
  then show ?case by (auto simp: indexed_def)
next
  case (Cons a as)
  from Cons.prems obtain i j ix1 b where
    a: "announcement_step W a (ix, out, prev) = Inr (ix1, out @ b, ca_short_channel_id a)"
      "enc_announcement W prev (a, i, j) = Inr b" "indexer_ok ix1"
      "prefix (ix_node_ids ix) (ix_node_ids ix1)"
      "set (ix_node_ids ix1) = set (ix_node_ids ix) \<union> {ca_node_id_1 a, ca_node_id_2 a}"
      "indexed (ix_node_ids ix1) [(a, i, j)]"
    by (auto elim: announcement_step_ok [of ix prev a W out])
  from Cons.prems(2) have "ok_stream announcement_writable ca_short_channel_id (ca_short_channel_id a) as"
    by simp
  from Cons.IH [OF a(3) this, of "out @ b"] obtain ix' xs bs prev' where
    r: "fold_res (announcement_step W) as (ix1, out @ b, ca_short_channel_id a) = Inr (ix', (out @ b) @ bs, prev')"
      "indexer_ok ix'" "prefix (ix_node_ids ix1) (ix_node_ids ix')"
      "set (ix_node_ids ix') = set (ix_node_ids ix1) \<union> (\<Union>a\<in>set as. {ca_node_id_1 a, ca_node_id_2 a})"
      "map fst xs = as" "indexed (ix_node_ids ix') xs"
      "enc_stream (enc_announcement W) (\<lambda>x. ca_short_channel_id (fst x)) (ca_short_channel_id a) xs = Inr bs"
    by blast
  have "indexed (ix_node_ids ix') ((a, i, j) # xs)"
    using indexed_prefix [OF a(6) r(3)] r(6) by (simp add: indexed_def)
  moreover have "fold_res (announcement_step W) (a # as) (ix, out, prev) = Inr (ix', out @ (b @ bs), prev')"
    using r(1) by (simp add: a(1))
  moreover have "enc_stream (enc_announcement W) (\<lambda>x. ca_short_channel_id (fst x)) prev ((a, i, j) # xs) = Inr (b @ bs)"
    using r(7) by (simp add: a(2))
  moreover have "set (ix_node_ids ix') = set (ix_node_ids ix) \<union> (\<Union>a\<in>set (a # as). {ca_node_id_1 a, ca_node_id_2 a})"
    using r(4) a(5) by auto
  moreover have "prefix (ix_node_ids ix) (ix_node_ids ix')" using a(4) r(3) by (rule prefix_order.trans)
  moreover have "map fst ((a, i, j) # xs) = a # as" using r(5) by simp
  ultimately show ?case using r(2) by (intro exI conjI) assumption+
qed

fun is_full :: "update_serialization \<Rightarrow> bool" where
  "is_full (Full _) = True"
| "is_full _ = False"

lemma update_step_ok:
  assumes "serialize_stripped_channel_update W u dv prev = Inr b"
  shows "update_step W dv u (out, prev, f, i) = Inr (out @ b, update_scid u,
    f + (if is_full u then 1 else 0), i + (if is_full u then 0 else 1))"
  using assms by (cases u) (simp_all add: update_step_def)

lemma update_loop:
  assumes "enc_stream (\<lambda>prev u. serialize_stripped_channel_update W u dv prev) update_scid prev us = Inr bs"
  shows "\<exists>prev'. fold_res (update_step W dv) us (out, prev, f, i) =
    Inr (out @ bs, prev', f + word_of_nat (length (filter is_full us)),
      i + word_of_nat (length (filter (\<lambda>u. \<not> is_full u) us)))"
  using assms
proof (induction us arbitrary: out prev f i bs)
  case (Cons u us)
  from Cons.prems obtain b r where b: "serialize_stripped_channel_update W u dv prev = Inr b"
    and r: "enc_stream (\<lambda>prev u. serialize_stripped_channel_update W u dv prev) update_scid (update_scid u) us = Inr r"
    and bs: "bs = b @ r"
    by (auto simp: bind_res_eq_Inr)
  from Cons.IH [OF r, of "out @ b" "f + (if is_full u then 1 else 0)" "i + (if is_full u then 0 else 1)"]
  show ?case by (auto simp: update_step_ok [OF b] bs algebra_simps)
qed simp

end
