(* ===== verification/Node_Section.thy ===== *)
theory Node_Section
  imports Rapid_Sync
begin

text \<open>
  The node section of a snapshot. A reader of the section is defined as the reference; the
  lemmas show that what the loop over the node ids in \<open>serialize_delta\<close> (src/lib.rs) writes for a
  node is read back as that node, with the addresses and features its strategy sends.
\<close>

section \<open>The node section\<close>

text \<open>The reader of the node section, as the reference for the writer.\<close>

record wire_node =
  wn_node_id :: node_id
  wn_addresses :: "socket_address list option"
  wn_features :: "node_features option"
  wn_reminder :: bool

definition decode_address :: "wire_reader \<Rightarrow> unit \<Rightarrow> socket_address reader" where
  "decode_address R c bs = do {
     (len, bs) \<leftarrow> rd_u8 R bs;
     a \<leftarrow> (if length bs < unat len then None else rd_address R (take (unat len) bs));
     Some (a, drop (unat len) bs)
   }"

definition decode_addresses :: "wire_reader \<Rightarrow> socket_address list reader" where
  "decode_addresses R bs = do {
     (cnt, bs) \<leftarrow> rd_u8 R bs;
     dec_stream (decode_address R) (\<lambda>_. ()) (unat cnt) () bs
   }"

definition decode_features :: "wire_reader \<Rightarrow> node_features list \<Rightarrow> u8 \<Rightarrow> node_features option reader" where
  "decode_features R defaults k bs =
     (if k = 0 then Some (None, bs)
      else if k = 7 then map_option (\<lambda>(f, bs). (Some f, bs)) (rd_node_features R bs)
      else if unat k \<le> length defaults then Some (Some (defaults ! (unat k - 1)), bs)
      else None)"

definition decode_node :: "wire_reader \<Rightarrow> u8 \<Rightarrow> node_features list \<Rightarrow> unit \<Rightarrow> wire_node reader" where
  "decode_node R version defaults c bs = (case bs of [] \<Rightarrow> None
     | b # r \<Rightarrow> do {
         (n, bs) \<leftarrow> rd_node_id R ((b AND 3) # r);
         if version \<ge> 2 then do {
           (addresses, bs) \<leftarrow> (if bit b 2
              then map_option (\<lambda>(x, bs). (Some x, bs)) (decode_addresses R bs) else Some (None, bs));
           (features, bs) \<leftarrow> decode_features R defaults (drop_bit 3 b AND 7) bs;
           Some (\<lparr>wn_node_id = n, wn_addresses = addresses, wn_features = features, wn_reminder = bit b 6\<rparr>, bs)
         }
         else Some (\<lparr>wn_node_id = n, wn_addresses = None, wn_features = None, wn_reminder = False\<rparr>, bs)
       })"

text \<open>What the client is meant to see of a node.\<close>

definition sent_addresses :: "wire \<Rightarrow> hash_orders \<Rightarrow> node_details \<Rightarrow> socket_address list" where
  "sent_addresses W ho d = take 255 (filter (\<lambda>a. address_length W a < 256) (ho_addresses ho (nd_addresses d)))"

definition node_view :: "wire \<Rightarrow> hash_orders \<Rightarrow> node_delta_set \<Rightarrow> u8 \<Rightarrow> node_id \<Rightarrow> wire_node" where
  "node_view W ho mutations version n =
     (case (if version \<ge> 2
            then Option.bind (hm_get mutations n) (\<lambda>d. map_option (\<lambda>s. (d, s)) (nde_strategy d)) else None) of
        Some (d, strategy) \<Rightarrow>
          \<lparr>wn_node_id = n,
           wn_addresses = (if strategy_sends_addresses strategy
             then map_option (sent_addresses W ho) (nde_latest_details d) else None),
           wn_features = (if strategy_sends_features strategy
             then map_option nd_features (nde_latest_details d) else None),
           wn_reminder = (strategy = NodeReminder)\<rparr>
      | None \<Rightarrow> \<lparr>wn_node_id = n, wn_addresses = None, wn_features = None, wn_reminder = False\<rparr>)"

text \<open>The conditions under which a node can be written.\<close>

definition node_delta_writable :: "node_delta \<Rightarrow> bool" where
  "node_delta_writable d \<longleftrightarrow> (\<exists>s. nde_strategy d = Some s \<and>
     ((strategy_sends_addresses s \<or> strategy_sends_features s) \<longrightarrow>
       (\<exists>l. nde_latest_details d = Some l \<and> node_features_fit (nd_features l))))"

lemma serialize_addresses_eq:
  assumes "n \<le> 255"
  shows "serialize_addresses W as (word_of_nat n) acc =
    (let sel = take (255 - n) (filter (\<lambda>a. address_length W a < 256) as)
     in (word_of_nat (n + length sel),
         acc @ concat (map (\<lambda>a. wr_u8 W (word_of_nat (address_length W a)) @ wr_address W a) sel)))"
  using assms
proof (induction as arbitrary: n acc)
  case (Cons a as)
  have full: "(word_of_nat n :: u8) = 255 \<longleftrightarrow> n = 255"
    using Cons.prems by (simp add: word_eq_iff_unsigned [where 'a = nat] unsigned_of_nat take_bit_nat_eq_self)
  show ?case
  proof (cases "n = 255")
    case True
    with full show ?thesis by simp
  next
    case False
    then have "255 - n = Suc (255 - Suc n)" using Cons.prems by arith
    then have "take (255 - n) (x # xs) = x # take (255 - Suc n) xs" for x :: socket_address and xs
      by (metis take_Suc_Cons)
    moreover have "word_of_nat n + 1 = (word_of_nat (Suc n) :: u8)" by simp
    ultimately show ?thesis
      using False full Cons.prems Cons.IH [of "Suc n"] Cons.IH [of n]
      by (simp add: Let_def del: of_nat_Suc of_nat_add length_take)
  qed
qed simp

lemma decode_addresses_written:
  assumes W: "wire_ok W R" and "length as \<le> 255" and "\<And>a. a \<in> set as \<Longrightarrow> address_length W a < 256"
  shows "decode_addresses R (wr_u8 W (word_of_nat (length as)) @
      concat (map (\<lambda>a. wr_u8 W (word_of_nat (address_length W a)) @ wr_address W a) as) @ rest) = Some (as, rest)"
proof -
  have len: "unat (word_of_nat k :: u8) = k" if "k < 256" for k
    using that by (simp add: unsigned_of_nat take_bit_nat_eq_self)
  have "dec_stream (decode_address R) (\<lambda>_. ()) (length as) ()
      (concat (map (\<lambda>a. wr_u8 W (word_of_nat (address_length W a)) @ wr_address W a) as) @ rest) = Some (as, rest)"
    using assms(3)
  proof (induction as)
    case (Cons a as)
    have "decode_address R () (wr_u8 W (word_of_nat (address_length W a)) @ wr_address W a @ r) = Some (a, r)" for r
      using Cons.prems [of a]
      by (simp add: decode_address_def wire_laws [OF W] len)
    with Cons show ?case by simp
  qed simp
  then show ?thesis using assms(2) by (simp add: decode_addresses_def wire_laws [OF W] len)
qed

text \<open>The flags in the first byte of the key do not disturb each other.\<close>

lemma first_byte:
  fixes b k :: u8 and a r :: bool
  assumes b: "b AND 252 = 0" and k: "k < 8"
  defines "f \<equiv> ((b OR (if a then 4 else 0)) OR push_bit 3 k) OR (if r then 64 else 0)"
  shows "f AND 3 = b" and "bit f 2 = a" and "drop_bit 3 f AND 7 = k" and "bit f 6 = r"
proof -
  have high: "\<not> bit b n" if "2 \<le> n" for n using two_bit_flags(1) [OF b that] .
  have low: "b AND 3 = b" by (rule two_bit_flags(2) [OF b])
  have "unat k < 8" using k by (simp add: word_less_nat_alt)
  then have "unat k \<in> {0, 1, 2, 3, 4, 5, 6, 7}" by auto
  then have cases: "k \<in> {0, 1, 2, 3, 4, 5, 6, 7}"
    by (auto simp: word_eq_iff_unsigned [where 'a = nat])
  have "drop_bit 3 b = 0"
    by (rule bit_word_eqI) (use high in \<open>auto simp: bit_simps\<close>)
  with cases low high show "f AND 3 = b" "bit f 2 = a" "drop_bit 3 f AND 7 = k" "bit f 6 = r"
    by (auto simp: f_def or_zero_bits bit_or_iff drop_bit_or)
qed

lemma position_Some: "position x xs = Some i \<Longrightarrow> i < length xs \<and> xs ! i = x"
  by (induction x xs arbitrary: i rule: position.induct) (auto split: if_splits)

definition feature_index :: "node_features list \<Rightarrow> node_features \<Rightarrow> u8" where
  "feature_index defaults f = (case position f defaults of Some i \<Rightarrow> word_of_nat (i + 1) | None \<Rightarrow> 7)"

definition feature_bytes :: "wire \<Rightarrow> node_features list \<Rightarrow> node_features \<Rightarrow> bytes" where
  "feature_bytes W defaults f = (case position f defaults of Some i \<Rightarrow> [] | None \<Rightarrow> wr_node_features W f)"

lemma write_node_features_eq:
  assumes "nde_latest_details d = Some l"
  shows "write_node_features W defaults d (b # t) = Inr ((b OR push_bit 3 (feature_index defaults (nd_features l))) #
    t @ feature_bytes W defaults (nd_features l))"
  using assms
  by (simp add: write_node_features_def or_first_def feature_index_def feature_bytes_def split: option.split)

lemma decode_features_written:
  assumes W: "wire_ok W R" and len: "length defaults \<le> 6" and fit: "node_features_fit f"
  shows "decode_features R defaults (feature_index defaults f) (feature_bytes W defaults f @ rest) = Some (Some f, rest)"
    and "feature_index defaults f < 8"
proof -
  have "unat (word_of_nat (i + 1) :: u8) = i + 1 \<and> i < length defaults \<and> defaults ! i = f"
    if "position f defaults = Some i" for i
    using position_Some [OF that] len
    by (simp add: unsigned_of_nat take_bit_nat_eq_self del: of_nat_Suc of_nat_add)
  then show "decode_features R defaults (feature_index defaults f) (feature_bytes W defaults f @ rest) = Some (Some f, rest)"
    and "feature_index defaults f < 8"
    using len wire_laws(7) [OF W fit]
    by (auto simp: decode_features_def feature_index_def feature_bytes_def word_eq_iff_unsigned [where 'a = nat]
        word_less_nat_alt simp del: of_nat_Suc of_nat_add split: option.split)
qed

definition address_bytes :: "wire \<Rightarrow> socket_address list \<Rightarrow> bytes" where
  "address_bytes W as = wr_u8 W (word_of_nat (length as)) @
     concat (map (\<lambda>a. wr_u8 W (word_of_nat (address_length W a)) @ wr_address W a) as)"

lemma write_node_addresses_eq:
  assumes "nde_latest_details d = Some l"
  shows "write_node_addresses W ho d (b # t) = Inr ((b OR 4) # t @ address_bytes W (sent_addresses W ho l))"
  using serialize_addresses_eq [of 0 W "ho_addresses ho (nd_addresses l)" "[]"] assms
  by (simp add: write_node_addresses_def or_first_def address_bytes_def sent_addresses_def Let_def)

lemma decode_addresses_sent:
  assumes "wire_ok W R"
  shows "decode_addresses R (address_bytes W (sent_addresses W ho l) @ rest) = Some (sent_addresses W ho l, rest)"
  unfolding address_bytes_def append_assoc
  by (rule decode_addresses_written [OF assms]) (auto simp: sent_addresses_def dest: in_set_takeD)

text \<open>Writing a node and reading it back.\<close>

definition node_writable :: "wire \<Rightarrow> node_delta_set \<Rightarrow> u8 \<Rightarrow> node_id \<Rightarrow> bool" where
  "node_writable W mutations version n \<longleftrightarrow> node_id_prefixed W n \<and>
     (version \<ge> 2 \<longrightarrow> (\<forall>d. hm_get mutations n = Some d \<longrightarrow> node_delta_writable d))"

definition count_node :: "node_delta option \<Rightarrow> node_counts \<Rightarrow> node_counts" where
  "count_node d c = (case Option.bind d nde_strategy of None \<Rightarrow> c
     | Some s \<Rightarrow> c\<lparr>
         nc_node_update_count := nc_node_update_count c +
           (if strategy_sends_addresses s \<or> strategy_sends_features s then 1 else 0),
         nc_node_feature_update_count := nc_node_feature_update_count c + (if strategy_sends_features s then 1 else 0),
         nc_node_address_update_count := nc_node_address_update_count c + (if strategy_sends_addresses s then 1 else 0)\<rparr>)"

lemma serialize_mutated_node:
  assumes n: "wr_node_id W n = b # t" and v: "version \<ge> 2"
    and d: "hm_get (ss_node_mutations details) n = Some d" "nde_strategy d = Some s" and l: "nde_latest_details d = Some l"
  shows "serialize_node W ho details version n (out, c) =
    Inr (out @ (((b OR (if strategy_sends_addresses s then 4 else 0)) OR
        push_bit 3 (if strategy_sends_features s
          then feature_index (ss_node_announcement_feature_defaults details) (nd_features l) else 0)) OR
        (if s = NodeReminder then 64 else 0)) # t @
      (if strategy_sends_addresses s then address_bytes W (sent_addresses W ho l) else []) @
      (if strategy_sends_features s
       then feature_bytes W (ss_node_announcement_feature_defaults details) (nd_features l) else []),
      count_node (Some d) c)"
  using assms
  by (auto simp: serialize_node_def count_node_def write_node_addresses_eq write_node_features_eq or_first_def
      strategy_sends_addresses_def strategy_sends_features_def
      split: node_serialization_strategy.splits)

lemma first_byte_plain:
  fixes b :: u8
  assumes "b AND 252 = 0"
  shows "b AND 3 = b" and "\<not> bit b 2" and "drop_bit 3 b AND 7 = 0" and "\<not> bit b 6"
  using first_byte [OF assms, of 0 False False] by simp_all

lemma decode_features_none: "decode_features R defaults 0 bs = Some (None, bs)"
  by (simp add: decode_features_def)

lemma decode_flagged_node:
  assumes W: "wire_ok W R" and n: "wr_node_id W n = b # t" and b: "b AND 252 = 0" and v: "version \<ge> 2" and k: "k < 8"
    and A: "\<And>rest. a \<Longrightarrow> decode_addresses R (ab @ rest) = Some (as, rest)"
    and F: "\<And>rest. decode_features R defaults k (fb @ rest) = Some (fs, rest)"
  shows "decode_node R version defaults () ((((b OR (if a then 4 else 0)) OR push_bit 3 k) OR (if r then 64 else 0)) #
      t @ (if a then ab else []) @ fb @ rest) =
    Some (\<lparr>wn_node_id = n, wn_addresses = (if a then Some as else None), wn_features = fs, wn_reminder = r\<rparr>, rest)"
proof -
  have "rd_node_id R (b # t @ r) = Some (n, r)" for r
    using wire_laws(8) [OF W, of n r] n by simp
  then show ?thesis
    using first_byte [OF b k, of a r] v A F by (simp add: decode_node_def)
qed

lemma decode_plain_node:
  assumes W: "wire_ok W R" and n: "wr_node_id W n = b # t" and b: "b AND 252 = 0"
  shows "decode_node R version defaults () (b # t @ rest) =
    Some (\<lparr>wn_node_id = n, wn_addresses = None, wn_features = None, wn_reminder = False\<rparr>, rest)"
proof -
  have "rd_node_id R (b # t @ r) = Some (n, r)" for r
    using wire_laws(8) [OF W, of n r] n by simp
  then show ?thesis
    using first_byte_plain [OF b] by (simp add: decode_node_def decode_features_def)
qed

text \<open>A reminder needs no details; the other strategies only when they send something.\<close>

lemma serialize_silent_node:
  assumes n: "wr_node_id W n = b # t" and v: "version \<ge> 2"
    and d: "hm_get (ss_node_mutations details) n = Some d" "nde_strategy d = Some s"
    and silent: "\<not> strategy_sends_addresses s" "\<not> strategy_sends_features s"
  shows "serialize_node W ho details version n (out, c) =
    Inr (out @ (b OR (if s = NodeReminder then 64 else 0)) # t, count_node (Some d) c)"
  using assms
  by (auto simp: serialize_node_def count_node_def or_first_def)

definition node_counted :: "serialization_set \<Rightarrow> u8 \<Rightarrow> node_id \<Rightarrow> node_counts \<Rightarrow> node_counts" where
  "node_counted details version n c =
     (if version \<ge> 2 then count_node (hm_get (ss_node_mutations details) n) c else c)"

lemma serialize_node_roundtrip:
  assumes W: "wire_ok W R" and wr: "node_writable W (ss_node_mutations details) version n"
    and len: "length (ss_node_announcement_feature_defaults details) \<le> 6"
  shows "\<exists>nb. (\<forall>out c. serialize_node W ho details version n (out, c) = Inr (out @ nb, node_counted details version n c)) \<and>
    (\<forall>rest. decode_node R version (ss_node_announcement_feature_defaults details) () (nb @ rest) =
      Some (node_view W ho (ss_node_mutations details) version n, rest))"
proof -
  let ?m = "ss_node_mutations details" and ?df = "ss_node_announcement_feature_defaults details"
  from wr obtain b t where n: "wr_node_id W n = b # t" and b: "b AND 252 = 0"
    by (auto simp: node_writable_def node_id_prefixed_def split: list.splits)
  show ?thesis
  proof (cases "version \<ge> 2 \<and> hm_get ?m n \<noteq> None")
    case False
    then show ?thesis
      using decode_plain_node [OF W n b, of version ?df]
      by (intro exI [of _ "b # t"]) (auto simp: serialize_node_def node_view_def node_counted_def count_node_def n)
  next
    case True
    then obtain d where v: "version \<ge> 2" and d: "hm_get ?m n = Some d" by auto
    with wr obtain s where s: "nde_strategy d = Some s" and det: "strategy_sends_addresses s \<or> strategy_sends_features s \<longrightarrow>
       (\<exists>l. nde_latest_details d = Some l \<and> node_features_fit (nd_features l))"
      by (auto simp: node_writable_def node_delta_writable_def)
    show ?thesis
    proof (cases "strategy_sends_addresses s \<or> strategy_sends_features s")
      case False
      then show ?thesis
        using decode_flagged_node [OF W n b v, of 0 False _ _ ?df "[]" None] serialize_silent_node [OF n v d s] v
        by (intro exI [of _ "(b OR (if s = NodeReminder then 64 else 0)) # t"])
          (auto simp: node_view_def node_counted_def d s decode_features_def)
    next
      case True
      with det obtain l where l: "nde_latest_details d = Some l" and fit: "node_features_fit (nd_features l)" by auto
      let ?k = "if strategy_sends_features s then feature_index ?df (nd_features l) else 0"
        and ?fb = "if strategy_sends_features s then feature_bytes W ?df (nd_features l) else []"
        and ?fs = "if strategy_sends_features s then Some (nd_features l) else None"
      have "decode_features R ?df ?k (?fb @ rest) = Some (?fs, rest)" "?k < 8" for rest
        using decode_features_written [OF W len fit] by (simp_all add: decode_features_none)
      note dec = decode_flagged_node [OF W n b v this(2) decode_addresses_sent [OF W] this(1),
          of "strategy_sends_addresses s" "s = NodeReminder" ho l]
      have "node_view W ho ?m version n = \<lparr>wn_node_id = n,
          wn_addresses = (if strategy_sends_addresses s then Some (sent_addresses W ho l) else None),
          wn_features = ?fs, wn_reminder = (s = NodeReminder)\<rparr>"
        using v by (simp add: node_view_def d s l)
      with dec serialize_mutated_node [OF n v d s l] show ?thesis
        by (intro exI conjI allI) (simp only: node_counted_def d v if_True append_assoc append_Cons)+
    qed
  qed
qed

text \<open>The loop over the node ids.\<close>

lemma node_loop:
  assumes W: "wire_ok W R" and wr: "\<And>n. n \<in> set ns \<Longrightarrow> node_writable W (ss_node_mutations details) version n"
    and len: "length (ss_node_announcement_feature_defaults details) \<le> 6"
  shows "\<exists>nb. (\<forall>out c. fold_res (serialize_node W ho details version) ns (out, c) =
      Inr (out @ nb, fold (node_counted details version) ns c)) \<and>
    (\<forall>rest. dec_stream (decode_node R version (ss_node_announcement_feature_defaults details)) (\<lambda>_. ())
       (length ns) () (nb @ rest) = Some (map (node_view W ho (ss_node_mutations details) version) ns, rest))"
  using wr
proof (induction ns)
  case (Cons n ns)
  from serialize_node_roundtrip [OF W Cons.prems [of n] len, of ho] obtain nb where
    "\<forall>out c. serialize_node W ho details version n (out, c) = Inr (out @ nb, node_counted details version n c)"
    "\<forall>rest. decode_node R version (ss_node_announcement_feature_defaults details) () (nb @ rest) =
      Some (node_view W ho (ss_node_mutations details) version n, rest)"
    by auto
  moreover from Cons obtain nr where
    "\<forall>out c. fold_res (serialize_node W ho details version) ns (out, c) =
      Inr (out @ nr, fold (node_counted details version) ns c)"
    "\<forall>rest. dec_stream (decode_node R version (ss_node_announcement_feature_defaults details)) (\<lambda>_. ())
       (length ns) () (nr @ rest) = Some (map (node_view W ho (ss_node_mutations details) version) ns, rest)"
    by auto
  ultimately show ?case by (intro exI [of _ "nb @ nr"]) simp
qed simp

end
