(* ===== verification/Snapshot_Format.thy ===== *)
theory Snapshot_Format
  imports Node_Section
begin

text \<open>
  The snapshot as a whole. A reader of the complete format is the reference; the lemmas put the
  pieces of Stripped_Codec, Rapid_Sync and Node_Section together and show that the output of
  \<open>serialize_delta\<close> and of \<open>serialize_empty_blob\<close> (src/lib.rs) is read back as what was
  written.
\<close>

section \<open>The reader\<close>

record wire_snapshot =
  ws_version :: u8
  ws_chain_hash :: chain_hash
  ws_timestamp :: u32
  ws_feature_defaults :: "node_features list"
  ws_nodes :: "wire_node list"
  ws_announcements :: "wire_announcement list"
  ws_updates :: "wire_update list"

definition decode_prefix :: "u8 reader" where
  "decode_prefix bs = (case bs of a # b # c # v # r \<Rightarrow> if [a, b, c] = GOSSIP_PREFIX then Some (v, r) else None
     | _ \<Rightarrow> None)"

definition decode_feature_defaults :: "wire_reader \<Rightarrow> u8 \<Rightarrow> node_features list reader" where
  "decode_feature_defaults R version bs =
     (if version \<ge> 2
      then do { (k, bs) \<leftarrow> rd_u8 R bs; dec_stream (\<lambda>_. rd_node_features R) (\<lambda>_. ()) (unat k) () bs }
      else Some ([], bs))"

definition decode_default_update_values :: "wire_reader \<Rightarrow> u32 \<Rightarrow> default_update_values reader" where
  "decode_default_update_values R update_count bs =
     (if update_count > 0
      then do {
        (cltv, bs) \<leftarrow> rd_u16 R bs;
        (hmin, bs) \<leftarrow> rd_u64 R bs;
        (base, bs) \<leftarrow> rd_u32 R bs;
        (prop, bs) \<leftarrow> rd_u32 R bs;
        (hmax, bs) \<leftarrow> rd_u64 R bs;
        Some (\<lparr>dv_cltv_expiry_delta = cltv, dv_htlc_minimum_msat = hmin, dv_fee_base_msat = base,
          dv_fee_proportional_millionths = prop, dv_htlc_maximum_msat = hmax\<rparr>, bs)
      }
      else Some (default_update_values_default, bs))"

definition decode_snapshot :: "wire_reader \<Rightarrow> wire_snapshot reader" where
  "decode_snapshot R bs = do {
     (version, bs) \<leftarrow> decode_prefix bs;
     (chain, bs) \<leftarrow> rd_chain_hash R bs;
     (timestamp, bs) \<leftarrow> rd_u32 R bs;
     (defaults, bs) \<leftarrow> decode_feature_defaults R version bs;
     (node_count, bs) \<leftarrow> rd_u32 R bs;
     (nodes, bs) \<leftarrow> dec_stream (decode_node R version defaults) (\<lambda>_. ()) (unat node_count) () bs;
     (announcement_count, bs) \<leftarrow> rd_u32 R bs;
     (announcements, bs) \<leftarrow> dec_stream (decode_announcement R) wa_scid (unat announcement_count) 0 bs;
     (update_count, bs) \<leftarrow> rd_u32 R bs;
     (dv, bs) \<leftarrow> decode_default_update_values R update_count bs;
     (updates, bs) \<leftarrow> dec_stream (decode_update R dv) wu_scid (unat update_count) 0 bs;
     Some (\<lparr>ws_version = version, ws_chain_hash = chain, ws_timestamp = timestamp,
       ws_feature_defaults = defaults, ws_nodes = nodes, ws_announcements = announcements,
       ws_updates = updates\<rparr>, bs)
   }"

text \<open>An announcement with its node positions replaced by the node ids that stand there.\<close>

definition resolve_node :: "wire_snapshot \<Rightarrow> u64 \<Rightarrow> node_id option" where
  "resolve_node snap i = (if unat i < length (ws_nodes snap) then Some (wn_node_id (ws_nodes snap ! unat i)) else None)"

definition resolve_announcement ::
  "wire_snapshot \<Rightarrow> wire_announcement \<Rightarrow> channel_features \<times> u64 \<times> node_id option \<times> node_id option" where
  "resolve_announcement snap a =
     (wa_features a, wa_scid a, resolve_node snap (wa_node_1 a), resolve_node snap (wa_node_2 a))"

definition announced :: "unsigned_channel_announcement \<Rightarrow> channel_features \<times> u64 \<times> node_id option \<times> node_id option" where
  "announced a = (ca_features a, ca_short_channel_id a, Some (ca_node_id_1 a), Some (ca_node_id_2 a))"

section \<open>When a serialization set can be written\<close>

definition snapshot_writable :: "wire \<Rightarrow> u8 \<Rightarrow> serialization_set \<Rightarrow> bool" where
  "snapshot_writable W version s \<longleftrightarrow>
     sorted (map ca_short_channel_id (ss_announcements s)) \<and>
     (\<forall>a \<in> set (ss_announcements s). channel_features_fit (ca_features a) \<and>
        node_id_prefixed W (ca_node_id_1 a) \<and> node_id_prefixed W (ca_node_id_2 a)) \<and>
     sorted (map update_scid (ss_updates s)) \<and>
     (\<forall>u \<in> set (ss_updates s). update_flags u AND 252 = 0) \<and>
     (\<forall>(n, d) \<in> set (ss_node_mutations s). node_id_prefixed W n \<and> node_delta_writable d) \<and>
     length (ss_node_announcement_feature_defaults s) \<le> 6 \<and>
     (\<forall>f \<in> set (ss_node_announcement_feature_defaults s). node_features_fit f) \<and>
     length (ss_updates s) < 2 ^ 32 \<and>
     2 * length (ss_announcements s) + length (ss_node_mutations s) < 2 ^ 32"

lemma unat_count: "k < 2 ^ 32 \<Longrightarrow> unat (word_of_nat k :: u32) = k"
  by (simp add: unsigned_of_nat take_bit_nat_eq_self)

lemma decode_feature_defaults_written:
  assumes W: "wire_ok W R" and fit: "\<And>f. f \<in> set defaults \<Longrightarrow> node_features_fit f" and len: "length defaults \<le> 6"
  shows "decode_feature_defaults R version ((if version \<ge> 2
      then wr_u8 W (word_of_nat (length defaults)) @ concat (map (wr_node_features W) defaults) else []) @ rest) =
    Some (if version \<ge> 2 then defaults else [], rest)"
proof -
  have "dec_stream (\<lambda>_. rd_node_features R) (\<lambda>_. ()) (length defaults) () (concat (map (wr_node_features W) defaults) @ rest) =
    Some (defaults, rest)"
    using fit by (induction defaults) (simp_all add: wire_laws [OF W])
  moreover have "unat (word_of_nat (length defaults) :: u8) = length defaults"
    using len by (simp add: unsigned_of_nat take_bit_nat_eq_self)
  ultimately show ?thesis by (simp add: decode_feature_defaults_def wire_laws [OF W])
qed

lemma decode_default_update_values_written:
  assumes "wire_ok W R"
  shows "decode_default_update_values R k ((if k > 0 then write_default_update_values W dv else []) @ rest) =
    Some (if k > 0 then dv else default_update_values_default, rest)"
  by (simp add: decode_default_update_values_def write_default_update_values_def wire_laws [OF assms])

lemma decode_prefix_written: "decode_prefix (GOSSIP_PREFIX @ v # r) = Some (v, r)"
  by (simp add: decode_prefix_def GOSSIP_PREFIX_def)

text \<open>The node ids of a snapshot: the channels' endpoints and, in version 2, the mutated nodes.\<close>

definition snapshot_nodes :: "u8 \<Rightarrow> serialization_set \<Rightarrow> node_id set" where
  "snapshot_nodes version s = (\<Union>a\<in>set (ss_announcements s). {ca_node_id_1 a, ca_node_id_2 a}) \<union>
     (if version \<ge> 2 then fst ` set (ss_node_mutations s) else {})"

lemma card_snapshot_nodes:
  "card (snapshot_nodes version s) \<le> 2 * length (ss_announcements s) + length (ss_node_mutations s)"
proof -
  have "card (\<Union>a\<in>set as. {ca_node_id_1 a, ca_node_id_2 a}) \<le> 2 * length as" for as :: "unsigned_channel_announcement list"
  proof (induction as)
    case (Cons a as)
    have "card (\<Union>a\<in>set (a # as). {ca_node_id_1 a, ca_node_id_2 a}) \<le>
      card {ca_node_id_1 a, ca_node_id_2 a} + card (\<Union>a\<in>set as. {ca_node_id_1 a, ca_node_id_2 a})"
      using card_Un_le by (simp only: list.set UN_insert)
    also have "card {ca_node_id_1 a, ca_node_id_2 a} \<le> 2"
      by (cases "ca_node_id_1 a = ca_node_id_2 a") simp_all
    finally show ?case using Cons.IH by simp
  qed simp
  moreover have "card (fst ` set ms) \<le> length ms" for ms :: node_delta_set
    by (metis card_length list.set_map length_map)
  ultimately show ?thesis
    unfolding snapshot_nodes_def
    by (intro order.trans [OF card_Un_le] add_mono) simp_all
qed

text \<open>The two numbering loops together.\<close>

lemma numbering_phases:
  assumes ho: "reorders (ho_node_mutations ho)" and w: "snapshot_writable W version s"
  obtains ix1 ix2 xs bs prev where
    "fold_res (announcement_step W) (ss_announcements s) (empty_indexer, out, 0) = Inr (ix1, out @ bs, prev)"
    and "fold_res (\<lambda>n ix. bind_res (get_node_id_index n ix) (\<lambda>(_, ix). Inr ix))
          (map fst (ho_node_mutations ho (ss_node_mutations s))) ix1 = Inr ix2"
    and "map fst xs = ss_announcements s"
    and "indexed (ix_node_ids (if version \<ge> 2 then ix2 else ix1)) xs"
    and "distinct (ix_node_ids (if version \<ge> 2 then ix2 else ix1))"
    and "set (ix_node_ids (if version \<ge> 2 then ix2 else ix1)) = snapshot_nodes version s"
    and "enc_stream (enc_announcement W) (\<lambda>x. ca_short_channel_id (fst x)) 0 xs = Inr bs"
proof -
  let ?as = "ss_announcements s" and ?ms = "map fst (ho_node_mutations ho (ss_node_mutations s))"
  have "ok_stream announcement_writable ca_short_channel_id prev as"
    if "sorted (map ca_short_channel_id as)" "\<forall>a \<in> set as. channel_features_fit (ca_features a)"
      "\<forall>a \<in> set as. prev \<le> ca_short_channel_id a" for prev as
    using that by (induction as arbitrary: prev) (auto simp: announcement_writable_def)
  then have "ok_stream announcement_writable ca_short_channel_id 0 ?as"
    using w by (simp add: snapshot_writable_def)
  from announcement_loop [OF indexer_ok_empty this, of W out] obtain ix1 xs bs prev where
    l1: "fold_res (announcement_step W) ?as (empty_indexer, out, 0) = Inr (ix1, out @ bs, prev)"
      "indexer_ok ix1" "set (ix_node_ids ix1) = (\<Union>a\<in>set ?as. {ca_node_id_1 a, ca_node_id_2 a})"
      "map fst xs = ?as" "indexed (ix_node_ids ix1) xs"
      "enc_stream (enc_announcement W) (\<lambda>x. ca_short_channel_id (fst x)) 0 xs = Inr bs"
    by (auto simp: empty_indexer_def)
  from node_index.fold_idx [OF l1(2), of ?ms] obtain ix2 where
    l2: "fold_res (\<lambda>n ix. bind_res (get_node_id_index n ix) (\<lambda>(_, ix). Inr ix)) ?ms ix1 = Inr ix2"
      "indexer_ok ix2" "prefix (ix_node_ids ix1) (ix_node_ids ix2)"
      "set (ix_node_ids ix2) = set (ix_node_ids ix1) \<union> set ?ms"
    by blast
  have "set (ho_node_mutations ho (ss_node_mutations s)) = set (ss_node_mutations s)"
    using reorders_set [OF ho] .
  then have "set (ix_node_ids (if version \<ge> 2 then ix2 else ix1)) = snapshot_nodes version s"
    using l1(3) l2(4) by (simp add: snapshot_nodes_def)
  with l1 l2 that [OF l1(1) l2(1) l1(4) _ _ _ l1(6)] indexed_prefix [OF l1(5) l2(3)] show thesis
    by (simp add: node_index.ok_distinct)
qed

section \<open>What serialize_delta produces\<close>

lemma node_id_of_view: "wn_node_id (node_view W ho ms version n) = n"
  by (simp add: node_view_def split: option.split)

lemma resolve_indexed:
  assumes "indexed ids xs" and "length ids < 2 ^ 32" and "ws_nodes snap = map (node_view W ho ms version) ids"
  shows "map (resolve_announcement snap) (map announcement_view xs) = map announced (map fst xs)"
proof -
  have "unat (word_of_nat i :: u64) = i" if "i < length ids" for i
    using that assms(2) by (simp add: unsigned_of_nat take_bit_nat_eq_self)
  with assms(1,3) show ?thesis
    by (auto simp: indexed_def resolve_announcement_def announcement_view_def announced_def resolve_node_def
        node_id_of_view split: prod.split)
qed

lemma snapshot_node_writable:
  assumes w: "snapshot_writable W version s" and n: "n \<in> snapshot_nodes version s"
  shows "node_writable W (ss_node_mutations s) version n"
proof -
  have "node_id_prefixed W n"
    using w n by (auto simp: snapshot_writable_def snapshot_nodes_def split: if_splits)
  moreover have "node_delta_writable d" if "hm_get (ss_node_mutations s) n = Some d" for d
    using w map_of_SomeD [OF that [unfolded hm_get_map_of]] by (auto simp: snapshot_writable_def)
  ultimately show ?thesis by (simp add: node_writable_def)
qed

text \<open>The response in closed form, with the pieces it is made of.\<close>

definition no_counts :: node_counts where
  "no_counts = \<lparr>nc_node_update_count = 0, nc_node_feature_update_count = 0, nc_node_address_update_count = 0\<rparr>"

definition response_of ::
  "wire \<Rightarrow> u32 \<Rightarrow> u8 \<Rightarrow> serialization_set \<Rightarrow> node_id list \<Rightarrow> bytes \<Rightarrow> bytes \<Rightarrow> bytes \<Rightarrow> serialized_response" where
  "response_of W interval version s ids nb ab ub =
     (let update_count = (word_of_nat (length (ss_updates s)) :: u32);
          counts = fold (node_counted s version) ids no_counts
      in \<lparr>sr_data = GOSSIP_PREFIX @ version # wr_chain_hash W (ss_chain_hash s) @
           wr_u32 W (saturating_sub (ss_latest_seen s) (ss_latest_seen s mod interval)) @
           (if version \<ge> 2 then wr_u8 W (word_of_nat (length (ss_node_announcement_feature_defaults s))) @
             concat (map (wr_node_features W) (ss_node_announcement_feature_defaults s)) else []) @
           wr_u32 W (word_of_nat (length ids)) @ nb @
           wr_u32 W (word_of_nat (length (ss_announcements s))) @ ab @
           wr_u32 W update_count @
           (if update_count > 0 then write_default_update_values W (ss_full_update_defaults s) else []) @ ub,
         sr_message_count = word_of_nat (length (ss_announcements s)) + update_count,
         sr_node_announcement_count = word_of_nat (length ids),
         sr_node_update_count = nc_node_update_count counts,
         sr_node_feature_update_count = nc_node_feature_update_count counts,
         sr_node_address_update_count = nc_node_address_update_count counts,
         sr_channel_announcement_count = word_of_nat (length (ss_announcements s)),
         sr_update_count = update_count,
         sr_update_count_full = word_of_nat (length (filter is_full (ss_updates s))),
         sr_update_count_incremental = word_of_nat (length (filter (\<lambda>u. \<not> is_full u) (ss_updates s)))\<rparr>)"

lemma announcement_pieces:
  assumes W: "wire_ok W R" and w: "snapshot_writable W version s" and xs: "map fst xs = ss_announcements s"
    and ab: "enc_stream (enc_announcement W) (\<lambda>x. ca_short_channel_id (fst x)) 0 xs = Inr ab"
  shows "dec_stream (decode_announcement R) wa_scid (length xs) 0 (ab @ rest) = Some (map announcement_view xs, rest)"
proof -
  have "sorted (map (\<lambda>x. ca_short_channel_id (fst x)) xs) \<and> (\<forall>x\<in>set xs. channel_features_fit (ca_features (fst x)))"
    using w unfolding snapshot_writable_def xs [symmetric] by (simp add: o_def)
  then have "ok_stream (\<lambda>prev x. wire_ok W R \<and> announcement_writable prev (fst x)) (\<lambda>x. ca_short_channel_id (fst x)) 0 xs"
    using W by (intro announcement_stream_ok) auto
  from announcement_stream.enc_dec_stream [OF this] ab show ?thesis by auto
qed

lemma update_pieces:
  assumes W: "wire_ok W R" and w: "snapshot_writable W version s"
  obtains ub prev' where
    "\<And>out. fold_res (update_step W (ss_full_update_defaults s)) (ss_updates s) (out, 0, 0, 0) =
      Inr (out @ ub, prev' out, word_of_nat (length (filter is_full (ss_updates s))), word_of_nat (length (filter (\<lambda>u. \<not> is_full u) (ss_updates s))))"
    and "\<And>rest. dec_stream (decode_update R (ss_full_update_defaults s)) wu_scid (length (ss_updates s)) 0 (ub @ rest) =
      Some (map update_view (ss_updates s), rest)"
proof -
  let ?us = "ss_updates s" and ?dv = "ss_full_update_defaults s"
  have "ok_stream (\<lambda>prev u. wire_ok W R \<and> update_writable prev u) update_scid 0 ?us"
    using w W by (intro update_stream_ok) (auto simp: snapshot_writable_def)
  from update_stream.enc_dec_stream [OF this, of ?dv] obtain ub where
    ub: "enc_stream (\<lambda>prev u. serialize_stripped_channel_update W u ?dv prev) update_scid 0 ?us = Inr ub"
      "\<And>rest. dec_stream (decode_update R ?dv) wu_scid (length ?us) 0 (ub @ rest) = Some (map update_view ?us, rest)"
    by auto
  have "\<forall>out. \<exists>prev'. fold_res (update_step W ?dv) ?us (out, 0, 0, 0) =
      Inr (out @ ub, prev', word_of_nat (length (filter is_full ?us)), word_of_nat (length (filter (\<lambda>u. \<not> is_full u) ?us)))"
    using update_loop [OF ub(1), of _ 0 0] by simp
  from choice [OF this] obtain prev' where
    "\<And>out. fold_res (update_step W ?dv) ?us (out, 0, 0, 0) =
      Inr (out @ ub, prev' out, word_of_nat (length (filter is_full ?us)), word_of_nat (length (filter (\<lambda>u. \<not> is_full u) ?us)))"
    by blast
  then show thesis using ub(2) that by blast
qed

lemma serialize_delta_pieces:
  assumes W: "wire_ok W R" and ho: "reorders (ho_node_mutations ho)"
    and iv: "snapshot_generation_interval e = Inr interval" and w: "snapshot_writable W version s"
  obtains ids xs ab ub nb where
    "serialize_delta W e ho s version = Inr (response_of W interval version s ids nb ab ub)"
    and "distinct ids" and "set ids = snapshot_nodes version s" and "length ids < 2 ^ 32"
    and "map fst xs = ss_announcements s" and "indexed ids xs"
    and "\<forall>rest. dec_stream (decode_node R version (ss_node_announcement_feature_defaults s)) (\<lambda>_. ())
       (length ids) () (nb @ rest) = Some (map (node_view W ho (ss_node_mutations s) version) ids, rest)"
    and "\<forall>rest. dec_stream (decode_announcement R) wa_scid (length xs) 0 (ab @ rest) =
       Some (map announcement_view xs, rest)"
    and "\<forall>rest. dec_stream (decode_update R (ss_full_update_defaults s)) wu_scid (length (ss_updates s)) 0 (ub @ rest) =
       Some (map update_view (ss_updates s), rest)"
proof -
  let ?as = "ss_announcements s" and ?us = "ss_updates s" and ?dv = "ss_full_update_defaults s"
  obtain ix1 ix2 xs ab prev where
    num: "fold_res (announcement_step W) ?as (empty_indexer, wr_u32 W (word_of_nat (length ?as)), 0) =
        Inr (ix1, wr_u32 W (word_of_nat (length ?as)) @ ab, prev)"
      "fold_res (\<lambda>n ix. bind_res (get_node_id_index n ix) (\<lambda>(_, ix). Inr ix))
        (map fst (ho_node_mutations ho (ss_node_mutations s))) ix1 = Inr ix2"
      "map fst xs = ?as"
    and ids: "indexed (ix_node_ids (if version \<ge> 2 then ix2 else ix1)) xs"
      "distinct (ix_node_ids (if version \<ge> 2 then ix2 else ix1))"
      "set (ix_node_ids (if version \<ge> 2 then ix2 else ix1)) = snapshot_nodes version s"
    and ab: "enc_stream (enc_announcement W) (\<lambda>x. ca_short_channel_id (fst x)) 0 xs = Inr ab"
    by (rule numbering_phases [OF ho w, of "wr_u32 W (word_of_nat (length ?as))"])
  define ids where "ids = ix_node_ids (if version \<ge> 2 then ix2 else ix1)"
  have "length ids = card (snapshot_nodes version s)"
    using ids(2,3) by (simp add: ids_def distinct_card [symmetric])
  then have few: "length ids < 2 ^ 32"
    using card_snapshot_nodes [of version s] w by (simp add: snapshot_writable_def)
  have nw: "node_writable W (ss_node_mutations s) version n" if "n \<in> set ids" for n
    using that snapshot_node_writable [OF w] ids(3) by (simp only: ids_def)
  have six: "length (ss_node_announcement_feature_defaults s) \<le> 6"
    using w by (simp add: snapshot_writable_def)
  from node_loop [OF W nw six, of ids ho] obtain nb where
    nb: "\<And>out c. fold_res (serialize_node W ho s version) ids (out, c) =
      Inr (out @ nb, fold (node_counted s version) ids c)"
      "\<And>rest. dec_stream (decode_node R version (ss_node_announcement_feature_defaults s)) (\<lambda>_. ())
       (length ids) () (nb @ rest) = Some (map (node_view W ho (ss_node_mutations s) version) ids, rest)"
    by blast
  note ann = announcement_pieces [OF W w num(3) ab]
  from update_pieces [OF W w] obtain ub prev' where
    ul: "\<And>out. fold_res (update_step W ?dv) ?us (out, 0, 0, 0) =
      Inr (out @ ub, prev' out, word_of_nat (length (filter is_full ?us)), word_of_nat (length (filter (\<lambda>u. \<not> is_full u) ?us)))"
    and ub: "\<And>rest. dec_stream (decode_update R ?dv) wu_scid (length ?us) 0 (ub @ rest) = Some (map update_view ?us, rest)" by blast
  have "serialize_delta W e ho s version = Inr (response_of W interval version s ids nb ab ub)"
    using nb(1) by (cases "version \<ge> 2")
      (simp_all add: serialize_delta_def response_of_def no_counts_def iv num(1,2) ul ids_def Let_def)
  with that [OF this _ _ few num(3)] ids nb(2) ann ub show thesis
    by (simp add: ids_def)
qed

lemma decode_node_v1: "\<not> version \<ge> 2 \<Longrightarrow> decode_node R version defaults = decode_node R version []"
  by (simp add: decode_node_def fun_eq_iff split: list.split)

lemma round_down_sub: "saturating_sub t (t mod i) = t - t mod i"
  by (simp add: saturating_sub_def word_le_nat_alt unat_mod)

lemma decode_response:
  assumes W: "wire_ok W R" and w: "snapshot_writable W version s" and few: "length ids < 2 ^ 32"
    and xs: "map fst xs = ss_announcements s"
    and nodes: "\<forall>rest. dec_stream (decode_node R version (ss_node_announcement_feature_defaults s)) (\<lambda>_. ())
       (length ids) () (nb @ rest) = Some (nodes, rest)"
    and anns: "\<forall>rest. dec_stream (decode_announcement R) wa_scid (length xs) 0 (ab @ rest) = Some (anns, rest)"
    and upds: "\<forall>rest. dec_stream (decode_update R (ss_full_update_defaults s)) wu_scid (length (ss_updates s)) 0 (ub @ rest) =
       Some (upds, rest)"
  shows "decode_snapshot R (sr_data (response_of W interval version s ids nb ab ub)) =
    Some (\<lparr>ws_version = version, ws_chain_hash = ss_chain_hash s,
      ws_timestamp = ss_latest_seen s - ss_latest_seen s mod interval,
      ws_feature_defaults = (if version \<ge> 2 then ss_node_announcement_feature_defaults s else []),
      ws_nodes = nodes, ws_announcements = anns, ws_updates = upds\<rparr>, [])"
proof -
  let ?d = "ss_node_announcement_feature_defaults s" and ?n = "length (ss_updates s)"
    and ?m = "length (ss_announcements s)"
  from w have six: "length ?d \<le> 6" and fit: "\<And>f. f \<in> set ?d \<Longrightarrow> node_features_fit f"
    and n: "?n < 2 ^ 32" and m: "?m < 2 ^ 32"
    by (auto simp: snapshot_writable_def)
  have counts: "unat (word_of_nat (length ids) :: u32) = length ids" "unat (word_of_nat ?m :: u32) = ?m"
    "unat (word_of_nat ?n :: u32) = ?n"
    using few n m by (simp_all only: unat_count)
  have nodes': "dec_stream (decode_node R version (if version \<ge> 2 then ?d else [])) (\<lambda>_. ())
       (length ids) () (nb @ rest) = Some (nodes, rest)" for rest
    using nodes decode_node_v1 [of version R ?d] by (cases "version \<ge> 2") simp_all
  have len: "length xs = ?m" using xs by (metis length_map)
  have upds': "dec_stream (decode_update R (if (word_of_nat ?n :: u32) > 0 then ss_full_update_defaults s
      else default_update_values_default)) wu_scid ?n 0 (ub @ rest) = Some (upds, rest)" for rest
  proof (cases "?n = 0")
    case False
    then have "(word_of_nat ?n :: u32) > 0" using counts(3) by (simp add: word_less_nat_alt)
    with upds show ?thesis by simp
  qed (use upds in simp)
  note upds'' = upds' [of "[]", simplified append_Nil2]
  show ?thesis
    unfolding response_of_def Let_def decode_snapshot_def serialized_response.select_convs
    by (simp only: decode_prefix_written wire_laws [OF W] decode_feature_defaults_written [OF W fit six]
        decode_default_update_values_written [OF W] counts nodes' anns [rule_format, unfolded len] upds''
        round_down_sub bind.bind_lunit prod.case)
qed

lemma serialize_delta_decodes:
  assumes "wire_ok W R" and "hash_orders_ok ho" and "snapshot_generation_interval e = Inr interval"
    and "snapshot_writable W version s"
  shows "\<exists>resp snap ids. serialize_delta W e ho s version = Inr resp \<and>
    decode_snapshot R (sr_data resp) = Some (snap, []) \<and>
    ws_version snap = version \<and> ws_chain_hash snap = ss_chain_hash s \<and>
    ws_timestamp snap = ss_latest_seen s - ss_latest_seen s mod interval \<and>
    ws_feature_defaults snap = (if version \<ge> 2 then ss_node_announcement_feature_defaults s else []) \<and>
    distinct ids \<and> set ids = snapshot_nodes version s \<and>
    ws_nodes snap = map (node_view W ho (ss_node_mutations s) version) ids \<and>
    map (resolve_announcement snap) (ws_announcements snap) = map announced (ss_announcements s) \<and>
    ws_updates snap = map update_view (ss_updates s)"
proof -
  have ho: "reorders (ho_node_mutations ho)" using assms(2) by (simp add: hash_orders_ok_def)
  obtain ids xs ab ub nb where
    ser: "serialize_delta W e ho s version = Inr (response_of W interval version s ids nb ab ub)"
    and ids: "distinct ids" "set ids = snapshot_nodes version s" "length ids < 2 ^ 32"
    and xs: "map fst xs = ss_announcements s" "indexed ids xs"
    and nb: "\<forall>rest. dec_stream (decode_node R version (ss_node_announcement_feature_defaults s)) (\<lambda>_. ())
       (length ids) () (nb @ rest) = Some (map (node_view W ho (ss_node_mutations s) version) ids, rest)"
    and ab: "\<forall>rest. dec_stream (decode_announcement R) wa_scid (length xs) 0 (ab @ rest) =
       Some (map announcement_view xs, rest)"
    and ub: "\<forall>rest. dec_stream (decode_update R (ss_full_update_defaults s)) wu_scid (length (ss_updates s)) 0 (ub @ rest) =
       Some (map update_view (ss_updates s), rest)"
    by (rule serialize_delta_pieces [OF assms(1) ho assms(3,4)])
  show ?thesis
    by (intro exI conjI, rule ser, rule decode_response [OF assms(1,4) ids(3) xs(1) nb ab ub])
      (use ids xs resolve_indexed [OF xs(2) ids(3), of _ W ho "ss_node_mutations s" version] in \<open>simp_all\<close>)
qed

section \<open>A concrete serialization set\<close>

definition sample_details :: node_details where
  "sample_details = \<lparr>nd_seen = Some 1700000200, nd_features = NodeFeatures [1, 2],
     nd_addresses = [SocketAddress [127, 0, 0, 1, 35], SocketAddress (replicate 300 9)]\<rparr>"

definition sample_set :: serialization_set where
  "sample_set = \<lparr>ss_announcements = [sample_announcement 100, sample_announcement 200],
     ss_updates = [Full (sample_update 100 0 7), Incremental (sample_update 200 1 9) sample_mutation, Reminder 200 3],
     ss_full_update_defaults = default_update_values_default\<lparr>dv_fee_base_msat := 7\<rparr>,
     ss_node_announcement_feature_defaults = [NodeFeatures [1, 2]],
     ss_node_mutations = [
       (sample_node 1, \<lparr>nde_latest_details = Some sample_details, nde_strategy = Some NodeFull,
          nde_last_details_before_seen = Some sample_details\<rparr>),
       (sample_node 3, \<lparr>nde_latest_details = None, nde_strategy = Some NodeReminder,
          nde_last_details_before_seen = None\<rparr>)],
     ss_latest_seen = 1700000200, ss_chain_hash = sample_genesis Bitcoin\<rparr>"

lemma sample_node_prefixed:
  assumes "k < 256"
  shows "node_id_prefixed bolt_wire (sample_node k)"
proof -
  have digits: "be_digits 33 x = word_of_nat (x div 256 ^ 32) # be_digits 32 (x mod 256 ^ 32)" for x
    using be_digits.simps(2) [of 32 x] by (simp only: Suc_numeral add_num_simps)
  have "unat (word_of_nat (2 * 256 ^ 32 + k) :: 264 word) = 2 * 256 ^ 32 + k"
    unfolding unsigned_of_nat of_nat_id by (rule take_bit_nat_eq_self) (use assms in simp)
  moreover have "(2 * 256 ^ 32 + k) div 256 ^ 32 = 2"
    using assms by simp
  ultimately show ?thesis
    by (simp only: node_id_prefixed_def bolt_wire_def wire.select_convs o_def sample_node_def node_id.sel
        be_write_def digits list.case) simp
qed

lemma sample_set_writable: "snapshot_writable bolt_wire 2 sample_set"
  by (simp add: snapshot_writable_def sample_set_def sample_announcement_def sample_update_def sample_details_def
      sample_node_prefixed node_delta_writable_def channel_features_fit_def node_features_fit_def
      strategy_sends_addresses_def strategy_sends_features_def)

section \<open>Counters\<close>

definition node_sends :: "(node_serialization_strategy \<Rightarrow> bool) \<Rightarrow> u8 \<Rightarrow> serialization_set \<Rightarrow> node_id \<Rightarrow> bool" where
  "node_sends p version s n \<longleftrightarrow> version \<ge> 2 \<and>
     (\<exists>d st. hm_get (ss_node_mutations s) n = Some d \<and> nde_strategy d = Some st \<and> p st)"

definition sends_anything :: "node_serialization_strategy \<Rightarrow> bool" where
  "sends_anything st \<longleftrightarrow> strategy_sends_addresses st \<or> strategy_sends_features st"

lemma node_counted_fields:
  "nc_node_update_count (node_counted s version n c) =
     nc_node_update_count c + (if node_sends sends_anything version s n then 1 else 0)"
  "nc_node_feature_update_count (node_counted s version n c) =
     nc_node_feature_update_count c + (if node_sends strategy_sends_features version s n then 1 else 0)"
  "nc_node_address_update_count (node_counted s version n c) =
     nc_node_address_update_count c + (if node_sends strategy_sends_addresses version s n then 1 else 0)"
  by (auto simp: node_counted_def count_node_def node_sends_def sends_anything_def split: option.split bind_splits)

lemma fold_counter:
  assumes "\<And>x c. g (f x c) = g c + (if p x then 1 else 0 :: u32)"
  shows "g (fold f xs c) = g c + word_of_nat (length (filter p xs))"
  using assms by (induction xs arbitrary: c) simp_all

lemma fold_counter_card:
  assumes "\<And>x c. g (f x c) = g c + (if p x then 1 else 0 :: u32)" and "distinct xs" and "g c = 0"
  shows "g (fold f xs c) = word_of_nat (card {x \<in> set xs. p x})"
  using fold_counter [of g f p xs c] assms by (simp add: distinct_length_filter Int_def conj_commute)

section \<open>Properties\<close>

text \<open>
  C9. Whatever set \<open>serialize_delta\<close> is given, if it can be written the call returns bytes that
  the reader of the format takes apart completely: the version, the chain, the rounded timestamp,
  the feature defaults, one entry per node of the snapshot with the addresses and features its
  strategy sends, the announcements with their endpoints, and the updates in order.
\<close>

theorem serialize_delta_roundtrip:
  assumes "wire_ok W R" and "hash_orders_ok ho" and "snapshot_generation_interval e = Inr interval"
    and "snapshot_writable W version s"
  shows "\<exists>resp snap ids. serialize_delta W e ho s version = Inr resp \<and>
    decode_snapshot R (sr_data resp) = Some (snap, []) \<and>
    ws_version snap = version \<and> ws_chain_hash snap = ss_chain_hash s \<and>
    ws_timestamp snap = ss_latest_seen s - ss_latest_seen s mod interval \<and>
    ws_feature_defaults snap = (if version \<ge> 2 then ss_node_announcement_feature_defaults s else []) \<and>
    distinct ids \<and> set ids = snapshot_nodes version s \<and>
    ws_nodes snap = map (node_view W ho (ss_node_mutations s) version) ids \<and>
    map (resolve_announcement snap) (ws_announcements snap) = map announced (ss_announcements s) \<and>
    ws_updates snap = map update_view (ss_updates s)"
  by (rule serialize_delta_decodes [OF assms])

theorem serialize_delta_roundtrip_witness:
  "\<exists>resp snap. serialize_delta bolt_wire sample_env sample_orders sample_set 2 = Inr resp \<and>
    decode_snapshot bolt_reader (sr_data resp) = Some (snap, []) \<and> ws_timestamp snap = 1699995600 \<and>
    length (ws_nodes snap) = 3 \<and>
    map (resolve_announcement snap) (ws_announcements snap) =
      [(ChannelFeatures [], 100, Some (sample_node 1), Some (sample_node 2)),
       (ChannelFeatures [], 200, Some (sample_node 1), Some (sample_node 2))] \<and>
    map wu_fee_base_msat (ws_updates snap) = [Some 7, Some 9, None]"
proof -
  obtain resp snap ids where r:
    "serialize_delta bolt_wire sample_env sample_orders sample_set 2 = Inr resp"
    "decode_snapshot bolt_reader (sr_data resp) = Some (snap, [])"
    "ws_timestamp snap = ss_latest_seen sample_set - ss_latest_seen sample_set mod 10800"
    "distinct ids" "set ids = snapshot_nodes 2 sample_set"
    "ws_nodes snap = map (node_view bolt_wire sample_orders (ss_node_mutations sample_set) 2) ids"
    "map (resolve_announcement snap) (ws_announcements snap) = map announced (ss_announcements sample_set)"
    "ws_updates snap = map update_view (ss_updates sample_set)"
    using serialize_delta_roundtrip [OF bolt_wire_ok sample_orders_ok sample_env_interval sample_set_writable] by auto
  have "snapshot_nodes 2 sample_set = {sample_node 1, sample_node 2, sample_node 3}"
    by (auto simp: snapshot_nodes_def sample_set_def sample_announcement_def)
  then have "length ids = 3"
    using r(4,5) by (simp add: distinct_card [symmetric] sample_node_def)
  with r show ?thesis
    by (intro exI [of _ resp] exI [of _ snap] conjI)
      (simp_all add: sample_set_def announced_def sample_announcement_def sample_update_def sample_mutation_def
        mutated_properties_default_def)
qed

text \<open>
  The timestamp of a snapshot is a multiple of the generation interval (and hence of the
  symlink granularity), and lies less than one interval before the latest message included.
\<close>

lemma serialized_timestamp_rounded:
  assumes "wire_ok W R" and "hash_orders_ok ho" and "snapshot_generation_interval e = Inr interval"
    and "snapshot_writable W version s"
  shows "\<exists>resp snap. serialize_delta W e ho s version = Inr resp \<and>
    decode_snapshot R (sr_data resp) = Some (snap, []) \<and>
    unat interval dvd unat (ws_timestamp snap) \<and> unat SYMLINK_GRANULARITY_INTERVAL dvd unat (ws_timestamp snap) \<and>
    ws_timestamp snap \<le> ss_latest_seen s \<and>
    unat (ss_latest_seen s) < unat (ws_timestamp snap) + unat interval"
proof -
  have pos: "0 < unat interval" and gran: "unat SYMLINK_GRANULARITY_INTERVAL dvd unat interval"
    using snapshot_generation_interval_cases [OF assms(3)]
    by (simp_all add: word_less_nat_alt dvd_eq_mod_eq_0 word_eq_iff_unsigned [where 'a = nat] unat_mod)
  let ?t = "ss_latest_seen s"
  have "unat (?t - ?t mod interval) = unat ?t - unat ?t mod unat interval"
    by (simp add: unat_sub word_le_nat_alt unat_mod)
  moreover have "unat ?t - unat ?t mod unat interval = unat interval * (unat ?t div unat interval)"
    by (simp add: minus_mod_eq_mult_div)
  moreover have "unat ?t < unat ?t - unat ?t mod unat interval + unat interval"
    using mod_less_divisor [OF pos, of "unat ?t"] by linarith
  ultimately show ?thesis
    using serialize_delta_decodes [OF assms] gran
    by (auto simp: word_le_nat_alt)
qed

lemma serialized_timestamp_rounded_example:
  "\<exists>resp snap. serialize_delta bolt_wire sample_env sample_orders sample_set 2 = Inr resp \<and>
    decode_snapshot bolt_reader (sr_data resp) = Some (snap, []) \<and>
    10800 dvd unat (ws_timestamp snap) \<and> 1700000200 < unat (ws_timestamp snap) + 10800"
  using serialized_timestamp_rounded [OF bolt_wire_ok sample_orders_ok sample_env_interval sample_set_writable]
  by (auto simp: sample_set_def)

text \<open>
  The counters that \<open>serialize_delta\<close> returns beside the data: the announcements, the updates
  split into full and incremental ones, one node per distinct node id, and among the nodes those
  whose strategy sends addresses, features, or any of the two.
\<close>

lemma serialize_delta_counts:
  assumes "wire_ok W R" and "hash_orders_ok ho" and "snapshot_generation_interval e = Inr interval"
    and "snapshot_writable W version s"
  shows "\<exists>resp. serialize_delta W e ho s version = Inr resp \<and>
    unat (sr_channel_announcement_count resp) = length (ss_announcements s) \<and>
    unat (sr_update_count resp) = length (ss_updates s) \<and>
    unat (sr_update_count_full resp) + unat (sr_update_count_incremental resp) = unat (sr_update_count resp) \<and>
    sr_message_count resp = sr_channel_announcement_count resp + sr_update_count resp \<and>
    unat (sr_node_announcement_count resp) = card (snapshot_nodes version s) \<and>
    unat (sr_node_update_count resp) = (card {n \<in> snapshot_nodes version s. node_sends sends_anything version s n}) \<and>
    unat (sr_node_feature_update_count resp) =
      (card {n \<in> snapshot_nodes version s. node_sends strategy_sends_features version s n}) \<and>
    unat (sr_node_address_update_count resp) =
      (card {n \<in> snapshot_nodes version s. node_sends strategy_sends_addresses version s n})"
proof -
  have ho: "reorders (ho_node_mutations ho)" using assms(2) by (simp add: hash_orders_ok_def)
  obtain ids xs ab ub nb where
    ser: "serialize_delta W e ho s version = Inr (response_of W interval version s ids nb ab ub)"
    and ids: "distinct ids" "set ids = snapshot_nodes version s" "length ids < 2 ^ 32"
    by (rule serialize_delta_pieces [OF assms(1) ho assms(3,4)])
  have len: "length (ss_announcements s) < 2 ^ 32" "length (ss_updates s) < 2 ^ 32"
    using assms(4) by (simp_all add: snapshot_writable_def)
  have few: "length (filter p (ss_updates s)) < 2 ^ 32" for p
    using len(2) le_less_trans [OF length_filter_le] by blast
  have split: "length (filter is_full (ss_updates s)) + length (filter (\<lambda>u. \<not> is_full u) (ss_updates s)) = length (ss_updates s)"
    by (rule sum_length_filter_compl)
  have card: "length ids = card (snapshot_nodes version s)"
    using ids(1,2) by (simp add: distinct_card [symmetric])
  have "card {n \<in> snapshot_nodes version s. p n} \<le> card (snapshot_nodes version s)" for p
    using ids(2) [symmetric] by (intro card_mono) simp_all
  then have part: "card {n \<in> snapshot_nodes version s. p n} < 2 ^ 32" for p
    using ids(3) card by (metis le_less_trans)
  have zero: "nc_node_update_count no_counts = 0" "nc_node_feature_update_count no_counts = 0"
    "nc_node_address_update_count no_counts = 0"
    by (simp_all add: no_counts_def)
  note counters = fold_counter_card [where f = "node_counted s version" and c = no_counts, OF _ ids(1), unfolded ids(2)]
  show ?thesis
    by (rule exI, rule conjI, rule ser)
      (simp add: response_of_def Let_def unat_count [OF len(1)] unat_count [OF len(2)] unat_count [OF ids(3)]
        unat_count [OF few] split unat_count [OF part] counters [OF node_counted_fields(1) zero(1)]
        counters [OF node_counted_fields(2) zero(2)] counters [OF node_counted_fields(3) zero(3)] flip: card)
qed

lemma serialize_delta_counts_example:
  "\<exists>resp. serialize_delta bolt_wire sample_env sample_orders sample_set 2 = Inr resp \<and>
    unat (sr_channel_announcement_count resp) = 2 \<and> unat (sr_update_count resp) = 3 \<and>
    unat (sr_update_count_full resp) + unat (sr_update_count_incremental resp) = 3"
  using serialize_delta_counts [OF bolt_wire_ok sample_orders_ok sample_env_interval sample_set_writable]
  by (auto simp: sample_set_def)

text \<open>
  The blob for clients that are already up to date has the same format with no content: for
  either version it is read back as an empty snapshot whose timestamp is the current time rounded
  down to the symlink granularity.
\<close>

lemma serialize_empty_blob_decodes:
  assumes "wire_ok W R" and "config_network e = Inr network"
  shows "\<exists>blob. serialize_empty_blob W e genesis_hash now version = Inr blob \<and>
    decode_snapshot R blob = Some (\<lparr>ws_version = version, ws_chain_hash = genesis_hash network,
      ws_timestamp = word_of_nat (unat now - unat now mod 10800), ws_feature_defaults = [], ws_nodes = [],
      ws_announcements = [], ws_updates = []\<rparr>, [])"
proof -
  have "unat (now - now mod 10800) = unat now - unat now mod 10800"
    by (simp add: unat_sub word_le_nat_alt unat_mod)
  then have ts: "ucast (now - now mod 10800) = (word_of_nat (unat now - unat now mod 10800) :: u32)"
    by (metis of_nat_unat)
  have "rd_u8 R (0 # r) = Some (0, r)" "rd_u32 R (wr_u32 W 0) = Some (0, [])" for r
    using wire_laws(1) [OF assms(1), of 0 r] wire_laws(3) [OF assms(1), of 0 "[]"]
    by (simp_all add: wire_ok_u8 [OF assms(1)])
  then show ?thesis
    by (simp add: serialize_empty_blob_def assms(2) round_down_to_nearest_multiple_def SYMLINK_GRANULARITY_INTERVAL_def
        Let_def decode_snapshot_def wire_ok_u8 [OF assms(1)] decode_prefix_written wire_laws [OF assms(1)]
        decode_feature_defaults_def decode_default_update_values_def ts)
qed

lemma serialize_empty_blob_decodes_example:
  "\<exists>blob. serialize_empty_blob bolt_wire sample_env sample_genesis 1700000200 2 = Inr blob \<and>
    decode_snapshot bolt_reader blob = Some (\<lparr>ws_version = 2, ws_chain_hash = ChainHash 1,
      ws_timestamp = 1699995600, ws_feature_defaults = [], ws_nodes = [], ws_announcements = [], ws_updates = []\<rparr>, [])"
  using serialize_empty_blob_decodes [OF bolt_wire_ok sample_env_network, of sample_genesis 1700000200 2]
  by (simp add: sample_genesis_def)

end
