(* ===== verification/Serialization_Properties.thy ===== *)
theory Serialization_Properties
  imports Snapshot_Format
begin

text \<open>
  What the serializer of src/serialization.rs guarantees about a snapshot: the order of the
  messages, which updates are sent in full, incrementally or as reminders, the default values, the
  node mutations, and that the delta sets reach the client through \<open>serialize_delta\<close>.
\<close>

section \<open>Helper lemmas\<close>






lemma channel_update_cases:
  "u \<in> set (channel_updates_of last_sync threshold scid d) \<longleftrightarrow>
     (\<exists>dir \<in> {fst (cd_updates d), snd (cd_updates d)}. u \<in> set (directed_update last_sync threshold scid d dir))"
  by (auto simp: channel_updates_of_def)

lemma directed_incremental:
  assumes "Incremental u m \<in> set (directed_update last_sync threshold scid d dir)"
  obtains x b l where "dir = Some x" and "dud_last_update_before_seen x = Some b" and "threshold < ud_seen b"
    and "dud_latest_update_after_seen x = Some l" and "u = ud_update l" and "m = dud_mutated_properties x"
    and "m \<noteq> mutated_properties_default" and "mutated_properties_len m \<noteq> 5" and "\<not> send_announcement last_sync d"
  using assms
  by (auto simp: directed_update_def Let_def not_le split: option.splits if_splits)

lemma sample_clock: "checked_sub 1700000200 CHANNEL_REMINDER_AGE = Some 1699481800"
  by (simp add: checked_sub_def CHANNEL_REMINDER_AGE_def)

lemma sample_serialized:
  "serialize_delta_set sample_env sample_genesis sample_orders 1700000200 sample_delta_set [] 1699950000 = Inr s \<Longrightarrow>
   ss_updates s = [Incremental (sample_update 100 0 7) sample_mutation, Incremental (sample_update 200 0 7) sample_mutation]"
  by (rule serialize_delta_set_fields [OF sample_env_network sample_clock sample_delta_set_ok,
      of sample_genesis sample_orders "[]" 1699950000])
    (simp add: sample_delta_set_def sample_delta_def channel_updates_of_def directed_update_def channel_delta_default_def
      send_announcement_def is_newly_included_def mutated_properties_len_def sample_mutation_def mutated_properties_default_def)

lemma length_channel_updates: "length (concat (map (\<lambda>(scid, d). channel_updates_of last_sync threshold scid d) ds)) \<le> 2 * length ds"
proof (induction ds)
  case (Cons x ds)
  have "length (channel_updates_of last_sync threshold scid d) \<le> 2" for scid d
    using add_mono [OF length_directed_update length_directed_update, of last_sync threshold scid d
        "fst (cd_updates d)" last_sync threshold scid d "snd (cd_updates d)"]
    by (simp add: channel_updates_of_def)
  from this [of "fst x" "snd x"] Cons show ?case by (simp add: split_beta)
qed simp

lemma channel_announcement_scid:
  "channel_delta_ok k d \<Longrightarrow> a \<in> set (channel_announcements_of last_sync d) \<Longrightarrow> ca_short_channel_id a = k"
  by (auto simp: channel_announcements_of_def channel_delta_ok_def split: if_splits)

lemma channel_update_scid:
  "channel_delta_ok k d \<Longrightarrow> u \<in> set (channel_updates_of last_sync threshold k d) \<Longrightarrow> update_scid u = k"
  by (auto simp: channel_update_cases channel_delta_ok_def dest: directed_update_scid)

lemma delta_set_announcements_sorted:
  assumes "delta_set_ok ds"
  shows "sorted_wrt (<) (map ca_short_channel_id (concat (map (\<lambda>(scid, d). channel_announcements_of last_sync d) ds)))"
proof (rule strict_sorted_concat_keys)
  show "length (channel_announcements_of last_sync d) \<le> 1" for d
    by (simp add: channel_announcements_of_def split: option.split)
qed (use assms in \<open>auto simp: delta_set_ok_def dest: channel_announcement_scid\<close>)

lemma delta_set_updates_sorted:
  assumes "delta_set_ok ds"
  shows "sorted (map update_scid (concat (map (\<lambda>(scid, d). channel_updates_of last_sync threshold scid d) ds)))"
  by (rule sorted_concat_keys) (use assms in \<open>auto simp: delta_set_ok_def dest: channel_update_scid\<close>)

text \<open>
  What the lookup puts into the first slot of a channel belongs to direction 0, into the second to
  direction 1: the lowest flag of the updates and of the reminder says so.
\<close>

definition slot_directed :: "bool \<Rightarrow> directed_update_delta option \<Rightarrow> bool" where
  "slot_directed b dir \<longleftrightarrow> (\<forall>x. dir = Some x \<longrightarrow>
     (\<forall>y. dud_latest_update_after_seen x = Some y \<or> dud_last_update_before_seen x = Some y \<longrightarrow> bit (cu_channel_flags (ud_update y)) 0 = b) \<and>
     (\<forall>fl. dud_serialization_update_flags x = Some fl \<longrightarrow> bit fl 0 = b))"

definition delta_set_directed :: "delta_set \<Rightarrow> bool" where
  "delta_set_directed ds \<longleftrightarrow> (\<forall>(scid, d) \<in> set ds. slot_directed False (fst (cd_updates d)) \<and> slot_directed True (snd (cd_updates d)))"

text \<open>The order of a snapshot: by channel id, the two directions of a channel one after the other.\<close>

definition update_before :: "update_serialization \<Rightarrow> update_serialization \<Rightarrow> bool" where
  "update_before u v \<longleftrightarrow> update_scid u < update_scid v \<or>
     update_scid u = update_scid v \<and> \<not> bit (update_flags u) 0 \<and> bit (update_flags v) 0"

lemma slot_update_direction:
  assumes "slot_directed b dir" and "u \<in> set (directed_update last_sync threshold scid d dir)"
  shows "bit (update_flags u) 0 = b"
  using assms by (auto simp: slot_directed_def directed_update_def Let_def split: option.splits if_splits)

lemma channel_updates_before:
  assumes "channel_delta_ok scid d" and "slot_directed False (fst (cd_updates d))" and "slot_directed True (snd (cd_updates d))"
  shows "sorted_wrt update_before (channel_updates_of last_sync threshold scid d)"
proof -
  let ?a = "directed_update last_sync threshold scid d (fst (cd_updates d))" and ?b = "directed_update last_sync threshold scid d (snd (cd_updates d))"
  have "sorted_wrt update_before ?a" "sorted_wrt update_before ?b"
    using length_directed_update [of last_sync threshold scid d "fst (cd_updates d)"] length_directed_update [of last_sync threshold scid d "snd (cd_updates d)"]
    by (auto simp: le_Suc_eq length_Suc_conv)
  moreover have "update_before u v" if "u \<in> set ?a" "v \<in> set ?b" for u v
    using that slot_update_direction [OF assms(2)] slot_update_direction [OF assms(3)] channel_update_scid [OF assms(1), of _ last_sync threshold]
    by (auto simp: update_before_def channel_updates_of_def)
  ultimately show ?thesis by (simp add: channel_updates_of_def sorted_wrt_append)
qed

lemma delta_set_updates_before:
  assumes "delta_set_ok ds" and "delta_set_directed ds"
  shows "sorted_wrt update_before (concat (map (\<lambda>(scid, d). channel_updates_of last_sync threshold scid d) ds))"
proof -
  have "sorted_wrt update_before (concat (map (\<lambda>(scid, d). channel_updates_of last_sync threshold scid d) es))"
    if "bt_inv es" "\<forall>(scid, d) \<in> set es. channel_delta_ok scid d \<and> slot_directed False (fst (cd_updates d)) \<and> slot_directed True (snd (cd_updates d))" for es
    using that
  proof (induction es)
    case (Cons e es)
    obtain scid d where e: "e = (scid, d)" by (cases e)
    have "update_before u v" if "u \<in> set (channel_updates_of last_sync threshold scid d)" "(k, d') \<in> set es"
      "v \<in> set (channel_updates_of last_sync threshold k d')" for u v k d'
    proof -
      have "channel_delta_ok scid d" "channel_delta_ok k d'" "scid < k" using Cons.prems that(2) by (fastforce simp: e)+
      with channel_update_scid that(1,3) show ?thesis unfolding update_before_def by metis
    qed
    with Cons channel_updates_before show ?case by (fastforce simp: e sorted_wrt_append)
  qed simp
  then show ?thesis using assms by (force simp: delta_set_ok_def delta_set_directed_def)
qed

lemma distinct_directions:
  assumes "sorted_wrt update_before us"
  shows "distinct (map (\<lambda>u. (update_scid u, bit (update_flags u) 0)) us)"
  using assms by (induction us) (auto simp: update_before_def)

text \<open>A node mutation in one equation.\<close>

definition refreshed :: "u32 \<Rightarrow> node_details \<Rightarrow> node_delta \<Rightarrow> node_delta" where
  "refreshed threshold b d = d\<lparr>nde_strategy :=
     (if \<exists>seen. nd_seen b = Some seen \<and> seen \<le> threshold then Some NodeFull else nde_strategy d)\<rparr>"

lemma node_mutation_eq:
  "node_mutation threshold (n, d) =
     (if nde_strategy d = None then None else map_option (\<lambda>b. (n, refreshed threshold b d)) (nde_last_details_before_seen d))"
  by (auto simp: node_mutation_def refreshed_def split: option.split)

lemma mutated_nodes_keys:
  "map fst (mutated_nodes threshold nds) =
     map fst (filter (\<lambda>(n, d). nde_strategy d \<noteq> None \<and> nde_last_details_before_seen d \<noteq> None) nds)"
proof (induction nds)
  case (Cons x nds)
  obtain n d where "x = (n, d)" by (cases x)
  with Cons show ?case
    by (cases "nde_strategy d"; cases "nde_last_details_before_seen d")
      (simp_all add: mutated_nodes_def node_mutation_eq map_filter_simps)
qed (simp add: mutated_nodes_def map_filter_simps)

lemma set_map_filter: "y \<in> set (List.map_filter f xs) \<longleftrightarrow> (\<exists>x \<in> set xs. f x = Some y)"
  by (induction xs) (auto simp: map_filter_simps split: option.split)

lemma refreshed_fields [simp]:
  "nde_latest_details (refreshed threshold b d) = nde_latest_details d"
  "nde_last_details_before_seen (refreshed threshold b d) = nde_last_details_before_seen d"
  "nde_strategy (refreshed threshold b d) =
     (if \<exists>seen. nd_seen b = Some seen \<and> seen \<le> threshold then Some NodeFull else nde_strategy d)"
  by (simp_all add: refreshed_def)

lemma mutated_nodes_entry:
  "(n, d') \<in> set (mutated_nodes threshold nds) \<longleftrightarrow>
     (\<exists>d b. (n, d) \<in> set nds \<and> nde_strategy d \<noteq> None \<and> nde_last_details_before_seen d = Some b \<and> d' = refreshed threshold b d)"
  by (force simp: mutated_nodes_def node_mutation_eq set_map_filter split: if_splits)

definition sample_node_deltas :: node_delta_set where
  "sample_node_deltas = [
     (sample_node 1, \<lparr>nde_latest_details = Some sample_details,
        nde_strategy = Some (NodeMutated \<lparr>mnp_addresses = True, mnp_features = False\<rparr>),
        nde_last_details_before_seen = Some (sample_details\<lparr>nd_seen := Some 1600000000\<rparr>)\<rparr>),
     (sample_node 2, \<lparr>nde_latest_details = Some sample_details,
        nde_strategy = Some NodeFull, nde_last_details_before_seen = None\<rparr>)]"

text \<open>What the gossip itself has to satisfy for a snapshot of it to be readable.\<close>

definition directed_flags_ok :: "directed_update_delta option \<Rightarrow> bool" where
  "directed_flags_ok dir \<longleftrightarrow> (\<forall>x. dir = Some x \<longrightarrow>
     (\<forall>l. dud_latest_update_after_seen x = Some l \<longrightarrow> cu_channel_flags (ud_update l) AND 252 = 0) \<and>
     (\<forall>b. dud_last_update_before_seen x = Some b \<longrightarrow> cu_channel_flags (ud_update b) AND 252 = 0) \<and>
     (\<forall>fl. dud_serialization_update_flags x = Some fl \<longrightarrow> fl AND 252 = 0))"

definition gossip_ok :: "wire \<Rightarrow> delta_set \<Rightarrow> node_delta_set \<Rightarrow> bool" where
  "gossip_ok W ds nds \<longleftrightarrow>
     (\<forall>(scid, d) \<in> set ds. directed_flags_ok (fst (cd_updates d)) \<and> directed_flags_ok (snd (cd_updates d)) \<and>
        (\<forall>a. cd_announcement d = Some a \<longrightarrow> channel_features_fit (ca_features (ad_announcement a)) \<and>
           node_id_prefixed W (ca_node_id_1 (ad_announcement a)) \<and> node_id_prefixed W (ca_node_id_2 (ad_announcement a)))) \<and>
     (\<forall>(n, d) \<in> set nds. node_id_prefixed W n \<and>
        (\<exists>l. nde_latest_details d = Some l \<and> node_features_fit (nd_features l))) \<and>
     2 * length ds + length nds < 2 ^ 32"

lemma directed_update_flags:
  assumes "directed_flags_ok dir" and "u \<in> set (directed_update last_sync threshold scid d dir)"
  shows "update_flags u AND 252 = 0"
  using assms by (auto simp: directed_update_def directed_flags_ok_def Let_def split: option.splits if_splits)

lemma length_channel_announcements:
  "length (concat (map (\<lambda>(scid, d). channel_announcements_of last_sync d) ds)) \<le> length ds"
  by (induction ds) (auto simp: channel_announcements_of_def split: option.split)

lemma length_mutated_nodes: "length (mutated_nodes threshold nds) \<le> length nds"
  using arg_cong [OF mutated_nodes_keys [of threshold nds], of length] by simp

lemma counted_features_latest:
  "f \<in> set (counted_features d) \<Longrightarrow> \<exists>l. nde_latest_details d = Some l \<and> f = nd_features l"
  by (cases "nde_strategy d"; cases "the (nde_strategy d)"; cases "nde_latest_details d")
    (auto simp: counted_features_def split: if_splits)

lemma mutated_nodes_latest:
  assumes "gossip_ok W ds nds" and "(n, d) \<in> set (mutated_nodes threshold nds)"
  shows "node_id_prefixed W n \<and> (\<exists>l. nde_latest_details d = Some l \<and> node_features_fit (nd_features l)) \<and> nde_strategy d \<noteq> None"
  using assms by (fastforce simp: mutated_nodes_entry gossip_ok_def)

lemma serialize_delta_set_writable:
  assumes "config_network e = Inr net" and "checked_sub now CHANNEL_REMINDER_AGE = Some t" and "delta_set_ok ds"
    and "hash_orders_ok ho" and gossip: "gossip_ok W ds nds"
  obtains s where "serialize_delta_set e genesis ho now ds nds last_sync = Inr s" and "snapshot_writable W version s"
    and "ss_chain_hash s = genesis net"
    and "ss_announcements s = concat (map (\<lambda>(scid, d). channel_announcements_of last_sync d) ds)"
    and "ss_updates s = concat (map (\<lambda>(scid, d). channel_updates_of last_sync (ucast t) scid d) ds)"
    and "ss_node_mutations s = mutated_nodes (ucast t) nds"
proof -
  let ?fs = "concat (map (\<lambda>(_, d). counted_features d) (mutated_nodes (ucast t) nds))"
  obtain s where s: "serialize_delta_set e genesis ho now ds nds last_sync = Inr s" "ss_chain_hash s = genesis net"
    "ss_announcements s = concat (map (\<lambda>(scid, d). channel_announcements_of last_sync d) ds)"
    "ss_updates s = concat (map (\<lambda>(scid, d). channel_updates_of last_sync (ucast t) scid d) ds)"
    "ss_node_mutations s = mutated_nodes (ucast t) nds"
    and kept: "ss_node_announcement_feature_defaults s =
      find_leading_histogram_entries (ho_node_features ho) (histogram ?fs) 6"
    by (rule serialize_delta_set_fields [OF assms(1-3)])
  have "reorders (ho_node_features ho)" using assms(4) by (simp add: hash_orders_ok_def)
  then obtain es where es: "ss_node_announcement_feature_defaults s = take 6 es" "\<And>g. g \<in> set es \<longleftrightarrow> 1 < count_list ?fs g"
    unfolding kept by (rule leading_entries_list) blast
  have fit: "node_features_fit f" if "f \<in> set (take 6 es)" for f
  proof -
    have "f \<in> set ?fs" using that es(2) [of f] in_set_takeD [of f 6 es] count_notin [of f ?fs] by fastforce
    then show ?thesis using mutated_nodes_latest [OF gossip] by (fastforce dest!: counted_features_latest)
  qed
  have anns: "\<forall>a \<in> set (ss_announcements s). channel_features_fit (ca_features a) \<and>
      node_id_prefixed W (ca_node_id_1 a) \<and> node_id_prefixed W (ca_node_id_2 a)"
    using gossip by (fastforce simp: s(3) gossip_ok_def channel_announcements_of_def split: option.splits if_splits)
  have flags: "\<forall>u \<in> set (ss_updates s). update_flags u AND 252 = 0"
    using gossip by (fastforce simp: s(4) gossip_ok_def channel_update_cases dest: directed_update_flags)
  have nodes: "\<forall>(n, d) \<in> set (ss_node_mutations s). node_id_prefixed W n \<and> node_delta_writable d"
    using mutated_nodes_latest [OF gossip] by (fastforce simp: s(5) node_delta_writable_def)
  have sizes: "length (ss_updates s) < 2 ^ 32" "2 * length (ss_announcements s) + length (ss_node_mutations s) < 2 ^ 32"
    using gossip length_channel_updates [of last_sync "ucast t" ds] length_channel_announcements [of last_sync ds]
      length_mutated_nodes [of "ucast t" nds]
    by (simp_all only: s gossip_ok_def) linarith+
  have "snapshot_writable W version s"
    using anns flags nodes sizes fit es(1) strict_sorted_imp_sorted [OF delta_set_announcements_sorted [OF assms(3), of last_sync]]
      delta_set_updates_sorted [OF assms(3), of last_sync "ucast t"]
    by (simp add: snapshot_writable_def s(3,4))
  from that [OF s(1) this s(2-5)] show thesis .
qed

section \<open>Properties\<close>

text \<open>
  C35. \<open>serialize_delta_set\<close> never fails on a well-formed delta set whose slots hold gossip of their
  directions. It lists the announcements in strictly ascending order of their channel ids and the
  updates in strictly ascending order of channel id and direction, so at most one for each direction
  of a channel, and only of channels in the set. The delta encoding of the ids depends on the order.
\<close>

theorem serialize_delta_set_ordered:
  assumes "config_network e = Inr net" and "checked_sub now CHANNEL_REMINDER_AGE = Some t"
    and "delta_set_ok ds" and "delta_set_directed ds"
  shows "\<exists>s. serialize_delta_set e genesis ho now ds nds last_sync = Inr s \<and>
    sorted_wrt (<) (map ca_short_channel_id (ss_announcements s)) \<and> sorted_wrt update_before (ss_updates s) \<and>
    distinct (map (\<lambda>u. (update_scid u, bit (update_flags u) 0)) (ss_updates s)) \<and>
    set (map ca_short_channel_id (ss_announcements s)) \<subseteq> fst ` set ds \<and>
    set (map update_scid (ss_updates s)) \<subseteq> fst ` set ds"
proof -
  obtain s where s: "serialize_delta_set e genesis ho now ds nds last_sync = Inr s"
    "ss_announcements s = concat (map (\<lambda>(scid, d). channel_announcements_of last_sync d) ds)"
    "ss_updates s = concat (map (\<lambda>(scid, d). channel_updates_of last_sync (ucast t) scid d) ds)"
    by (rule serialize_delta_set_fields [OF assms(1-3)])
  have ok: "\<And>k d. (k, d) \<in> set ds \<Longrightarrow> channel_delta_ok k d"
    using assms(3) by (auto simp: delta_set_ok_def)
  have "set (map ca_short_channel_id (ss_announcements s)) \<subseteq> fst ` set ds"
    using channel_announcement_scid [OF ok] by (force simp: s(2))
  moreover have "set (map update_scid (ss_updates s)) \<subseteq> fst ` set ds"
    using channel_update_scid [OF ok] by (force simp: s(3))
  moreover note before = delta_set_updates_before [OF assms(3,4), of last_sync "ucast t", folded s(3)]
  moreover note distinct_directions [OF before]
  moreover note delta_set_announcements_sorted [OF assms(3), of last_sync, folded s(2)]
  ultimately show ?thesis using s(1) by blast
qed

theorem serialize_delta_set_ordered_witness:
  "\<exists>s. serialize_delta_set sample_env sample_genesis sample_orders 1700000200 sample_delta_set [] 1699950000 = Inr s \<and>
    sorted_wrt update_before (ss_updates s) \<and> length (ss_updates s) = 2"
proof -
  have "delta_set_directed sample_delta_set"
    by (auto simp: delta_set_directed_def slot_directed_def sample_defs)
  from serialize_delta_set_ordered [OF sample_env_network sample_clock sample_delta_set_ok this,
      of sample_genesis sample_orders "[]" 1699950000] sample_serialized show ?thesis by fastforce
qed

text \<open>
  C33. An incremental update is only sent for a channel whose announcement is not sent again and
  whose previous update the client cannot have pruned: that update was seen after the threshold
  of six days, something in it changed, and not everything did. It carries the latest update.
\<close>

theorem incremental_update_has_fresh_reference:
  assumes "config_network e = Inr net" and "checked_sub now CHANNEL_REMINDER_AGE = Some t" and "delta_set_ok ds"
  shows "\<exists>s. serialize_delta_set e genesis ho now ds nds last_sync = Inr s \<and>
    (\<forall>u m. Incremental u m \<in> set (ss_updates s) \<longrightarrow>
      (\<exists>scid d x b l. (scid, d) \<in> set ds \<and> Some x \<in> {fst (cd_updates d), snd (cd_updates d)} \<and>
        dud_last_update_before_seen x = Some b \<and> ucast t < ud_seen b \<and>
        dud_latest_update_after_seen x = Some l \<and> u = ud_update l \<and> m = dud_mutated_properties x \<and>
        m \<noteq> mutated_properties_default \<and> mutated_properties_len m \<noteq> 5 \<and> \<not> send_announcement last_sync d))"
proof -
  obtain s where s: "serialize_delta_set e genesis ho now ds nds last_sync = Inr s"
    "ss_updates s = concat (map (\<lambda>(scid, d). channel_updates_of last_sync (ucast t) scid d) ds)"
    by (rule serialize_delta_set_fields [OF assms])
  have "\<exists>scid d x b l. (scid, d) \<in> set ds \<and> Some x \<in> {fst (cd_updates d), snd (cd_updates d)} \<and>
        dud_last_update_before_seen x = Some b \<and> ucast t < ud_seen b \<and>
        dud_latest_update_after_seen x = Some l \<and> u = ud_update l \<and> m = dud_mutated_properties x \<and>
        m \<noteq> mutated_properties_default \<and> mutated_properties_len m \<noteq> 5 \<and> \<not> send_announcement last_sync d"
    if "Incremental u m \<in> set (ss_updates s)" for u m
  proof -
    from that obtain scid d dir where d: "(scid, d) \<in> set ds" "dir \<in> {fst (cd_updates d), snd (cd_updates d)}"
      and i: "Incremental u m \<in> set (directed_update last_sync (ucast t) scid d dir)"
      by (auto simp: s(2) channel_update_cases)
    show ?thesis by (rule directed_incremental [OF i]) (use d in blast)
  qed
  with s(1) show ?thesis by blast
qed

theorem incremental_update_has_fresh_reference_witness:
  "\<exists>s. serialize_delta_set sample_env sample_genesis sample_orders 1700000200 sample_delta_set [] 1699950000 = Inr s \<and>
    Incremental (sample_update 100 0 7) sample_mutation \<in> set (ss_updates s) \<and>
    (\<exists>scid d x b. (scid, d) \<in> set sample_delta_set \<and> Some x \<in> {fst (cd_updates d), snd (cd_updates d)} \<and>
        dud_last_update_before_seen x = Some b \<and> 1699481800 < ud_seen b)"
proof -
  obtain s where s: "serialize_delta_set sample_env sample_genesis sample_orders 1700000200 sample_delta_set [] 1699950000 = Inr s"
    and ref: "\<forall>u m. Incremental u m \<in> set (ss_updates s) \<longrightarrow>
      (\<exists>scid d x b l. (scid, d) \<in> set sample_delta_set \<and> Some x \<in> {fst (cd_updates d), snd (cd_updates d)} \<and>
        dud_last_update_before_seen x = Some b \<and> 1699481800 < ud_seen b)"
    using incremental_update_has_fresh_reference [OF sample_env_network sample_clock sample_delta_set_ok,
        of sample_genesis sample_orders "[]" 1699950000] by (auto; blast)
  have "Incremental (sample_update 100 0 7) sample_mutation \<in> set (ss_updates s)"
    using s by (auto simp: sample_serialized)
  with s ref show ?thesis by blast
qed

text \<open>
  C34. A client that is sent an announcement can start from nothing: for each direction with an
  update newer than the last sync that update is sent in full, and when the channel has only just
  seen updates in both directions, an older one is sent in full as well. The same holds for a
  direction that had no earlier update.
\<close>

theorem announced_channel_gets_full_updates:
  assumes "config_network e = Inr net" and "checked_sub now CHANNEL_REMINDER_AGE = Some t" and "delta_set_ok ds"
    and "(scid, d) \<in> set ds" and "Some x \<in> {fst (cd_updates d), snd (cd_updates d)}"
  shows "\<exists>s. serialize_delta_set e genesis ho now ds nds last_sync = Inr s \<and>
    (\<forall>a. cd_announcement d = Some a \<longrightarrow> (ad_announcement a \<in> set (ss_announcements s) \<longleftrightarrow> send_announcement last_sync d)) \<and>
    (\<forall>l. dud_latest_update_after_seen x = Some l \<longrightarrow>
      send_announcement last_sync d \<or> dud_last_update_before_seen x = None \<longrightarrow> Full (ud_update l) \<in> set (ss_updates s)) \<and>
    (\<forall>b. dud_latest_update_after_seen x = None \<longrightarrow> dud_last_update_before_seen x = Some b \<longrightarrow>
      is_newly_included last_sync d \<longrightarrow> Full (ud_update b) \<in> set (ss_updates s))"
proof -
  obtain s where s: "serialize_delta_set e genesis ho now ds nds last_sync = Inr s"
    "ss_announcements s = concat (map (\<lambda>(scid, d). channel_announcements_of last_sync d) ds)"
    "ss_updates s = concat (map (\<lambda>(scid, d). channel_updates_of last_sync (ucast t) scid d) ds)"
    by (rule serialize_delta_set_fields [OF assms(1-3)])
  have ok: "\<And>k d. (k, d) \<in> set ds \<Longrightarrow> channel_delta_ok k d" and inv: "bt_inv ds"
    using assms(3) by (auto simp: delta_set_ok_def)
  have sub: "u \<in> set (ss_updates s)" if "u \<in> set (directed_update last_sync (ucast t) scid d (Some x))" for u
    using that assms(4,5) by (force simp: s(3) channel_update_cases)
  have "ad_announcement a \<in> set (ss_announcements s) \<longleftrightarrow> send_announcement last_sync d"
    if a: "cd_announcement d = Some a" for a
  proof
    assume "ad_announcement a \<in> set (ss_announcements s)"
    then obtain k d' where k: "(k, d') \<in> set ds" "ad_announcement a \<in> set (channel_announcements_of last_sync d')"
      by (auto simp: s(2))
    have "k = scid"
      using channel_announcement_scid [OF ok [OF k(1)] k(2)] ok [OF assms(4)] a by (simp add: channel_delta_ok_def)
    then have "d' = d"
      using k(1) assms(4) inv by (metis bt_get_in_set option.inject)
    with k(2) show "send_announcement last_sync d"
      by (simp add: channel_announcements_of_def a split: if_splits)
  qed (use a assms(4) in \<open>force simp: s(2) channel_announcements_of_def\<close>)
  with s(1) sub show ?thesis
    by (intro exI [of _ s]) (simp add: directed_update_def Let_def split: option.splits)
qed

theorem announced_channel_gets_full_updates_witness:
  "\<exists>s. serialize_delta_set sample_env sample_genesis sample_orders 1700000200 sample_delta_set [] 1698000000 = Inr s \<and>
     Full (sample_update 100 0 7) \<in> set (ss_updates s)"
  using announced_channel_gets_full_updates [OF sample_env_network sample_clock sample_delta_set_ok,
      of 100 "sample_delta 100" _ sample_genesis sample_orders "[]" 1698000000]
  by (auto simp: sample_delta_set_def sample_delta_def channel_delta_default_def send_announcement_def)



text \<open>
  C39. Each default value is the value of that field which occurs most often among the full updates
  newer than the last sync, whatever order the hash maps are walked in; without such an update it
  is zero.
\<close>

theorem update_defaults_most_frequent:
  assumes "config_network e = Inr net" and "checked_sub now CHANNEL_REMINDER_AGE = Some t" and "delta_set_ok ds"
    and "hash_orders_ok ho"
  shows "\<exists>s. serialize_delta_set e genesis ho now ds nds last_sync = Inr s \<and>
    (let us = recorded_updates last_sync (ucast t) ds; dv = ss_full_update_defaults s
     in (us = [] \<longrightarrow> dv = default_update_values_default) \<and>
        (us \<noteq> [] \<longrightarrow>
          dv_cltv_expiry_delta dv \<in> cu_cltv_expiry_delta ` set us \<and>
          (\<forall>y. count_list (map cu_cltv_expiry_delta us) y \<le> count_list (map cu_cltv_expiry_delta us) (dv_cltv_expiry_delta dv)) \<and>
          (\<forall>y. count_list (map cu_htlc_minimum_msat us) y \<le> count_list (map cu_htlc_minimum_msat us) (dv_htlc_minimum_msat dv)) \<and>
          (\<forall>y. count_list (map cu_fee_base_msat us) y \<le> count_list (map cu_fee_base_msat us) (dv_fee_base_msat dv)) \<and>
          (\<forall>y. count_list (map cu_fee_proportional_millionths us) y \<le>
             count_list (map cu_fee_proportional_millionths us) (dv_fee_proportional_millionths dv)) \<and>
          (\<forall>y. count_list (map cu_htlc_maximum_msat us) y \<le> count_list (map cu_htlc_maximum_msat us) (dv_htlc_maximum_msat dv))))"
proof -
  let ?us = "recorded_updates last_sync (ucast t) ds"
  obtain s where s: "serialize_delta_set e genesis ho now ds nds last_sync = Inr s"
    and dv: "ss_full_update_defaults s = (let us = ?us in
      \<lparr>dv_cltv_expiry_delta = find_most_common_histogram_entry_with_default
          (ho_cltv_expiry_delta ho) (histogram (map cu_cltv_expiry_delta us)) 0,
       dv_htlc_minimum_msat = find_most_common_histogram_entry_with_default
          (ho_htlc_minimum_msat ho) (histogram (map cu_htlc_minimum_msat us)) 0,
       dv_fee_base_msat = find_most_common_histogram_entry_with_default
          (ho_fee_base_msat ho) (histogram (map cu_fee_base_msat us)) 0,
       dv_fee_proportional_millionths = find_most_common_histogram_entry_with_default
          (ho_fee_proportional_millionths ho) (histogram (map cu_fee_proportional_millionths us)) 0,
       dv_htlc_maximum_msat = find_most_common_histogram_entry_with_default
          (ho_htlc_maximum_msat ho) (histogram (map cu_htlc_maximum_msat us)) 0\<rparr>)"
    by (rule serialize_delta_set_fields [OF assms(1-3)])
  from assms(4) have re: "reorders (ho_cltv_expiry_delta ho)" "reorders (ho_htlc_minimum_msat ho)"
    "reorders (ho_fee_base_msat ho)" "reorders (ho_fee_proportional_millionths ho)" "reorders (ho_htlc_maximum_msat ho)"
    by (simp_all add: hash_orders_ok_def)
  show ?thesis
  proof (cases "?us = []")
    case True
    with s dv re show ?thesis by (simp add: find_most_common_empty default_update_values_default_def)
  next
    case False
    note common = find_most_common_histogram(2) [where dflt = 0]
    from False s dv re show ?thesis
      using find_most_common_histogram(1) [OF re(1), of "map cu_cltv_expiry_delta ?us" 0]
      by (simp add: common)
  qed
qed

theorem update_defaults_most_frequent_witness:
  "\<exists>s. serialize_delta_set sample_env sample_genesis sample_orders 1700000200 sample_delta_set [] 1698000000 = Inr s \<and>
    (let us = recorded_updates 1698000000 1699481800 sample_delta_set
     in us \<noteq> [] \<and> (\<forall>y. count_list (map cu_fee_base_msat us) y \<le>
       count_list (map cu_fee_base_msat us) (dv_fee_base_msat (ss_full_update_defaults s))))"
proof -
  have "recorded_updates 1698000000 1699481800 sample_delta_set \<noteq> []"
    by (simp add: recorded_updates_def channel_recorded_def directed_recorded_def directed_update_def sample_delta_set_def
        sample_delta_def channel_delta_default_def send_announcement_def map_filter_simps)
  then show ?thesis
    using update_defaults_most_frequent [OF sample_env_network sample_clock sample_delta_set_ok sample_orders_ok,
        of sample_genesis "[]" 1698000000]
    by (auto simp: Let_def)
qed

text \<open>
  C40. The node mutations of a snapshot are the entries of the node delta set that have a strategy
  and details from before the last sync, in place; the strategy becomes a full announcement exactly
  when those details are older than the threshold, and nothing else of the entry changes.
\<close>

theorem node_mutations_refreshed:
  assumes "config_network e = Inr net" and "checked_sub now CHANNEL_REMINDER_AGE = Some t" and "delta_set_ok ds"
  shows "\<exists>s. serialize_delta_set e genesis ho now ds nds last_sync = Inr s \<and>
    map fst (ss_node_mutations s) =
      map fst (filter (\<lambda>(n, d). nde_strategy d \<noteq> None \<and> nde_last_details_before_seen d \<noteq> None) nds) \<and>
    (\<forall>n d'. (n, d') \<in> set (ss_node_mutations s) \<longrightarrow>
      (\<exists>d b. (n, d) \<in> set nds \<and> nde_last_details_before_seen d = Some b \<and>
        nde_latest_details d' = nde_latest_details d \<and> nde_last_details_before_seen d' = Some b \<and>
        nde_strategy d' = (if \<exists>seen. nd_seen b = Some seen \<and> seen \<le> ucast t then Some NodeFull else nde_strategy d)))"
proof -
  obtain s where s: "serialize_delta_set e genesis ho now ds nds last_sync = Inr s"
    "ss_node_mutations s = mutated_nodes (ucast t) nds"
    by (rule serialize_delta_set_fields [OF assms(1-3)])
  show ?thesis
  proof (intro exI [of _ s] conjI allI impI)
    fix n d'
    assume "(n, d') \<in> set (ss_node_mutations s)"
    then obtain d b where "(n, d) \<in> set nds" "nde_last_details_before_seen d = Some b" "d' = refreshed (ucast t) b d"
      by (auto simp: s(2) mutated_nodes_entry)
    then show "\<exists>d b. (n, d) \<in> set nds \<and> nde_last_details_before_seen d = Some b \<and>
        nde_latest_details d' = nde_latest_details d \<and> nde_last_details_before_seen d' = Some b \<and>
        nde_strategy d' = (if \<exists>seen. nd_seen b = Some seen \<and> seen \<le> ucast t then Some NodeFull else nde_strategy d)"
      by (intro exI [of _ d] exI [of _ b]) simp
  qed (simp_all add: s mutated_nodes_keys)
qed

theorem node_mutations_refreshed_witness:
  "\<exists>s. serialize_delta_set sample_env sample_genesis sample_orders 1700000200 sample_delta_set sample_node_deltas 1699950000 = Inr s \<and>
    map fst (ss_node_mutations s) = [sample_node 1]"
  using node_mutations_refreshed [OF sample_env_network sample_clock sample_delta_set_ok,
      of sample_genesis sample_orders sample_node_deltas 1699950000]
  by (auto simp: sample_node_deltas_def)

text \<open>
  The feature defaults are at most six distinct feature vectors, each of them sent more than
  once, and no vector that is left out is sent more often than one that is kept.
\<close>

lemma feature_defaults_leading:
  assumes "config_network e = Inr net" and "checked_sub now CHANNEL_REMINDER_AGE = Some t" and "delta_set_ok ds"
    and "hash_orders_ok ho"
  shows "\<exists>s. serialize_delta_set e genesis ho now ds nds last_sync = Inr s \<and>
    (let fs = concat (map (\<lambda>(_, d). counted_features d) (ss_node_mutations s));
         kept = ss_node_announcement_feature_defaults s
     in length kept \<le> 6 \<and> distinct kept \<and> (\<forall>f \<in> set kept. 1 < count_list fs f) \<and>
        (\<forall>f \<in> set kept. \<forall>g. g \<notin> set kept \<longrightarrow> count_list fs g \<le> count_list fs f))"
proof -
  let ?fs = "concat (map (\<lambda>(_, d). counted_features d) (mutated_nodes (ucast t) nds))"
  obtain s where s: "serialize_delta_set e genesis ho now ds nds last_sync = Inr s"
    "ss_node_mutations s = mutated_nodes (ucast t) nds"
    and kept: "ss_node_announcement_feature_defaults s =
      find_leading_histogram_entries (ho_node_features ho) (histogram ?fs) 6"
    by (rule serialize_delta_set_fields [OF assms(1-3)])
  let ?kept = "ss_node_announcement_feature_defaults s"
  have "reorders (ho_node_features ho)" using assms(4) by (simp add: hash_orders_ok_def)
  then obtain es where es: "?kept = take 6 es" "distinct es" "sorted_wrt (\<lambda>f g. count_list ?fs g \<le> count_list ?fs f) es"
    "\<And>g. g \<in> set es \<longleftrightarrow> 1 < count_list ?fs g"
    unfolding kept by (rule leading_entries_list) blast
  have "count_list ?fs g \<le> count_list ?fs f" if f: "f \<in> set ?kept" and g: "g \<notin> set ?kept" for f g
  proof (cases "g \<in> set es")
    case True
    then have "g \<in> set (drop 6 es)" using g es(1) by (metis Un_iff append_take_drop_id set_append)
    moreover have "sorted_wrt (\<lambda>f g. count_list ?fs g \<le> count_list ?fs f) (take 6 es @ drop 6 es)"
      using es(3) by simp
    ultimately show ?thesis using f es(1) by (simp add: sorted_wrt_append del: append_take_drop_id)
  next
    case False
    moreover have "1 < count_list ?fs f" using f es by (metis in_set_takeD)
    ultimately show ?thesis using es(4) [of g] by linarith
  qed
  moreover have "length ?kept \<le> 6" "distinct ?kept" "\<forall>f \<in> set ?kept. 1 < count_list ?fs f"
    using es(1,2,4) by (auto dest: in_set_takeD)
  ultimately show ?thesis using s by (auto simp: Let_def)
qed

lemma feature_defaults_leading_example:
  "\<exists>s. serialize_delta_set sample_env sample_genesis sample_orders 1700000200 sample_delta_set sample_node_deltas 1699950000 = Inr s \<and>
    length (ss_node_announcement_feature_defaults s) \<le> 6"
  using feature_defaults_leading [OF sample_env_network sample_clock sample_delta_set_ok sample_orders_ok,
      of sample_genesis sample_node_deltas 1699950000]
  by (auto simp: Let_def)

text \<open>
  C10. The whole way from a delta set to the bytes: on a well-formed delta set of gossip that
  respects the wire format, neither \<open>serialize_delta_set\<close> nor \<open>serialize_delta\<close> panics, and the
  client reads from the bytes exactly the announcements that are new to it and, for every channel
  direction, the update chosen for it, in channel order.
\<close>

theorem delta_set_reaches_client:
  assumes "wire_ok W R" and "hash_orders_ok ho" and "snapshot_generation_interval e = Inr interval"
    and "config_network e = Inr net" and "checked_sub now CHANNEL_REMINDER_AGE = Some t" and "delta_set_ok ds"
    and "gossip_ok W ds nds"
  shows "\<exists>s resp snap. serialize_delta_set e genesis ho now ds nds last_sync = Inr s \<and>
    serialize_delta W e ho s version = Inr resp \<and> decode_snapshot R (sr_data resp) = Some (snap, []) \<and>
    ws_chain_hash snap = genesis net \<and>
    map (resolve_announcement snap) (ws_announcements snap) =
      map announced (concat (map (\<lambda>(scid, d). channel_announcements_of last_sync d) ds)) \<and>
    ws_updates snap = map update_view (concat (map (\<lambda>(scid, d). channel_updates_of last_sync (ucast t) scid d) ds)) \<and>
    (version \<ge> 2 \<longrightarrow> fst ` set (mutated_nodes (ucast t) nds) \<subseteq> wn_node_id ` set (ws_nodes snap))"
proof -
  obtain s where s: "serialize_delta_set e genesis ho now ds nds last_sync = Inr s" "snapshot_writable W version s"
    "ss_chain_hash s = genesis net"
    "ss_announcements s = concat (map (\<lambda>(scid, d). channel_announcements_of last_sync d) ds)"
    "ss_updates s = concat (map (\<lambda>(scid, d). channel_updates_of last_sync (ucast t) scid d) ds)"
    "ss_node_mutations s = mutated_nodes (ucast t) nds"
    by (rule serialize_delta_set_writable [OF assms(4-6,2,7)])
  from serialize_delta_decodes [OF assms(1-3) s(2)] obtain resp snap ids where
    r: "serialize_delta W e ho s version = Inr resp" "decode_snapshot R (sr_data resp) = Some (snap, [])"
      "ws_chain_hash snap = ss_chain_hash s" "set ids = snapshot_nodes version s"
      "ws_nodes snap = map (node_view W ho (ss_node_mutations s) version) ids"
      "map (resolve_announcement snap) (ws_announcements snap) = map announced (ss_announcements s)"
      "ws_updates snap = map update_view (ss_updates s)"
    by auto
  have "wn_node_id ` set (ws_nodes snap) = snapshot_nodes version s"
    using r(4) by (simp add: r(5) image_image node_id_of_view)
  then have "version \<ge> 2 \<longrightarrow> fst ` set (mutated_nodes (ucast t) nds) \<subseteq> wn_node_id ` set (ws_nodes snap)"
    by (simp add: snapshot_nodes_def s(6))
  with s(1) r(1,2) r(3,6,7) [unfolded s(3-5)] show ?thesis by blast
qed

lemma sample_gossip_ok: "gossip_ok bolt_wire sample_delta_set sample_node_deltas"
  by (simp add: gossip_ok_def directed_flags_ok_def sample_delta_set_def sample_delta_def channel_delta_default_def
      sample_node_deltas_def sample_details_def sample_update_def sample_announcement_def sample_node_prefixed
      channel_features_fit_def node_features_fit_def)

theorem delta_set_reaches_client_witness:
  "\<exists>s resp snap. serialize_delta_set sample_env sample_genesis sample_orders 1700000200 sample_delta_set
      sample_node_deltas 1699950000 = Inr s \<and>
    serialize_delta bolt_wire sample_env sample_orders s 2 = Inr resp \<and>
    decode_snapshot bolt_reader (sr_data resp) = Some (snap, []) \<and>
    ws_chain_hash snap = ChainHash 1 \<and> map wu_fee_base_msat (ws_updates snap) = [Some 7, Some 7]"
  using delta_set_reaches_client [OF bolt_wire_ok sample_orders_ok sample_env_interval sample_env_network sample_clock
      sample_delta_set_ok sample_gossip_ok, of sample_genesis 1699950000 2]
  by (fastforce simp: sample_delta_set_def sample_delta_def channel_updates_of_def directed_update_def channel_delta_default_def
      send_announcement_def is_newly_included_def mutated_properties_len_def sample_mutation_def
      mutated_properties_default_def sample_genesis_def sample_update_def)

text \<open>
  C36. A stripped channel update, full, incremental or a reminder, is read back as it was meant:
  the fields that were sent, the defaults for the others when it is a full update, and the two flag
  bits; provided the flags use only these two bits and the ids ascend.
\<close>

theorem stripped_update_roundtrip:
  assumes "wire_ok W R" and "previous_scid \<le> update_scid u" and "update_flags u AND 252 = 0"
  shows "\<exists>bs. serialize_stripped_channel_update W u dv previous_scid = Inr bs \<and>
    (\<forall>rest. decode_update R dv previous_scid (bs @ rest) = Some (update_view u, rest))"
  using serialize_stripped_channel_update_roundtrip [OF assms(1), of previous_scid u dv] assms(2,3)
  by (simp add: update_writable_def)

theorem stripped_update_roundtrip_witness:
  "\<exists>bs. serialize_stripped_channel_update bolt_wire (Incremental (sample_update 100 1 7) sample_mutation)
      default_update_values_default 90 = Inr bs \<and>
    decode_update bolt_reader default_update_values_default 90 (bs @ [1, 2]) =
      Some (update_view (Incremental (sample_update 100 1 7) sample_mutation), [1, 2])"
  using stripped_update_roundtrip [OF bolt_wire_ok, of 90 "Incremental (sample_update 100 1 7) sample_mutation"
      default_update_values_default]
  by (auto simp: sample_update_def)

text \<open>
  C37. The flag byte of an update is copied from the peer's message without masking. A full update
  whose message has the upper bit set and whose fields equal the defaults is written with exactly
  the bytes of a reminder, so the client cannot tell the two apart and drops its fields.
\<close>

theorem unmasked_flags_collide:
  "serialize_stripped_channel_update W (Full \<lparr>cu_short_channel_id = scid, cu_timestamp = ts, cu_channel_flags = fl OR 128,
      cu_cltv_expiry_delta = dv_cltv_expiry_delta dv, cu_htlc_minimum_msat = dv_htlc_minimum_msat dv,
      cu_htlc_maximum_msat = dv_htlc_maximum_msat dv, cu_fee_base_msat = dv_fee_base_msat dv,
      cu_fee_proportional_millionths = dv_fee_proportional_millionths dv\<rparr>) dv previous_scid =
   serialize_stripped_channel_update W (Reminder scid fl) dv previous_scid"
  by (simp add: serialize_stripped_channel_update_def put_field_def Let_def)

end
