(* ===== verification/Delta_Calculation.thy ===== *)
theory Delta_Calculation
  imports Lookup_Nodes Lookup_Announcements Serialization_Properties
begin

text \<open>
\<open>calculate_delta\<close> of src/lib.rs: the stale part of the graph is removed, then the channel
  announcements, channel updates and node announcements are looked up, the delta set is filtered
  and handed to the serializer. The pruning function is LDK's and a parameter; the three functions
  that read the clock may see three different times. A run sees one state of the database.
\<close>

definition calculate_delta ::
  "env \<Rightarrow> (network \<Rightarrow> chain_hash) \<Rightarrow> hash_orders \<Rightarrow> lookup_env \<Rightarrow> (network_graph \<Rightarrow> network_graph) \<Rightarrow> u64 \<Rightarrow> u64 \<Rightarrow> u64 \<Rightarrow>
   database \<Rightarrow> network_graph \<Rightarrow> u32 \<Rightarrow> u64 option \<Rightarrow> (serialization_set \<times> network_graph) res" where
  "calculate_delta e genesis ho E remove_stale_channels_and_tracking now_1 now_2 now_3 db network_graph
     last_sync_timestamp snapshot_reference_timestamp =
     (let network_graph = remove_stale_channels_and_tracking network_graph
      in bind_res (fetch_channel_announcements E now_1 db network_graph last_sync_timestamp snapshot_reference_timestamp []) (\<lambda>delta_set.
         bind_res (fetch_channel_updates E db last_sync_timestamp delta_set) (\<lambda>delta_set.
         bind_res (fetch_node_updates E now_2 db network_graph last_sync_timestamp snapshot_reference_timestamp) (\<lambda>node_delta_set.
         bind_res (filter_delta_set delta_set) (\<lambda>delta_set.
         bind_res (serialize_delta_set e genesis ho now_3 delta_set node_delta_set last_sync_timestamp) (\<lambda>s.
         Inr (s, network_graph)))))))"

section \<open>What the lookups leave for a channel\<close>

lemma remind_fields [simp]:
  "cd_announcement (remind g scid d) = cd_announcement d"
  "cd_first_bidirectional_updates_seen (remind g scid d) = cd_first_bidirectional_updates_seen d"
  "cd_requires_reminder (remind g scid d) = True"
  by (simp_all add: remind_def split: option.split)

text \<open>The flags of a reminder: the direction and whether it is disabled.\<close>

definition reminder_flags :: "bool \<Rightarrow> u8 \<Rightarrow> bool" where
  "reminder_flags b fl \<longleftrightarrow> fl = (if b then 1 else 0) \<or> fl = (if b then 3 else 2)"

lemma reminder_flagsD: "reminder_flags b fl \<Longrightarrow> fl AND 252 = 0 \<and> bit fl 0 = b"
  by (auto simp: reminder_flags_def bit_0 split: if_splits)

definition reminder_only :: "bool \<Rightarrow> directed_update_delta \<Rightarrow> bool" where
  "reminder_only b u \<longleftrightarrow> fresh_direction u \<and> (\<forall>fl. dud_serialization_update_flags u = Some fl \<longrightarrow> reminder_flags b fl)"

lemma reminder_only_default: "reminder_only b directed_update_delta_default"
  by (simp add: reminder_only_def fresh_default) (simp add: directed_update_delta_default_def)

lemma dir_of_announced:
  "dir_of b (announced_delta E db g last_sync current scid) = Some u \<Longrightarrow> reminder_only b u"
  by (cases b)
    (auto simp: announced_delta_def remind_def dir_of_def upd_direction_def channel_delta_default_def reminder_only_def reminder_flags_def
      fresh_direction_def directed_update_delta_default_def Let_def split: if_splits option.splits)

lemma announced_fields:
  "cd_announcement (announced_delta E db g last_sync current scid) = announcement_entry E db (graph_channel_ids g) scid"
  "cd_first_bidirectional_updates_seen (announced_delta E db g last_sync current scid) = first_entry E db (graph_channel_ids g) last_sync scid"
  "cd_requires_reminder (announced_delta E db g last_sync current scid) \<longleftrightarrow> reminder_due E db (graph_channel_ids g) last_sync current scid"
  by (simp_all add: announced_delta_def channel_delta_default_def Let_def)

text \<open>The delta of a channel after both lookups.\<close>

definition direction_looked_up :: "lookup_env \<Rightarrow> database \<Rightarrow> u32 \<Rightarrow> u64 \<Rightarrow> bool \<Rightarrow> directed_update_delta option \<Rightarrow> bool" where
  "direction_looked_up E db last_sync scid b dir =
     (if updated_since db last_sync scid \<and> rows_of db scid b \<noteq> {}
      then \<exists>u. dir = Some u \<and> direction_spec E db last_sync scid b u \<and>
        (\<forall>fl. dud_serialization_update_flags u = Some fl \<longrightarrow> reminder_flags b fl)
      else \<forall>u. dir = Some u \<longrightarrow> reminder_only b u)"

definition looked_up :: "lookup_env \<Rightarrow> database \<Rightarrow> network_graph \<Rightarrow> u32 \<Rightarrow> u64 \<Rightarrow> u64 \<Rightarrow> channel_delta \<Rightarrow> bool" where
  "looked_up E db g last_sync current scid d \<longleftrightarrow>
     cd_announcement d = announcement_entry E db (graph_channel_ids g) scid \<and>
     cd_first_bidirectional_updates_seen d = first_entry E db (graph_channel_ids g) last_sync scid \<and>
     cd_requires_reminder d = reminder_due E db (graph_channel_ids g) last_sync current scid \<and>
     (\<forall>b. direction_looked_up E db last_sync scid b (dir_of b d))"

lemma looked_upD:
  assumes "looked_up E db g last_sync current scid d"
  shows "updated_since db last_sync scid \<Longrightarrow> rows_of db scid b \<noteq> {} \<Longrightarrow> \<exists>u. dir_of b d = Some u \<and>
      direction_spec E db last_sync scid b u \<and> (\<forall>fl. dud_serialization_update_flags u = Some fl \<longrightarrow> reminder_flags b fl)"
    and "dir_of b d = Some u \<Longrightarrow> \<not> (updated_since db last_sync scid \<and> rows_of db scid b \<noteq> {}) \<Longrightarrow> reminder_only b u"
  using assms by (auto simp: looked_up_def direction_looked_up_def)

lemma reminder_due_row:
  assumes "lookup_ok E db" and "reminder_due E db ids last_sync current scid"
  shows "channel_rows db scid"
proof -
  from assms(2) obtain r where "r \<in> set (mutated_updates E db ids (current - PRUNE_INTERVAL))" "cur_short_channel_id r = scid"
    by (auto simp: reminder_due_def)
  with assms(1) mutated_updates_subset [of E r db ids] show ?thesis
    by (auto simp: lookup_ok_def channel_rows_def rows_of_def)
qed

lemma lookups_spec:
  fixes now :: u64 and reference :: "u64 option"
  assumes ok: "lookup_ok E db" and time: "PRUNE_INTERVAL \<le> current"
    and current: "current = (case reference of Some t \<Rightarrow> t | None \<Rightarrow> now)"
  shows "\<exists>ds1 ds2. fetch_channel_announcements E now db g last_sync reference [] = Inr ds1 \<and>
    fetch_channel_updates E db last_sync ds1 = Inr ds2 \<and> bt_inv ds2 \<and>
    (\<forall>scid d. bt_get ds2 scid = Some d \<longrightarrow> looked_up E db g last_sync current scid d) \<and>
    (\<forall>scid. announcement_entry E db (graph_channel_ids g) scid \<noteq> None \<longrightarrow> bt_get ds2 scid \<noteq> None)"
proof -
  let ?ids = "graph_channel_ids g" and ?A = "announced_delta E db g last_sync current"
  let ?in = "\<lambda>scid. announcement_entry E db ?ids scid \<noteq> None \<or> first_entry E db ?ids last_sync scid \<noteq> None \<or>
         reminder_due E db ?ids last_sync current scid"
  have upd: "updates_table_ok E db" using ok by (simp add: lookup_ok_def)
  from fetch_channel_announcements_spec [OF ok time current, of g last_sync] obtain ds1 where
    ds1: "fetch_channel_announcements E now db g last_sync reference [] = Inr ds1" "bt_inv ds1"
    and get1: "\<And>scid. bt_get ds1 scid = (if ?in scid then Some (?A scid) else None)"
    by (auto simp: Let_def)
  have fresh: "fresh_set ds1"
    unfolding fresh_set_def get1 using dir_of_announced by (metis option.distinct(1) option.inject reminder_only_def)
  from fetch_channel_updates_spec [OF upd ds1(2) fresh, of last_sync] obtain ds2 where
    ds2: "fetch_channel_updates E db last_sync ds1 = Inr ds2" "bt_inv ds2"
    and get2: "\<And>scid. if updated_since db last_sync scid
       then \<exists>d'. bt_get ds2 scid = Some d' \<and> channel_spec E db last_sync scid (delta_or_default ds1 scid) d'
       else bt_get ds2 scid = bt_get ds1 scid"
    by blast
  have base: "delta_or_default ds1 scid = (if ?in scid then ?A scid else channel_delta_default)" for scid
    by (simp add: delta_or_default_def get1)
  have out: "?A scid = channel_delta_default" if "\<not> ?in scid" for scid
    using that by (simp add: announced_delta_def channel_delta_default_def Let_def)
  then have base: "delta_or_default ds1 scid = ?A scid" for scid by (simp add: delta_or_default_def get1)
  have "looked_up E db g last_sync current scid d" if d: "bt_get ds2 scid = Some d" for scid d
  proof (cases "updated_since db last_sync scid")
    case True
    then have chan: "channel_spec E db last_sync scid (?A scid) d" using get2 [of scid] d base by auto
    have flags: "reminder_flags b fl" if "dud_serialization_update_flags (dir_or_default (dir_of b (?A scid))) = Some fl" for b fl
      using that dir_of_announced [of b E db g last_sync current scid]
      by (cases "dir_of b (?A scid)") (auto simp: dir_or_default_def reminder_only_def directed_update_delta_default_def)
    have "direction_looked_up E db last_sync scid b (dir_of b d)" for b
    proof (cases "rows_of db scid b = {}")
      case empty: True
      then have "dir_of b d = dir_of b (?A scid)" using chan by (simp add: channel_spec_def)
      with empty show ?thesis by (auto simp: direction_looked_up_def dest: dir_of_announced)
    next
      case False
      then obtain u where u: "dir_of b d = Some u" "direction_spec E db last_sync scid b u"
        "dud_serialization_update_flags u = dud_serialization_update_flags (dir_or_default (dir_of b (?A scid)))"
        using chan [unfolded channel_spec_def, THEN conjunct2, THEN conjunct2, THEN conjunct2, THEN spec, of b]
        by (auto simp only: if_False simp_thms)
      with False True flags [of b] show ?thesis by (simp add: direction_looked_up_def)
    qed
    then show ?thesis using chan by (simp add: looked_up_def channel_spec_def announced_fields)
  next
    case False
    then have "d = ?A scid" using get2 [of scid] d get1 [of scid] by (auto split: if_splits)
    with False show ?thesis by (auto simp: looked_up_def direction_looked_up_def announced_fields dest: dir_of_announced)
  qed
  moreover have "bt_get ds2 scid \<noteq> None" if "announcement_entry E db ?ids scid \<noteq> None" for scid
    using get2 [of scid] get1 [of scid] that by (auto split: if_splits)
  ultimately show ?thesis using ds1(1) ds2 by blast
qed

text \<open>The filter keeps the announced channels with something new or a reminder.\<close>

lemma looked_up_latest:
  assumes "looked_up E db g last_sync current scid d"
  shows "(\<exists>b u. dir_of b d = Some u \<and> dud_latest_update_after_seen u \<noteq> None) \<longleftrightarrow> updated_since db last_sync scid"
proof
  assume "\<exists>b u. dir_of b d = Some u \<and> dud_latest_update_after_seen u \<noteq> None"
  then obtain b u where "dir_of b d = Some u" "dud_latest_update_after_seen u \<noteq> None" by blast
  with looked_upD(2) [OF assms, of b u] have "updated_since db last_sync scid \<and> rows_of db scid b \<noteq> {}"
    by (auto simp: reminder_only_def fresh_direction_def)
  then show "updated_since db last_sync scid" by simp
next
  assume up: "updated_since db last_sync scid"
  then obtain b r where r: "r \<in> rows_of db scid b" "after_sync last_sync r" by (auto simp: updated_since_def)
  then have "rows_of db scid b \<noteq> {}" by blast
  from looked_upD(1) [OF assms up this] obtain u where "dir_of b d = Some u" "direction_spec E db last_sync scid b u" by blast
  with r show "\<exists>b u. dir_of b d = Some u \<and> dud_latest_update_after_seen u \<noteq> None"
    by (auto simp: direction_spec_def is_latest_def split: option.splits)
qed

lemma keep_looked_up:
  assumes "looked_up E db g last_sync current scid d"
  shows "keep_channel d \<longleftrightarrow> announcement_entry E db (graph_channel_ids g) scid \<noteq> None \<and>
    (updated_since db last_sync scid \<or> reminder_due E db (graph_channel_ids g) last_sync current scid)"
proof -
  have "update_meets_criteria d (fst (cd_updates d)) \<or> update_meets_criteria d (snd (cd_updates d)) \<longleftrightarrow>
      (\<exists>b u. dir_of b d = Some u \<and> (cd_requires_reminder d \<or> dud_latest_update_after_seen u \<noteq> None))"
    by (auto simp: update_meets_criteria_def dir_of_def ex_bool_eq split: option.splits)
  with looked_up_latest [OF assms] assms show ?thesis
    by (auto simp: keep_channel_def looked_up_def)
qed

section \<open>The delta sets are well-formed\<close>

text \<open>What the stored gossip and the graph have to satisfy for the wire format.\<close>

definition stored_gossip_ok :: "wire \<Rightarrow> lookup_env \<Rightarrow> database \<Rightarrow> network_graph \<Rightarrow> bool" where
  "stored_gossip_ok W E db g \<longleftrightarrow>
     (\<forall>r \<in> set (db_channel_updates db). cu_channel_flags (update_of E r) AND 252 = 0) \<and>
     (\<forall>r \<in> set (db_channel_announcements db). channel_features_fit (ca_features (announcement_of E r)) \<and>
        node_id_prefixed W (ca_node_id_1 (announcement_of E r)) \<and> node_id_prefixed W (ca_node_id_2 (announcement_of E r))) \<and>
     (\<forall>(n, info) \<in> set (graph_nodes g). node_id_prefixed W n \<and> (\<forall>i. info = Some i \<longrightarrow> node_features_fit (nai_features i))) \<and>
     2 * length (db_channel_announcements db) + length (graph_nodes g) < 2 ^ 32"

lemma spec_row:
  assumes "direction_spec E db last_sync scid b u"
  shows "dud_latest_update_after_seen u = Some x \<Longrightarrow> \<exists>r \<in> rows_of db scid b. x = delta_of_row E r"
    and "dud_last_update_before_seen u = Some x \<Longrightarrow> \<exists>r \<in> rows_of db scid b. x = delta_of_row E r"
  using assms by (auto simp: direction_spec_def is_latest_def is_reference_def)

lemma looked_up_direction:
  assumes "looked_up E db g last_sync current scid d" and "dir_of b d = Some u"
  shows "(direction_spec E db last_sync scid b u \<and> (\<forall>fl. dud_serialization_update_flags u = Some fl \<longrightarrow> reminder_flags b fl)) \<or> reminder_only b u"
  using looked_upD [OF assms(1), of b] assms(2) by (metis option.inject)

lemma looked_up_directed_ok:
  assumes up: "looked_up E db g last_sync current scid d" and ok: "updates_table_ok E db" and gossip: "stored_gossip_ok W E db g"
  shows "directed_ok scid (dir_of b d)" and "directed_flags_ok (dir_of b d)"
proof -
  have row: "cu_short_channel_id (update_of E r) = scid \<and> cu_channel_flags (update_of E r) AND 252 = 0" if "r \<in> rows_of db scid b" for r
    using ok gossip that by (auto simp: rows_of_def updates_table_ok_def update_row_ok_def stored_gossip_ok_def)
  have "cu_short_channel_id (ud_update x) = scid \<and> cu_channel_flags (ud_update x) AND 252 = 0"
    if "dir_of b d = Some u" "dud_latest_update_after_seen u = Some x \<or> dud_last_update_before_seen u = Some x" for u x
  proof -
    from that looked_up_direction [OF up that(1)] have "direction_spec E db last_sync scid b u"
      by (auto simp: reminder_only_def fresh_direction_def)
    from spec_row [OF this] that(2) obtain r where "r \<in> rows_of db scid b" "x = delta_of_row E r" by blast
    with row show ?thesis by (simp add: delta_of_row_def)
  qed
  moreover have "fl AND 252 = 0" if "dir_of b d = Some u" "dud_serialization_update_flags u = Some fl" for u fl
    using looked_up_direction [OF up that(1)] that(2) by (auto simp: reminder_only_def dest: reminder_flagsD)
  ultimately show "directed_ok scid (dir_of b d)" "directed_flags_ok (dir_of b d)"
    by (auto simp: directed_ok_def directed_flags_ok_def)
qed

lemma announcement_entry_row:
  assumes "announcement_entry E db ids scid = Some a"
  shows "\<exists>r \<in> set (db_channel_announcements db). car_short_channel_id r = scid \<and> a = announcement_delta_of E r \<and> scid \<in> set ids"
  using assms by (auto simp: announcement_entry_def dest: find_member split: if_splits)

text \<open>The set that reaches the serializer.\<close>

definition collected :: "lookup_env \<Rightarrow> database \<Rightarrow> network_graph \<Rightarrow> u32 \<Rightarrow> u64 \<Rightarrow> delta_set \<Rightarrow> bool" where
  "collected E db g last_sync current ds \<longleftrightarrow> bt_inv ds \<and>
     (\<forall>scid d. bt_get ds scid = Some d \<longrightarrow> looked_up E db g last_sync current scid d \<and> keep_channel d) \<and>
     (\<forall>scid. bt_get ds scid \<noteq> None \<longleftrightarrow> announcement_entry E db (graph_channel_ids g) scid \<noteq> None \<and>
       (updated_since db last_sync scid \<or> reminder_due E db (graph_channel_ids g) last_sync current scid))"

lemma bt_get_filter:
  assumes "bt_inv ds"
  shows "bt_inv (filter P ds)" and "bt_get (filter P ds) k = Some v \<longleftrightarrow> bt_get ds k = Some v \<and> P (k, v)"
proof -
  show inv: "bt_inv (filter P ds)" using assms by (simp add: sorted_wrt_filter sorted_wrt_map)
  show "bt_get (filter P ds) k = Some v \<longleftrightarrow> bt_get ds k = Some v \<and> P (k, v)"
    unfolding bt_get_in_set [OF inv, symmetric] bt_get_in_set [OF assms, symmetric] by simp
qed

lemma lookups_collected:
  fixes now :: u64 and reference :: "u64 option"
  assumes "lookup_ok E db" and "PRUNE_INTERVAL \<le> current"
    and "current = (case reference of Some t \<Rightarrow> t | None \<Rightarrow> now)"
  shows "\<exists>ds1 ds2 ds. fetch_channel_announcements E now db g last_sync reference [] = Inr ds1 \<and>
    fetch_channel_updates E db last_sync ds1 = Inr ds2 \<and> filter_delta_set ds2 = Inr ds \<and> collected E db g last_sync current ds"
proof -
  from lookups_spec [OF assms, of g last_sync] obtain ds1 ds2 where
    l: "fetch_channel_announcements E now db g last_sync reference [] = Inr ds1" "fetch_channel_updates E db last_sync ds1 = Inr ds2"
    and inv: "bt_inv ds2" and up: "\<And>scid d. bt_get ds2 scid = Some d \<Longrightarrow> looked_up E db g last_sync current scid d"
    and all: "\<And>scid. announcement_entry E db (graph_channel_ids g) scid \<noteq> None \<Longrightarrow> bt_get ds2 scid \<noteq> None"
    by blast
  let ?ds = "filter (\<lambda>(_, v). keep_channel v) ds2"
  have get: "bt_get ?ds scid = Some d \<longleftrightarrow> bt_get ds2 scid = Some d \<and> keep_channel d" for scid d
    by (simp add: bt_get_filter(2) [OF inv])
  have "bt_get ?ds scid \<noteq> None \<longleftrightarrow> announcement_entry E db (graph_channel_ids g) scid \<noteq> None \<and>
       (updated_since db last_sync scid \<or> reminder_due E db (graph_channel_ids g) last_sync current scid)" for scid
  proof (cases "bt_get ds2 scid")
    case None
    then show ?thesis using all [of scid] get [of scid] by auto
  next
    case (Some d)
    then show ?thesis using keep_looked_up [OF up [OF Some]] get [of scid] by auto
  qed
  then have "collected E db g last_sync current ?ds"
    using bt_get_filter(1) [OF inv] up by (simp add: collected_def get)
  with l filter_delta_set_eq [OF inv] show ?thesis by blast
qed

lemma collected_delta_set_ok:
  assumes c: "collected E db g last_sync current ds" and ok: "lookup_ok E db" and gossip: "stored_gossip_ok W E db g"
  shows "delta_set_ok ds"
proof -
  have upd: "updates_table_ok E db" and ann: "announcements_table_ok E db" using ok by (simp_all add: lookup_ok_def)
  have inv: "bt_inv ds" using c by (simp add: collected_def)
  have "channel_delta_ok scid d" if "(scid, d) \<in> set ds" for scid d
  proof -
    have up: "looked_up E db g last_sync current scid d" and keep: "keep_channel d"
      using c that by (auto simp: collected_def bt_get_in_set)
    from keep obtain a where a: "cd_announcement d = Some a" by (auto simp: keep_channel_def)
    with up announcement_entry_row [of E db _ scid a] ann have "ca_short_channel_id (ad_announcement a) = scid"
      by (fastforce simp: looked_up_def announcements_table_ok_def announcement_row_ok_def announcement_delta_of_def)
    with a looked_up_directed_ok(1) [OF up upd gossip, of False] looked_up_directed_ok(1) [OF up upd gossip, of True]
    show ?thesis by (simp add: channel_delta_ok_def dir_of_def)
  qed
  with inv show ?thesis by (auto simp: delta_set_ok_def)
qed

lemma collected_length:
  assumes c: "collected E db g last_sync current ds"
  shows "length ds \<le> length (db_channel_announcements db)"
proof -
  have inv: "bt_inv ds" using c by (simp add: collected_def)
  then have d: "distinct (map fst ds)" using strict_sorted_iff by blast
  have "set (map fst ds) \<subseteq> set (map car_short_channel_id (db_channel_announcements db))"
  proof
    fix scid assume "scid \<in> set (map fst ds)"
    then obtain v where "bt_get ds scid = Some v" using bt_get_in_set [OF inv] by auto
    with c have "announcement_entry E db (graph_channel_ids g) scid \<noteq> None" by (auto simp: collected_def)
    then show "scid \<in> set (map car_short_channel_id (db_channel_announcements db))"
      using announcement_entry_row by fastforce
  qed
  from card_mono [OF _ this] distinct_card [OF d] card_length [of "map car_short_channel_id (db_channel_announcements db)"]
  show ?thesis by simp
qed

section \<open>The node deltas\<close>

definition nodes_collected :: "lookup_env \<Rightarrow> database \<Rightarrow> network_graph \<Rightarrow> u32 \<Rightarrow> u64 \<Rightarrow> node_delta_set \<Rightarrow> bool" where
  "nodes_collected E db g last_sync current nds \<longleftrightarrow> hm_inv nds \<and>
     (\<forall>n. hm_get nds n = map_option (node_outcome E db g last_sync current n) (hm_get (graph_node_deltas g) n))"

lemma graph_node_deltas_entry:
  "(n, d) \<in> set (graph_node_deltas g) \<Longrightarrow> \<exists>i. (n, Some i) \<in> set (graph_nodes g) \<and>
     (\<exists>l. nde_latest_details d = Some l \<and> nd_features l = nai_features i)"
  by (force simp: graph_node_deltas_def set_map_filter)

lemma length_map_filter: "length (List.map_filter f xs) \<le> length xs"
  by (induction xs) (auto simp: map_filter_simps split: option.split)

lemma nodes_collected_entry:
  assumes c: "nodes_collected E db g last_sync current nds" and nd: "(n, d) \<in> set nds"
  shows "\<exists>i. (n, Some i) \<in> set (graph_nodes g) \<and> (\<exists>l. nde_latest_details d = Some l \<and> nd_features l = nai_features i)"
proof -
  have "hm_get nds n = Some d" using c nd by (auto simp: nodes_collected_def hm_get_in_set)
  with c obtain d0 where "hm_get (graph_node_deltas g) n = Some d0" and d: "d = node_outcome E db g last_sync current n d0"
    by (auto simp: nodes_collected_def)
  then have "(n, d0) \<in> set (graph_node_deltas g)" by (simp add: hm_get_map_of map_of_SomeD)
  from graph_node_deltas_entry [OF this] obtain i l where
    i: "(n, Some i) \<in> set (graph_nodes g)" "nde_latest_details d0 = Some l" "nd_features l = nai_features i" by blast
  with node_outcome_latest(1) [of E db g last_sync current n d0] d show ?thesis by (auto simp: map_option_case split: option.splits)
qed

lemma nodes_collected_length:
  assumes c: "nodes_collected E db g last_sync current nds"
  shows "length nds \<le> length (graph_nodes g)"
proof -
  have d: "distinct (map fst nds)" using c by (simp add: nodes_collected_def)
  have "set (map fst nds) \<subseteq> fst ` set (graph_nodes g)"
    using nodes_collected_entry [OF c] by force
  from card_mono [OF _ this] distinct_card [OF d] card_length [of "map fst (graph_nodes g)"]
  show ?thesis by simp
qed

lemma collected_gossip_ok:
  assumes c: "collected E db g last_sync current ds" and n: "nodes_collected E db g last_sync current' nds"
    and ok: "lookup_ok E db" and gossip: "stored_gossip_ok W E db g"
  shows "gossip_ok W ds nds"
proof -
  have upd: "updates_table_ok E db" using ok by (simp add: lookup_ok_def)
  have inv: "bt_inv ds" using c by (simp add: collected_def)
  have chans: "directed_flags_ok (fst (cd_updates d)) \<and> directed_flags_ok (snd (cd_updates d)) \<and>
      (\<forall>a. cd_announcement d = Some a \<longrightarrow> channel_features_fit (ca_features (ad_announcement a)) \<and>
        node_id_prefixed W (ca_node_id_1 (ad_announcement a)) \<and> node_id_prefixed W (ca_node_id_2 (ad_announcement a)))"
    if "(scid, d) \<in> set ds" for scid d
  proof -
    have up: "looked_up E db g last_sync current scid d" using c that by (auto simp: collected_def bt_get_in_set)
    have "\<exists>r \<in> set (db_channel_announcements db). a = announcement_delta_of E r" if "cd_announcement d = Some a" for a
      using up that announcement_entry_row [of E db "graph_channel_ids g" scid a] by (auto simp: looked_up_def)
    then show ?thesis
      using looked_up_directed_ok(2) [OF up upd gossip, of False] looked_up_directed_ok(2) [OF up upd gossip, of True] gossip
      by (fastforce simp: dir_of_def stored_gossip_ok_def announcement_delta_of_def)
  qed
  have nodes: "node_id_prefixed W m \<and> (\<exists>l. nde_latest_details d = Some l \<and> node_features_fit (nd_features l))"
    if "(m, d) \<in> set nds" for m d
    using nodes_collected_entry [OF n that] gossip by (fastforce simp: stored_gossip_ok_def)
  have "2 * length ds + length nds < 2 ^ 32"
    using collected_length [OF c] nodes_collected_length [OF n] gossip by (simp add: stored_gossip_ok_def)
  with chans nodes show ?thesis by (auto simp: gossip_ok_def)
qed

end
