(* ===== verification/File_System.thy ===== *)
theory File_System
  imports Rust_Collections
begin

text \<open>
The part of a Unix file system that src/snapshot.rs uses: directories, files and symbolic links,
  with the calls of \<open>std::fs\<close> as functions on them. A path is the list of its components, so
  \<open>format!("{}/{}", a, b)\<close> appends a component. A link is followed once: the server links to
  regular files only. Every failing call is an \<open>expect\<close> or \<open>unwrap\<close> in the source, hence a panic.
\<close>

section \<open>Paths and nodes\<close>

type_synonym path = "string list"

datatype fs_node = Dir | File (file_data: bytes) | Symlink (link_target: path)

type_synonym file_system = "(path \<times> fs_node) list"

definition fs_get :: "file_system \<Rightarrow> path \<Rightarrow> fs_node option" where
  "fs_get fs p = hm_get fs p"

abbreviation fs_inv :: "file_system \<Rightarrow> bool" where
  "fs_inv \<equiv> hm_inv"

text \<open>A relative target is read from the directory that holds the link.\<close>

fun join_path :: "path \<Rightarrow> path \<Rightarrow> path" where
  "join_path base [] = base"
| "join_path base (c # cs) = (if c = ''..'' then join_path (butlast base) cs else join_path (base @ [c]) cs)"

definition follow :: "file_system \<Rightarrow> path \<Rightarrow> path" where
  "follow fs p = (case fs_get fs p of Some (Symlink target) \<Rightarrow> join_path (butlast p) target | _ \<Rightarrow> p)"

section \<open>Calls\<close>

text \<open>\<open>fs::metadata(p).is_ok()\<close>\<close>

definition metadata_ok :: "path \<Rightarrow> file_system \<Rightarrow> bool" where
  "metadata_ok p fs \<longleftrightarrow> fs_get fs (follow fs p) \<noteq> None"

definition read_file :: "file_system \<Rightarrow> path \<Rightarrow> bytes option" where
  "read_file fs p = (case fs_get fs (follow fs p) of Some (File d) \<Rightarrow> Some d | _ \<Rightarrow> None)"

definition remove_dir_all :: "path \<Rightarrow> file_system \<Rightarrow> file_system res" where
  "remove_dir_all p fs = (case fs_get fs p of
     Some Dir \<Rightarrow> Inr (filter (\<lambda>(q, _). \<not> prefix p q) fs)
   | Some (Symlink _) \<Rightarrow> Inr (hm_remove p fs)
   | _ \<Rightarrow> Inl Io_Error)"

definition create_dir_all :: "path \<Rightarrow> file_system \<Rightarrow> file_system res" where
  "create_dir_all p fs = fold_res (\<lambda>q fs. case fs_get fs q of
       None \<Rightarrow> Inr (hm_insert q Dir fs)
     | Some Dir \<Rightarrow> Inr fs
     | Some _ \<Rightarrow> Inl Io_Error) (tl (prefixes p)) fs"

definition write_file :: "path \<Rightarrow> bytes \<Rightarrow> file_system \<Rightarrow> file_system res" where
  "write_file p d fs =
     (let q = follow fs p
      in if fs_get fs (butlast q) = Some Dir \<and> fs_get fs q \<noteq> Some Dir
         then Inr (hm_insert q (File d) fs) else Inl Io_Error)"

definition symlink :: "path \<Rightarrow> path \<Rightarrow> file_system \<Rightarrow> file_system res" where
  "symlink target p fs =
     (if fs_get fs (butlast p) = Some Dir \<and> fs_get fs p = None
      then Inr (hm_insert p (Symlink target) fs) else Inl Io_Error)"

text \<open>\<open>fs::rename\<close> of a directory; the new name may only be taken by an empty directory.\<close>

definition rename_dir :: "path \<Rightarrow> path \<Rightarrow> file_system \<Rightarrow> file_system res" where
  "rename_dir a b fs =
     (if fs_get fs a = Some Dir \<and> fs_get fs (butlast b) = Some Dir \<and> \<not> prefix a b \<and>
         (fs_get fs b = None \<or> fs_get fs b = Some Dir \<and> \<not> list_ex (\<lambda>(q, _). strict_prefix b q) fs)
      then Inr (map (\<lambda>(q, n). if prefix a q then (b @ drop (length a) q, n) else (q, n))
        (filter (\<lambda>(q, _). \<not> prefix b q) fs))
      else Inl Io_Error)"

section \<open>What a call leaves\<close>

lemma hm_get_filter_key: "hm_get (filter (\<lambda>(q, _). P q) m) k = (if P k then hm_get m k else None)"
  by (induction m) auto

lemma hm_inv_filter_key: "hm_inv m \<Longrightarrow> hm_inv (filter P m)"
  by (simp add: distinct_map_filter)

lemma hm_get_map_key:
  assumes "inj_on f (fst ` set m)" and "k \<in> fst ` set m"
  shows "hm_get (map (\<lambda>(q, n). (f q, n)) m) (f k) = hm_get m k"
  using assms
proof (induction m)
  case (Cons x m)
  obtain q n where x: "x = (q, n)" by (cases x)
  show ?case
  proof (cases "k = q")
    case False
    then have "f k \<noteq> f q" using Cons.prems(2) inj_onD [OF Cons.prems(1), of k q] by (auto simp: x)
    with False Cons show ?thesis by (auto simp: x)
  qed (simp add: x)
qed simp

lemma fs_get_None: "fs_get fs q = None \<longleftrightarrow> q \<notin> fst ` set fs"
  by (simp only: fs_get_def hm_get_map_of map_of_eq_None_iff)

lemma remove_dir_all_ok:
  assumes "fs_get fs p = Some Dir"
  shows "\<exists>fs'. remove_dir_all p fs = Inr fs' \<and> (fs_inv fs \<longrightarrow> fs_inv fs') \<and>
    (\<forall>q. fs_get fs' q = (if prefix p q then None else fs_get fs q))"
  using assms by (simp add: remove_dir_all_def fs_get_def hm_get_filter_key hm_inv_filter_key)

lemma write_file_ok:
  assumes "fs_inv fs" and "fs_get fs (butlast p) = Some Dir" and "fs_get fs p = None \<or> (\<exists>d'. fs_get fs p = Some (File d'))"
  shows "\<exists>fs'. write_file p d fs = Inr fs' \<and> fs_inv fs' \<and> fs_get fs' = (fs_get fs)(p \<mapsto> File d)"
  using assms by (auto simp: write_file_def follow_def fs_get_def hm_get_insert hm_inv_insert fun_eq_iff)

lemma symlink_ok:
  assumes "fs_inv fs" and "fs_get fs (butlast p) = Some Dir" and "fs_get fs p = None"
  shows "\<exists>fs'. symlink t p fs = Inr fs' \<and> fs_inv fs' \<and> fs_get fs' = (fs_get fs)(p \<mapsto> Symlink t)"
  using assms by (auto simp: symlink_def fs_get_def hm_get_insert hm_inv_insert fun_eq_iff)

lemma create_dirs_ok:
  assumes "fs_inv fs" and "\<And>q. q \<in> set qs \<Longrightarrow> fs_get fs q \<in> {None, Some Dir}"
  shows "\<exists>fs'. fold_res (\<lambda>q fs. case fs_get fs q of
       None \<Rightarrow> Inr (hm_insert q Dir fs) | Some Dir \<Rightarrow> Inr fs | Some _ \<Rightarrow> Inl Io_Error) qs fs = Inr fs' \<and>
    fs_inv fs' \<and> (\<forall>q. fs_get fs' q = (if q \<in> set qs then Some Dir else fs_get fs q))"
  using assms
proof (induction qs arbitrary: fs)
  case (Cons q qs)
  define fs1 where "fs1 = (if fs_get fs q = None then hm_insert q Dir fs else fs)"
  have get1: "fs_get fs1 q' = (if q' = q then Some Dir else fs_get fs q')" for q'
    using Cons.prems(2) [of q] by (auto simp: fs1_def fs_get_def hm_get_insert)
  have inv1: "fs_inv fs1" using Cons.prems(1) by (simp add: fs1_def hm_inv_insert)
  have "fs_get fs1 q' \<in> {None, Some Dir}" if "q' \<in> set qs" for q'
    using Cons.prems(2) [of q'] that by (simp add: get1)
  from Cons.IH [OF inv1 this] obtain fs' where
    "fold_res (\<lambda>q fs. case fs_get fs q of
       None \<Rightarrow> Inr (hm_insert q Dir fs) | Some Dir \<Rightarrow> Inr fs | Some _ \<Rightarrow> Inl Io_Error) qs fs1 = Inr fs'"
    "fs_inv fs'" "\<And>q'. fs_get fs' q' = (if q' \<in> set qs then Some Dir else fs_get fs1 q')" by blast
  moreover have "(case fs_get fs q of None \<Rightarrow> Inr (hm_insert q Dir fs) | Some Dir \<Rightarrow> Inr fs | Some _ \<Rightarrow> Inl Io_Error) = Inr fs1"
    using Cons.prems(2) [of q] by (auto simp: fs1_def)
  ultimately show ?case by (auto simp: get1)
qed simp

lemma create_dir_all_ok:
  assumes "fs_inv fs" and "\<And>q. prefix q p \<Longrightarrow> q \<noteq> [] \<Longrightarrow> fs_get fs q \<in> {None, Some Dir}"
  shows "\<exists>fs'. create_dir_all p fs = Inr fs' \<and> fs_inv fs' \<and>
    (\<forall>q. fs_get fs' q = (if prefix q p \<and> q \<noteq> [] then Some Dir else fs_get fs q))"
proof -
  have set: "set (tl (prefixes p)) = {q. prefix q p \<and> q \<noteq> []}"
  proof -
    have "tl (prefixes p) = (case p of [] \<Rightarrow> [] | x # xs \<Rightarrow> map (Cons x) (prefixes xs))" by (cases p) simp_all
    then show ?thesis by (cases p) (auto simp: in_set_prefixes prefix_Cons)
  qed
  from create_dirs_ok [OF assms(1), of "tl (prefixes p)"] assms(2) show ?thesis
    by (simp add: create_dir_all_def set)
qed

lemma rename_dir_ok:
  assumes inv: "fs_inv fs" and a: "fs_get fs a = Some Dir" and b: "fs_get fs (butlast b) = Some Dir" "fs_get fs b = None"
    and apart: "\<not> prefix a b" "\<not> prefix b a" and clean: "\<And>q. prefix b q \<Longrightarrow> fs_get fs q = None"
  shows "\<exists>fs'. rename_dir a b fs = Inr fs' \<and> fs_inv fs' \<and>
    (\<forall>q. fs_get fs' (b @ q) = fs_get fs (a @ q)) \<and>
    (\<forall>q. \<not> prefix b q \<longrightarrow> fs_get fs' q = (if prefix a q then None else fs_get fs q))"
proof -
  let ?f = "\<lambda>q. if prefix a q then b @ drop (length a) q else q"
  have keys: "\<not> prefix b q" if "q \<in> fst ` set fs" for q
    using clean [of q] that by (force simp: fs_get_def hm_get_map_of map_of_eq_None_iff)
  have same: "filter (\<lambda>(q, _). \<not> prefix b q) fs = fs" using keys by (force simp: filter_id_conv)
  have inj: "inj_on ?f (fst ` set fs)"
  proof (rule inj_onI)
    fix x y assume "x \<in> fst ` set fs" "y \<in> fst ` set fs" and eq: "?f x = ?f y"
    then show "x = y" using keys [of x] keys [of y]
      by (auto simp: prefix_def split: if_splits)
  qed
  define fs' where "fs' = map (\<lambda>(q, n). (?f q, n)) fs"
  have eq: "rename_dir a b fs = Inr fs'"
    using a b apart by (simp add: rename_dir_def same fs'_def) (auto intro!: map_cong)
  have keys': "map fst fs' = map ?f (map fst fs)" by (simp add: fs'_def split_beta)
  have "fs_inv fs'" unfolding keys' using inv inj by (subst distinct_map) simp
  moreover have mapped: "fs_get fs' (?f q) = fs_get fs q" if "q \<in> fst ` set fs" for q
    unfolding fs_get_def fs'_def using inj that by (rule hm_get_map_key)
  have none: "fs_get fs' q = None" if "q \<notin> ?f ` fst ` set fs" for q
  proof -
    have "q \<notin> fst ` set fs'" using that arg_cong [OF keys', of set] by (simp only: set_map) blast
    then show ?thesis by (rule fs_get_None [THEN iffD2])
  qed
  have "fs_get fs' (b @ q) = fs_get fs (a @ q)" for q
  proof (cases "a @ q \<in> fst ` set fs")
    case True
    then show ?thesis using mapped [OF True] by simp
  next
    case False
    have "b @ q \<notin> ?f ` K" if "a @ q \<notin> K" "\<And>p. p \<in> K \<Longrightarrow> \<not> prefix b p" for K
      using that by (auto simp: prefix_def split: if_splits)
    from this [OF False keys] have "b @ q \<notin> ?f ` fst ` set fs" .
    from none [OF this] fs_get_None [THEN iffD2, OF False] show ?thesis by simp
  qed
  moreover have "fs_get fs' q = (if prefix a q then None else fs_get fs q)" if "\<not> prefix b q" for q
  proof (cases "q \<in> fst ` set fs \<and> \<not> prefix a q")
    case True
    then show ?thesis using mapped [of q] by simp
  next
    case False
    have "q \<notin> ?f ` K" if "\<not> (q \<in> K \<and> \<not> prefix a q)" "\<not> prefix b q" for K
      using that by (auto simp: prefix_def split: if_splits)
    from this [OF False that] have "q \<notin> ?f ` fst ` set fs" .
    from none [OF this] have "fs_get fs' q = None" .
    moreover have "fs_get fs q = None" if "\<not> prefix a q" using False that by (intro fs_get_None [THEN iffD2]) simp
    ultimately show ?thesis by simp
  qed
  ultimately show ?thesis using eq by blast
qed

section \<open>Adding many nodes\<close>

text \<open>
  Writing a file and making a link have one contract: at a free name in an existing directory
  they add one node and change nothing else. What follows from it for a loop is proved once.
\<close>

locale node_store =
  fixes get :: "'fs \<Rightarrow> path \<Rightarrow> fs_node option"
    and put :: "'x \<Rightarrow> path \<Rightarrow> 'fs \<Rightarrow> 'fs res"
    and node :: "'x \<Rightarrow> fs_node"
    and inv :: "'fs \<Rightarrow> bool"
  assumes put_ok: "inv fs \<Longrightarrow> get fs (butlast p) = Some Dir \<Longrightarrow> get fs p = None \<Longrightarrow>
    \<exists>fs'. put x p fs = Inr fs' \<and> inv fs' \<and> get fs' = (get fs)(p \<mapsto> node x)"
begin

lemma put_all:
  assumes "inv fs" and "distinct (map fst xs)"
    and "\<And>p x. (p, x) \<in> set xs \<Longrightarrow> get fs (butlast p) = Some Dir \<and> get fs p = None"
  shows "\<exists>fs'. fold_res (\<lambda>(p, x). put x p) xs fs = Inr fs' \<and> inv fs' \<and>
    (\<forall>q. get fs' q = (case map_of xs q of Some x \<Rightarrow> Some (node x) | None \<Rightarrow> get fs q))"
  using assms
proof (induction xs arbitrary: fs)
  case (Cons y xs)
  obtain p x where y: "y = (p, x)" by (cases y)
  from Cons.prems(3) [of p x] put_ok [OF Cons.prems(1), of p x] obtain fs1 where
    fs1: "put x p fs = Inr fs1" "inv fs1" "get fs1 = (get fs)(p \<mapsto> node x)" by (auto simp: y)
  have "get fs1 (butlast q) = Some Dir \<and> get fs1 q = None" if "(q, z) \<in> set xs" for q z
  proof -
    have "q \<noteq> p" using Cons.prems(2) that by (force simp: y)
    moreover have "butlast q \<noteq> p" using Cons.prems(3) [of q z] Cons.prems(3) [of p x] that by (auto simp: y)
    ultimately show ?thesis using Cons.prems(3) [of q z] that by (simp add: fs1(3) y)
  qed
  with Cons.IH [OF fs1(2)] Cons.prems(2) obtain fs' where
    "fold_res (\<lambda>(p, x). put x p) xs fs1 = Inr fs'" "inv fs'"
    "\<And>q. get fs' q = (case map_of xs q of Some x \<Rightarrow> Some (node x) | None \<Rightarrow> get fs1 q)" by (auto simp: y)
  moreover have "map_of xs p = None" using Cons.prems(2) by (simp add: y map_of_eq_None_iff)
  ultimately show ?case using fs1 by (auto simp: y split: option.split)
qed simp

end

interpretation files: node_store fs_get "\<lambda>d p. write_file p d" File fs_inv
  by unfold_locales (use write_file_ok in blast)

interpretation links: node_store fs_get symlink Symlink fs_inv
  by unfold_locales (rule symlink_ok)

end
