(* ===== verification/Snapshot.thy ===== *)
theory Snapshot
  imports Delta_Calculation File_System
begin

text \<open>
src/snapshot.rs: the scopes of the snapshots, one round of captures with its pending and finalized
  directories, the links from timestamps to snapshots, and the schedule. Times are \<open>u64\<close> seconds
  and subtraction wraps as in the release build.
\<close>

section \<open>The scopes\<close>

text \<open>The doubling loop of \<open>snapshot_gossip\<close>; a zero interval would never leave it.\<close>

partial_function (option) scope_loop :: "u64 \<Rightarrow> u64 list \<Rightarrow> u64 list option" where
  "scope_loop current_scope snapshot_scopes =
     (let snapshot_scopes = snapshot_scopes @ [current_scope]
      in if ucast MAX_SNAPSHOT_SCOPE \<le> current_scope then Some (snapshot_scopes @ [- 1])
         else scope_loop (push_bit 1 current_scope) snapshot_scopes)"

definition snapshot_scopes :: "u64 \<Rightarrow> u64 list option" where
  "snapshot_scopes snapshot_interval = scope_loop snapshot_interval []"

section \<open>One round of snapshots\<close>

text \<open>
  What a round gets from outside: the environment, the wire encodings, the genesis hashes, LDK's
  pruning, and for each scope the state of the database, the row and hash orders and the clock.
\<close>

record snapshot_env =
  se_env :: env
  se_genesis :: "network \<Rightarrow> chain_hash"
  se_wire :: wire
  se_prune :: "network_graph \<Rightarrow> network_graph"
  se_orders :: "u64 \<Rightarrow> hash_orders"
  se_lookup :: "u64 \<Rightarrow> lookup_env"
  se_database :: "u64 \<Rightarrow> database"
  se_clock :: "u64 \<Rightarrow> u64"

definition pending_snapshot_directory :: "path \<Rightarrow> path" where
  "pending_snapshot_directory cache = cache @ [''snapshots_pending'']"

definition pending_symlink_directory :: "path \<Rightarrow> path" where
  "pending_symlink_directory cache = cache @ [''symlinks_pending'']"

definition finalized_snapshot_directory :: "path \<Rightarrow> path" where
  "finalized_snapshot_directory cache = cache @ [''snapshots'']"

definition finalized_symlink_directory :: "path \<Rightarrow> path" where
  "finalized_symlink_directory cache = cache @ [''symlinks'']"

definition relative_symlink_to_snapshot_path :: path where
  "relative_symlink_to_snapshot_path = [''..'', ''snapshots'']"

definition suffixes :: "(path \<times> path) list" where
  "suffixes = [([], []), ([''v2''], [''..''])]"

text \<open>Purging and recreating the pending directories of one version.\<close>

definition remove_if_present :: "path \<Rightarrow> file_system \<Rightarrow> file_system res" where
  "remove_if_present p fs = (if metadata_ok p fs then remove_dir_all p fs else Inr fs)"

definition recreate_pending :: "path \<Rightarrow> path \<times> path \<Rightarrow> file_system \<Rightarrow> file_system res" where
  "recreate_pending cache x fs =
     (let versioned_snapshot_directory = pending_snapshot_directory cache @ fst x;
          versioned_symlink_directory = pending_symlink_directory cache @ fst x
      in bind_res (remove_if_present versioned_snapshot_directory fs) (\<lambda>fs.
         bind_res (remove_if_present versioned_symlink_directory fs) (\<lambda>fs.
         bind_res (create_dir_all versioned_snapshot_directory fs) (\<lambda>fs.
         create_dir_all versioned_symlink_directory fs))))"

definition snapshot_sync_timestamps :: "u64 \<Rightarrow> u64 list \<Rightarrow> (u64 \<times> u64) list" where
  "snapshot_sync_timestamps reference_timestamp scopes =
     map (\<lambda>current_scope. (current_scope, saturating_sub reference_timestamp current_scope)) scopes"

definition snapshot_filename :: "u64 \<Rightarrow> u64 \<Rightarrow> u64 \<Rightarrow> string" where
  "snapshot_filename reference_timestamp current_scope current_last_sync_timestamp =
     ''snapshot__calculated-at:'' @ dec_string (unat reference_timestamp) @
     ''__range:'' @ dec_string (unat current_scope) @
     ''-scope__previous-sync:'' @ dec_string (unat current_last_sync_timestamp) @ ''.lngossip''"

definition capture_snapshot ::
  "snapshot_env \<Rightarrow> u64 \<Rightarrow> path \<Rightarrow> u64 \<times> u64 \<Rightarrow> file_system \<times> network_graph \<times> (u64 \<times> string) list \<Rightarrow>
   (file_system \<times> network_graph \<times> (u64 \<times> string) list) res" where
  "capture_snapshot S reference_timestamp cache x st =
     (case (x, st) of ((current_scope, current_last_sync_timestamp), (fs, network_graph, snapshot_filenames_by_scope)) \<Rightarrow>
      let e = se_env S; ho = se_orders S current_scope; now = se_clock S current_scope
      in bind_res (calculate_delta e (se_genesis S) ho (se_lookup S current_scope) (se_prune S) now now now
           (se_database S current_scope) network_graph (ucast current_last_sync_timestamp) (Some reference_timestamp)) (\<lambda>(delta, network_graph).
         bind_res (serialize_delta (se_wire S) e ho delta 1) (\<lambda>snapshot_v1.
         bind_res (serialize_delta (se_wire S) e ho delta 2) (\<lambda>snapshot_v2.
         let name = snapshot_filename reference_timestamp current_scope current_last_sync_timestamp
         in bind_res (write_file (pending_snapshot_directory cache @ [name]) (sr_data snapshot_v1) fs) (\<lambda>fs.
            bind_res (write_file (pending_snapshot_directory cache @ [''v2'', name]) (sr_data snapshot_v2) fs) (\<lambda>fs.
            Inr (fs, network_graph, hm_insert current_scope name snapshot_filenames_by_scope)))))))"

definition dummy_filename :: string where
  "dummy_filename = ''empty_delta.lngossip''"

definition timestamp_link :: "u64 \<Rightarrow> string" where
  "timestamp_link t = dec_string (unat t) @ ''.bin''"

definition create_dummy :: "snapshot_env \<Rightarrow> u64 \<Rightarrow> path \<Rightarrow> file_system \<Rightarrow> file_system res" where
  "create_dummy S reference_timestamp cache fs =
     bind_res (serialize_empty_blob (se_wire S) (se_env S) (se_genesis S) reference_timestamp 1) (\<lambda>dummy_snapshot_v1.
     bind_res (serialize_empty_blob (se_wire S) (se_env S) (se_genesis S) reference_timestamp 2) (\<lambda>dummy_snapshot_v2.
     bind_res (write_file (pending_snapshot_directory cache @ [dummy_filename]) dummy_snapshot_v1 fs) (\<lambda>fs.
     bind_res (write_file (pending_snapshot_directory cache @ [''v2'', dummy_filename]) dummy_snapshot_v2 fs) (\<lambda>fs.
     symlink (relative_symlink_to_snapshot_path @ [dummy_filename])
       (pending_symlink_directory cache @ [timestamp_link reference_timestamp]) fs))))"

definition referenced_scope :: "u64 list \<Rightarrow> u64 \<Rightarrow> u64 \<Rightarrow> u64 res" where
  "referenced_scope scopes granularity_interval i =
     (if i = 0 then Inr (- 1)
      else unwrap (find (\<lambda>current_scope. i * granularity_interval \<le> current_scope) scopes))"

definition canonical_last_sync_timestamp :: "u64 \<Rightarrow> u64 \<Rightarrow> u64 \<Rightarrow> u64" where
  "canonical_last_sync_timestamp reference_timestamp granularity_interval i =
     (if i = 0 then 0 else saturating_sub reference_timestamp (saturating_mul granularity_interval i))"

definition link_version ::
  "u64 \<Rightarrow> u64 \<Rightarrow> path \<Rightarrow> (u64 \<times> string) list \<Rightarrow> u64 \<Rightarrow> u64 \<Rightarrow> path \<times> path \<Rightarrow> file_system \<Rightarrow> file_system res" where
  "link_version reference_timestamp granularity_interval cache snapshot_filenames_by_scope i scope x fs =
     (case x of (version_suffix, path_to_root) \<Rightarrow>
      bind_res (unwrap (hm_get snapshot_filenames_by_scope scope)) (\<lambda>name.
      symlink (path_to_root @ relative_symlink_to_snapshot_path @ version_suffix @ [name])
        (pending_symlink_directory cache @ version_suffix @
          [timestamp_link (canonical_last_sync_timestamp reference_timestamp granularity_interval i)]) fs))"

definition link_step ::
  "u64 \<Rightarrow> u64 \<Rightarrow> u64 list \<Rightarrow> path \<Rightarrow> (u64 \<times> string) list \<Rightarrow> u64 \<Rightarrow> file_system \<Rightarrow> file_system res" where
  "link_step reference_timestamp granularity_interval scopes cache snapshot_filenames_by_scope i fs =
     bind_res (referenced_scope scopes granularity_interval i) (\<lambda>scope.
       fold_res (link_version reference_timestamp granularity_interval cache snapshot_filenames_by_scope i scope) suffixes fs)"

definition symlink_count :: "u64 \<Rightarrow> u64 \<Rightarrow> u64 option \<Rightarrow> u64 res" where
  "symlink_count reference_timestamp granularity_interval max_symlink_count =
     (if granularity_interval = 0 then Inl Rem_By_Zero
      else let symlink_count = (reference_timestamp - 1640995200) div granularity_interval
           in Inr (case max_symlink_count of Some m \<Rightarrow> min symlink_count m | None \<Rightarrow> symlink_count))"

text \<open>The characters of a decimal number as bytes.\<close>

definition ascii :: "string \<Rightarrow> bytes" where
  "ascii s = map of_char s"

definition finalize :: "path \<Rightarrow> u64 \<Rightarrow> file_system \<Rightarrow> file_system res" where
  "finalize cache update_time fs =
     bind_res (write_file (pending_symlink_directory cache @ [''update_time.txt'']) (ascii (dec_string (unat update_time))) fs) (\<lambda>fs.
     bind_res (remove_if_present (finalized_snapshot_directory cache) fs) (\<lambda>fs.
     bind_res (remove_if_present (finalized_symlink_directory cache) fs) (\<lambda>fs.
     bind_res (rename_dir (pending_snapshot_directory cache) (finalized_snapshot_directory cache) fs) (\<lambda>fs.
     rename_dir (pending_symlink_directory cache) (finalized_symlink_directory cache) fs))))"

definition generate_snapshots ::
  "snapshot_env \<Rightarrow> u64 \<Rightarrow> u64 \<Rightarrow> u64 \<Rightarrow> u64 \<Rightarrow> u64 list \<Rightarrow> path \<Rightarrow> u64 option \<Rightarrow> file_system \<times> network_graph \<Rightarrow>
   (file_system \<times> network_graph) res" where
  "generate_snapshots S snapshot_generation_timestamp update_time granularity_interval snapshot_interval scopes cache
     max_symlink_count st =
     (case st of (fs, network_graph) \<Rightarrow>
      bind_res (round_down_to_nearest_multiple snapshot_generation_timestamp snapshot_interval) (\<lambda>reference_timestamp.
      bind_res (fold_res (recreate_pending cache) suffixes fs) (\<lambda>fs.
      bind_res (fold_res (capture_snapshot S reference_timestamp cache)
          (snapshot_sync_timestamps reference_timestamp scopes) (fs, network_graph, []))
        (\<lambda>(fs, network_graph, snapshot_filenames_by_scope).
      bind_res (create_dummy S reference_timestamp cache fs) (\<lambda>fs.
      bind_res (symlink_count reference_timestamp granularity_interval max_symlink_count) (\<lambda>count.
      bind_res (fold_res (link_step reference_timestamp granularity_interval scopes cache snapshot_filenames_by_scope)
          (map word_of_nat [0 ..< unat count]) fs) (\<lambda>fs.
      bind_res (finalize cache update_time fs) (\<lambda>fs. Inr (fs, network_graph)))))))))"

section \<open>The background job\<close>

definition time_until_next_generation :: "u64 \<Rightarrow> u64 \<Rightarrow> u64" where
  "time_until_next_generation snapshot_interval current_time =
     (let remainder = current_time mod snapshot_interval in snapshot_interval - remainder)"

text \<open>One turn of the endless loop: the snapshots, and the seconds to sleep afterwards.\<close>

definition snapshot_gossip_turn ::
  "snapshot_env \<Rightarrow> u64 \<Rightarrow> u64 list \<Rightarrow> u64 \<Rightarrow> u64 \<Rightarrow> u64 \<Rightarrow> file_system \<times> network_graph \<Rightarrow>
   ((file_system \<times> network_graph) \<times> u64) res" where
  "snapshot_gossip_turn S snapshot_interval scopes snapshot_generation_timestamp update_time current_time st =
     bind_res (generate_snapshots S snapshot_generation_timestamp update_time (ucast SYMLINK_GRANULARITY_INTERVAL)
         snapshot_interval scopes (split_at_char (CHR ''/'') (cache_path (se_env S))) None st) (\<lambda>st.
     Inr (st, time_until_next_generation snapshot_interval current_time + 5))"

end
