(* ===== verification/Snapshot_Rounds.thy ===== *)
theory Snapshot_Rounds
  imports Snapshot
begin

text \<open>
What one round of src/snapshot.rs leaves behind: the doubling loop of the scopes ends, the
  scope that serves a timestamp reaches back far enough, and the phases of a round (recreating the
  pending directories, writing the snapshots, linking, finalizing) are followed through the file
  system.
\<close>

section \<open>The doubling loop ends\<close>

lemma unat_double: "c < 1814400 \<Longrightarrow> unat (push_bit 1 c :: u64) = 2 * unat c"
proof -
  assume "c < 1814400"
  then have "unat c < 1814400" by (simp add: word_less_nat_alt)
  then show ?thesis by (simp add: push_bit_eq_mult unat_word_ariths mult.commute)
qed

lemma scope_loop_result:
  assumes "0 < c"
  shows "\<exists>n scopes. scope_loop c acc = Some (acc @ scopes @ [- 1]) \<and> map unat scopes = map (\<lambda>i. unat c * 2 ^ i) [0 ..< Suc n] \<and>
    (\<forall>i < n. unat c * 2 ^ i < 1814400) \<and> 1814400 \<le> unat c * 2 ^ n"
  using assms
proof (induction "1814400 - unat c" arbitrary: c acc rule: less_induct)
  case less
  show ?case
  proof (cases "1814400 \<le> c")
    case True
    then have "scope_loop c acc = Some (acc @ [c] @ [- 1])" by (simp add: scope_loop.simps MAX_SNAPSHOT_SCOPE_def)
    moreover have "1814400 \<le> unat c" using True by (simp add: word_le_nat_alt)
    ultimately show ?thesis by (intro exI [of _ 0] exI [of _ "[c]"]) simp
  next
    case False
    then have lt: "c < 1814400" by simp
    note d = unat_double [OF lt]
    have c: "unat c < 1814400" "0 < unat c" using lt less.prems by (simp_all add: word_less_nat_alt)
    have pos: "0 < (push_bit 1 c :: u64)" using d c by (simp add: word_less_nat_alt)
    have "1814400 - unat (push_bit 1 c :: u64) < 1814400 - unat c" using d c by simp
    from less.hyps [OF this pos, of "acc @ [c]"] obtain n scopes where
      n: "scope_loop (push_bit 1 c) (acc @ [c]) = Some ((acc @ [c]) @ scopes @ [- 1])"
        "map unat scopes = map (\<lambda>i. 2 * unat c * 2 ^ i) [0 ..< Suc n]"
        "\<forall>i < n. 2 * unat c * 2 ^ i < 1814400" "1814400 \<le> 2 * unat c * 2 ^ n" unfolding d by blast
    have "scope_loop c acc = Some (acc @ (c # scopes) @ [- 1])"
      using False n(1) by (subst scope_loop.simps) (simp add: MAX_SNAPSHOT_SCOPE_def)
    moreover have "map unat (c # scopes) = map (\<lambda>i. unat c * 2 ^ i) [0 ..< Suc (Suc n)]"
      by (simp only: upt_conv_Cons [OF zero_less_Suc] map_Suc_upt [symmetric] list.map map_map o_def n(2)) (simp add: mult.assoc)
    moreover have "unat c * 2 ^ i < 1814400" if "i < Suc n" for i
      using that n(3) c(1) by (cases i) (auto simp: mult.assoc)
    moreover have "1814400 \<le> unat c * 2 ^ Suc n" using n(4) by (simp add: mult.assoc)
    ultimately show ?thesis by blast
  qed
qed

section \<open>The scope that serves a timestamp\<close>

lemma referenced_scope_ok:
  assumes "- 1 \<in> set scopes"
  shows "\<exists>s. referenced_scope scopes g i = Inr s \<and> s \<in> set scopes \<and> (i = 0 \<longrightarrow> s = - 1) \<and> i * g \<le> s \<and>
    (i \<noteq> 0 \<longrightarrow> (\<forall>s' \<in> set scopes. sorted scopes \<longrightarrow> i * g \<le> s' \<longrightarrow> s \<le> s'))"
proof (cases "i = 0")
  case False
  have max: "i * g \<le> (- 1 :: u64)" by simp
  then obtain s where f: "find (\<lambda>s. i * g \<le> s) scopes = Some s"
    using assms by (cases "find (\<lambda>s. i * g \<le> s) scopes") (auto simp: find_None_iff)
  have "s \<le> s'" if "sorted scopes" "s' \<in> set scopes" "i * g \<le> s'" for s'
    using f that by (induction scopes) (auto split: if_splits)
  with False f find_member [OF f] show ?thesis by (auto simp: referenced_scope_def)
qed (use assms in \<open>simp add: referenced_scope_def\<close>)

lemma canonical_covered:
  assumes "i * g \<le> s" and "unat i * unat g < 2 ^ 64" and "i = 0 \<longrightarrow> s = - 1"
  shows "saturating_sub r s \<le> canonical_last_sync_timestamp r g i"
proof (cases "i = 0")
  case True
  have "r = - 1" if "- 1 \<le> r" by (rule order_antisym [OF word_n1_ge that])
  with True show ?thesis using assms(3) by (auto simp: canonical_last_sync_timestamp_def saturating_sub_def)
next
  case False
  have "saturating_mul g i = i * g" using assms(2) by (simp add: saturating_mul_def mult.commute)
  with False assms(1) show ?thesis
    by (auto simp: canonical_last_sync_timestamp_def saturating_sub_def word_le_nat_alt unat_sub_if')
qed

section \<open>File names\<close>

lemma dec_string_digits: "c \<in> set (dec_string n) \<Longrightarrow> char_digit c \<noteq> None"
proof (induction n rule: dec_string.induct)
  case (1 n)
  then show ?case
    by (cases "n < 10") (auto simp: dec_string.simps [of n] char_digit_digit_char)
qed

lemma dec_string_append_inj:
  assumes "dec_string m @ c # xs = dec_string n @ c # ys" and "char_digit c = None"
  shows "m = n"
proof -
  have "takeWhile (\<lambda>c. char_digit c \<noteq> None) (dec_string k @ c # zs) = dec_string k" for k zs
    using assms(2) dec_string_digits by (subst takeWhile_append2) auto
  from this [of m xs] this [of n ys] assms(1) show ?thesis by simp
qed

lemma snapshot_filename_inj: "snapshot_filename r s l = snapshot_filename r s' l' \<Longrightarrow> s = s'"
  unfolding snapshot_filename_def by (auto dest!: dec_string_append_inj simp: char_digit_def word_unat_eq_iff)

lemma timestamp_link_inj: "timestamp_link t = timestamp_link t' \<longleftrightarrow> t = t'"
  by (simp add: timestamp_link_def word_unat_eq_iff)

lemma snapshot_filename_neq:
  "snapshot_filename r s l \<noteq> ''v2''" "snapshot_filename r s l \<noteq> dummy_filename"
  by (simp_all add: snapshot_filename_def dummy_filename_def)

lemma timestamp_link_neq: "timestamp_link t \<noteq> ''v2''" "timestamp_link t \<noteq> ''update_time.txt''"
proof -
  have "char_digit (hd (timestamp_link t)) \<noteq> None"
    using dec_string_hd_digit [of "unat t"] by (simp add: timestamp_link_def dec_string_nonempty)
  then show "timestamp_link t \<noteq> ''v2''" "timestamp_link t \<noteq> ''update_time.txt''"
    by (auto simp: char_digit_def)
qed

section \<open>The pending directories\<close>

text \<open>Every node stands in a directory.\<close>

definition fs_tree :: "file_system \<Rightarrow> bool" where
  "fs_tree fs \<longleftrightarrow> (\<forall>p. butlast p \<noteq> [] \<longrightarrow> fs_get fs p \<noteq> None \<longrightarrow> fs_get fs (butlast p) = Some Dir)"

lemma fs_tree_below:
  assumes "fs_tree fs" and "fs_get fs p = None" and "p \<noteq> []" and "prefix p q"
  shows "fs_get fs q = None"
proof -
  from assms(4) obtain r where q: "q = p @ r" by (auto simp: prefix_def)
  have "fs_get fs (p @ r) = None"
  proof (induction r rule: rev_induct)
    case (snoc x r)
    have "fs_get fs (p @ r @ [x]) = None"
    proof (rule ccontr)
      assume "fs_get fs (p @ r @ [x]) \<noteq> None"
      then have "fs_get fs (butlast (p @ r @ [x])) = Some Dir"
        using assms(1,3) unfolding fs_tree_def by (metis append_is_Nil_conv butlast_append butlast_snoc append_assoc)
      then show False using snoc by (simp add: butlast_append)
    qed
    then show ?case by simp
  qed (simp add: assms(2))
  then show ?thesis by (simp add: q)
qed

text \<open>The cache directory is usable: its path and the four names in it are free or directories.\<close>

definition cache_ok :: "path \<Rightarrow> file_system \<Rightarrow> bool" where
  "cache_ok cache fs \<longleftrightarrow> fs_inv fs \<and> fs_tree fs \<and> cache \<noteq> [] \<and>
     (\<forall>q. prefix q cache \<and> q \<noteq> [] \<longrightarrow> fs_get fs q \<in> {None, Some Dir}) \<and>
     (\<forall>d \<in> {pending_snapshot_directory cache, pending_symlink_directory cache, finalized_snapshot_directory cache,
        finalized_symlink_directory cache}. fs_get fs d \<in> {None, Some Dir})"

lemma remove_if_present_ok:
  assumes "fs_inv fs" and "fs_get fs p \<in> {None, Some Dir}" and "fs_get fs p = None \<Longrightarrow> \<forall>q. prefix p q \<longrightarrow> fs_get fs q = None"
  shows "\<exists>fs'. remove_if_present p fs = Inr fs' \<and> fs_inv fs' \<and> (\<forall>q. fs_get fs' q = (if prefix p q then None else fs_get fs q))"
proof (cases "fs_get fs p")
  case None
  then show ?thesis using assms by (auto simp: remove_if_present_def metadata_ok_def follow_def)
next
  case (Some n)
  then have "fs_get fs p = Some Dir" using assms(2) by auto
  then show ?thesis using remove_dir_all_ok [of fs p] assms(1)
    by (simp add: remove_if_present_def metadata_ok_def follow_def)
qed

text \<open>One pass of the loop: both directories are emptied, they and the directories above them exist.\<close>

lemma recreate_ok:
  fixes cache v :: path
  defines "a \<equiv> pending_snapshot_directory cache @ v" and "b \<equiv> pending_symlink_directory cache @ v"
  assumes "fs_inv fs" and "fs_get fs a \<in> {None, Some Dir}" "fs_get fs b \<in> {None, Some Dir}"
    and "fs_get fs a = None \<Longrightarrow> \<forall>q. prefix a q \<longrightarrow> fs_get fs q = None"
    and "fs_get fs b = None \<Longrightarrow> \<forall>q. prefix b q \<longrightarrow> fs_get fs q = None"
    and above: "\<And>q. prefix q a \<or> prefix q b \<Longrightarrow> q \<noteq> [] \<Longrightarrow> fs_get fs q \<in> {None, Some Dir}"
  shows "\<exists>fs'. recreate_pending cache (v, up) fs = Inr fs' \<and> fs_inv fs' \<and>
    (\<forall>q. fs_get fs' q = (if q \<noteq> [] \<and> (prefix q a \<or> prefix q b) then Some Dir
      else if prefix a q \<or> prefix b q then None else fs_get fs q))"
proof -
  have apart: "\<not> prefix a b" "\<not> prefix b a"
    by (auto simp: a_def b_def pending_snapshot_directory_def pending_symlink_directory_def)
  from remove_if_present_ok [OF assms(3,4,6)] obtain fs1 where
    1: "remove_if_present a fs = Inr fs1" "fs_inv fs1" "\<And>q. fs_get fs1 q = (if prefix a q then None else fs_get fs q)" by blast
  have b1: "fs_get fs1 b \<in> {None, Some Dir}" using assms(5) apart by (simp add: 1(3))
  have b2: "fs_get fs1 b = None \<Longrightarrow> \<forall>q. prefix b q \<longrightarrow> fs_get fs1 q = None"
    using assms(7) apart by (auto simp: 1(3))
  from remove_if_present_ok [OF 1(2) b1 b2] obtain fs2 where
    2: "remove_if_present b fs1 = Inr fs2" "fs_inv fs2" "\<And>q. fs_get fs2 q = (if prefix b q then None else fs_get fs1 q)"
    by blast
  have g2: "fs_get fs2 q \<in> {None, Some Dir}" if "prefix q a \<or> prefix q b" "q \<noteq> []" for q
    using above [OF that] by (auto simp: 2(3) 1(3))
  from create_dir_all_ok [OF 2(2), of a] g2 obtain fs3 where
    3: "create_dir_all a fs2 = Inr fs3" "fs_inv fs3" "\<And>q. fs_get fs3 q = (if prefix q a \<and> q \<noteq> [] then Some Dir else fs_get fs2 q)"
    by blast
  have "fs_get fs3 q \<in> {None, Some Dir}" if "prefix q b" "q \<noteq> []" for q
    using g2 [of q] that by (auto simp: 3(3))
  from create_dir_all_ok [OF 3(2) this] obtain fs4 where
    4: "create_dir_all b fs3 = Inr fs4" "fs_inv fs4" "\<And>q. fs_get fs4 q = (if prefix q b \<and> q \<noteq> [] then Some Dir else fs_get fs3 q)"
    by blast
  have "recreate_pending cache (v, up) fs = Inr fs4"
    using 1(1) 2(1) 3(1) 4(1) by (simp add: recreate_pending_def a_def b_def Let_def)
  moreover have "fs_get fs4 q = (if q \<noteq> [] \<and> (prefix q a \<or> prefix q b) then Some Dir
      else if prefix a q \<or> prefix b q then None else fs_get fs q)" for q
    by (simp add: 4(3) 3(3) 2(3) 1(3))
  ultimately show ?thesis using 4(2) by blast
qed

abbreviation pending_base :: "path \<Rightarrow> path set" where
  "pending_base cache \<equiv> {pending_snapshot_directory cache, pending_symlink_directory cache}"

definition pending_dirs :: "path \<Rightarrow> path set" where
  "pending_dirs cache = {q. prefix q cache \<and> q \<noteq> []} \<union> pending_base cache \<union> (\<lambda>p. p @ [''v2'']) ` pending_base cache"

lemma pending_recreated:
  assumes ok: "cache_ok cache fs"
  shows "\<exists>fs'. fold_res (recreate_pending cache) suffixes fs = Inr fs' \<and> fs_inv fs' \<and>
    (\<forall>q. fs_get fs' q = (if q \<in> pending_dirs cache then Some Dir
      else if \<exists>p \<in> pending_base cache. prefix p q then None else fs_get fs q))"
proof -
  let ?a = "pending_snapshot_directory cache" and ?b = "pending_symlink_directory cache"
  have tree: "fs_inv fs" "fs_tree fs" "cache \<noteq> []" using ok by (simp_all add: cache_ok_def)
  have dirs: "fs_get fs ?a \<in> {None, Some Dir}" "fs_get fs ?b \<in> {None, Some Dir}"
    using ok by (simp_all add: cache_ok_def)
  have "?a \<noteq> []" "?b \<noteq> []" by (simp_all add: pending_snapshot_directory_def pending_symlink_directory_def)
  note below = fs_tree_below [OF tree(2) _ this(1)] fs_tree_below [OF tree(2) _ this(2)]
  have pre: "prefix q (?a @ v) \<longleftrightarrow> prefix q cache \<or> (\<exists>w. prefix w v \<and> q = ?a @ w)"
    "prefix q (?b @ v) \<longleftrightarrow> prefix q cache \<or> (\<exists>w. prefix w v \<and> q = ?b @ w)" for q v
    by (auto simp: pending_snapshot_directory_def pending_symlink_directory_def prefix_append prefix_Cons)
  have above: "fs_get fs q \<in> {None, Some Dir}" if "prefix q (?a @ []) \<or> prefix q (?b @ [])" "q \<noteq> []" for q
    using that ok dirs unfolding pre by (auto simp: cache_ok_def)
  have free: "fs_get fs (?a @ []) = None \<Longrightarrow> \<forall>q. prefix (?a @ []) q \<longrightarrow> fs_get fs q = None"
    "fs_get fs (?b @ []) = None \<Longrightarrow> \<forall>q. prefix (?b @ []) q \<longrightarrow> fs_get fs q = None" by (auto simp only: append_Nil2 intro: below)
  have dirs': "fs_get fs (?a @ []) \<in> {None, Some Dir}" "fs_get fs (?b @ []) \<in> {None, Some Dir}" using dirs by simp_all
  from recreate_ok [OF tree(1) dirs' free above, of "[]"] obtain fs1 where
    r1: "recreate_pending cache ([], []) fs = Inr fs1" "fs_inv fs1"
      "\<And>q. fs_get fs1 q = (if q \<noteq> [] \<and> (prefix q (?a @ []) \<or> prefix q (?b @ [])) then Some Dir
      else if prefix ?a q \<or> prefix ?b q then None else fs_get fs q)" by (simp only: append_Nil2) blast
  have none: "fs_get fs1 (?a @ x # w) = None" "fs_get fs1 (?b @ x # w) = None" for x w
    by (auto simp: r1(3) prefix_def pending_snapshot_directory_def pending_symlink_directory_def)
  have above1: "fs_get fs1 q \<in> {None, Some Dir}" if "prefix q (?a @ [''v2'']) \<or> prefix q (?b @ [''v2''])" "q \<noteq> []" for q
  proof -
    from that(1) consider "prefix q cache" | w where "prefix w [''v2'']" "q = ?a @ w" | w where "prefix w [''v2'']" "q = ?b @ w"
      unfolding pre by blast
    then show ?thesis
    proof cases
      case 1
      then have "prefix q (?a @ [])" unfolding pre by simp
      then show ?thesis using that(2) unfolding r1(3) by simp
    qed (use none in \<open>auto simp: prefix_Cons r1(3)\<close>)
  qed
  have free1: "fs_get fs1 (?a @ [''v2'']) \<in> {None, Some Dir}" "fs_get fs1 (?b @ [''v2'']) \<in> {None, Some Dir}"
    "fs_get fs1 (?a @ [''v2'']) = None \<Longrightarrow> \<forall>q. prefix (?a @ [''v2'']) q \<longrightarrow> fs_get fs1 q = None"
    "fs_get fs1 (?b @ [''v2'']) = None \<Longrightarrow> \<forall>q. prefix (?b @ [''v2'']) q \<longrightarrow> fs_get fs1 q = None"
    using none by (auto simp: prefix_def)
  from recreate_ok [OF r1(2) free1 above1, of "[''..'']"] obtain fs2 where
    2: "recreate_pending cache ([''v2''], [''..'']) fs1 = Inr fs2" "fs_inv fs2"
      "\<And>q. fs_get fs2 q = (if q \<noteq> [] \<and> (prefix q (?a @ [''v2'']) \<or> prefix q (?b @ [''v2''])) then Some Dir
      else if prefix (?a @ [''v2'']) q \<or> prefix (?b @ [''v2'']) q then None else fs_get fs1 q)"
    by blast
  have "fs_get fs2 q = (if q \<in> pending_dirs cache then Some Dir
      else if \<exists>p \<in> pending_base cache. prefix p q then None else fs_get fs q)" for q
  proof -
    have "q \<in> pending_dirs cache \<longleftrightarrow> q \<noteq> [] \<and> (prefix q (?a @ [''v2'']) \<or> prefix q (?b @ [''v2'']))"
      unfolding pre pending_dirs_def
      by (auto simp: prefix_Cons pending_snapshot_directory_def pending_symlink_directory_def)
    moreover have "prefix ?a q" if "prefix (?a @ [''v2'']) q" using that append_prefixD by blast
    moreover have "prefix ?b q" if "prefix (?b @ [''v2'']) q" using that append_prefixD by blast
    moreover have "prefix q (?a @ []) \<or> prefix q (?b @ []) \<Longrightarrow> prefix q (?a @ [''v2'']) \<or> prefix q (?b @ [''v2''])"
      by (auto simp: prefix_append)
    ultimately show ?thesis unfolding 2(3) r1(3) by auto
  qed
  with r1(1) 2(1,2) show ?thesis by (simp add: suffixes_def)
qed

section \<open>Writing the snapshots\<close>

definition scope_delta :: "snapshot_env \<Rightarrow> u64 \<Rightarrow> u64 \<Rightarrow> network_graph \<Rightarrow> (serialization_set \<times> network_graph) res" where
  "scope_delta S reference scope g =
     calculate_delta (se_env S) (se_genesis S) (se_orders S scope) (se_lookup S scope) (se_prune S)
       (se_clock S scope) (se_clock S scope) (se_clock S scope) (se_database S scope) g
       (ucast (saturating_sub reference scope)) (Some reference)"

text \<open>The delta of a scope and both serializations of it can be computed from a graph.\<close>

definition scope_ready :: "snapshot_env \<Rightarrow> u64 \<Rightarrow> network_graph \<Rightarrow> u64 \<Rightarrow> bool" where
  "scope_ready S reference g scope \<longleftrightarrow> (\<exists>delta. scope_delta S reference scope g = Inr (delta, se_prune S g) \<and>
     (\<forall>v \<in> {1, 2}. no_panic (serialize_delta (se_wire S) (se_env S) (se_orders S scope) delta v)))"

text \<open>The bytes are the serialization, in a version, of the delta of a scope from some graph.\<close>

definition snapshot_bytes :: "snapshot_env \<Rightarrow> u64 \<Rightarrow> network_graph set \<Rightarrow> u64 \<Rightarrow> u8 \<Rightarrow> bytes \<Rightarrow> bool" where
  "snapshot_bytes S reference graphs scope v d \<longleftrightarrow> (\<exists>g \<in> graphs. \<exists>delta g' resp. scope_delta S reference scope g = Inr (delta, g') \<and>
     serialize_delta (se_wire S) (se_env S) (se_orders S scope) delta v = Inr resp \<and> d = sr_data resp)"

definition scope_file :: "u64 \<Rightarrow> u64 \<Rightarrow> string" where
  "scope_file reference scope = snapshot_filename reference scope (saturating_sub reference scope)"

lemma scope_file_inj: "scope_file reference s = scope_file reference s' \<longleftrightarrow> s = s'"
  by (auto simp: scope_file_def dest: snapshot_filename_inj)

lemma scope_file_neq: "scope_file reference s \<noteq> ''v2''" "scope_file reference s \<noteq> dummy_filename"
  by (simp_all add: scope_file_def snapshot_filename_neq)

definition version_dir :: "u8 \<Rightarrow> path" where
  "version_dir v = (if v = 1 then [] else [''v2''])"

abbreviation scope_path :: "path \<Rightarrow> u64 \<Rightarrow> u64 \<Rightarrow> u8 \<Rightarrow> path" where
  "scope_path cache reference s v \<equiv> pending_snapshot_directory cache @ version_dir v @ [scope_file reference s]"

definition writable :: "file_system \<Rightarrow> path \<Rightarrow> bool" where
  "writable fs p \<longleftrightarrow> (\<forall>n. fs_get fs p = Some n \<longrightarrow> (\<exists>d. n = File d))"

lemma capture_step_ok:
  assumes ready: "scope_ready S reference g s" and inv: "fs_inv fs"
    and dirs: "\<And>v. v \<in> {1, 2} \<Longrightarrow> fs_get fs (pending_snapshot_directory cache @ version_dir v) = Some Dir"
    and free: "\<And>v. v \<in> {1, 2} \<Longrightarrow> writable fs (scope_path cache reference s v)"
  shows "\<exists>fs' d1 d2. capture_snapshot S reference cache (s, saturating_sub reference s) (fs, g, names) =
      Inr (fs', se_prune S g, hm_insert s (scope_file reference s) names) \<and> fs_inv fs' \<and>
    fs_get fs' = (fs_get fs)(scope_path cache reference s 1 \<mapsto> File d1, scope_path cache reference s 2 \<mapsto> File d2) \<and>
    snapshot_bytes S reference {g} s 1 d1 \<and> snapshot_bytes S reference {g} s 2 d2"
proof -
  from ready obtain delta r1 r2 where d: "scope_delta S reference s g = Inr (delta, se_prune S g)"
    "serialize_delta (se_wire S) (se_env S) (se_orders S s) delta 1 = Inr r1"
    "serialize_delta (se_wire S) (se_env S) (se_orders S s) delta 2 = Inr r2"
    by (auto simp: scope_ready_def no_panic_iff)
  let ?p1 = "scope_path cache reference s 1" and ?p2 = "scope_path cache reference s 2"
  have b: "butlast ?p1 = pending_snapshot_directory cache @ version_dir 1" "butlast ?p2 = pending_snapshot_directory cache @ version_dir 2"
    by (simp_all add: butlast_append)
  have f: "fs_get fs p = None \<or> (\<exists>d'. fs_get fs p = Some (File d'))" if "writable fs p" for p
    using that by (cases "fs_get fs p") (auto simp: writable_def)
  from write_file_ok [OF inv, of ?p1 "sr_data r1"] dirs [of 1] f [OF free, of 1] obtain fs1 where
    1: "write_file ?p1 (sr_data r1) fs = Inr fs1" "fs_inv fs1" "fs_get fs1 = (fs_get fs)(?p1 \<mapsto> File (sr_data r1))"
    unfolding b by auto
  have "fs_get fs1 (butlast ?p2) = Some Dir"
    using dirs [of 2] scope_file_neq(1) [of reference s] unfolding b by (auto simp: 1(3) version_dir_def)
  moreover have "?p1 \<noteq> ?p2" by (simp add: version_dir_def)
  then have "fs_get fs1 ?p2 = None \<or> (\<exists>d'. fs_get fs1 ?p2 = Some (File d'))" using f [OF free, of 2] by (simp add: 1(3))
  ultimately obtain fs2 where
    2: "write_file ?p2 (sr_data r2) fs1 = Inr fs2" "fs_inv fs2" "fs_get fs2 = (fs_get fs1)(?p2 \<mapsto> File (sr_data r2))"
    using write_file_ok [OF 1(2), of ?p2 "sr_data r2"] by blast
  have "capture_snapshot S reference cache (s, saturating_sub reference s) (fs, g, names) =
      Inr (fs2, se_prune S g, hm_insert s (scope_file reference s) names)"
    using d 1(1) 2(1)
    by (simp add: capture_snapshot_def Let_def scope_delta_def [symmetric] scope_file_def [symmetric] version_dir_def)
  moreover have "snapshot_bytes S reference {g} s 1 (sr_data r1)" "snapshot_bytes S reference {g} s 2 (sr_data r2)"
    using d by (auto simp: snapshot_bytes_def)
  ultimately show ?thesis using 1(3) 2(2,3) by auto
qed

lemma snapshot_bytes_mono: "snapshot_bytes S reference graphs s v d \<Longrightarrow> graphs \<subseteq> graphs' \<Longrightarrow> snapshot_bytes S reference graphs' s v d"
  by (auto simp: snapshot_bytes_def)

lemma capture_loop_ok:
  assumes "\<And>g s. g \<in> graphs \<Longrightarrow> s \<in> set ss \<Longrightarrow> scope_ready S reference g s" and "\<And>g. g \<in> graphs \<Longrightarrow> se_prune S g \<in> graphs"
    and "g \<in> graphs" and "fs_inv fs" and "distinct ss"
    and "\<And>v. v \<in> {1, 2} \<Longrightarrow> fs_get fs (pending_snapshot_directory cache @ version_dir v) = Some Dir"
    and "\<And>s v. s \<in> set ss \<Longrightarrow> v \<in> {1, 2} \<Longrightarrow> writable fs (scope_path cache reference s v)"
  shows "\<exists>fs' g' names'. fold_res (capture_snapshot S reference cache) (snapshot_sync_timestamps reference ss) (fs, g, names) =
      Inr (fs', g', names') \<and> g' \<in> graphs \<and> fs_inv fs' \<and>
    (\<forall>s. hm_get names' s = (if s \<in> set ss then Some (scope_file reference s) else hm_get names s)) \<and>
    (\<forall>s \<in> set ss. \<forall>v \<in> {1, 2}. \<exists>d. fs_get fs' (scope_path cache reference s v) = Some (File d) \<and> snapshot_bytes S reference graphs s v d) \<and>
    (\<forall>q. (\<forall>s \<in> set ss. \<forall>v \<in> {1, 2}. q \<noteq> scope_path cache reference s v) \<longrightarrow> fs_get fs' q = fs_get fs q)"
  using assms
proof (induction ss arbitrary: fs g names)
  case Nil
  then show ?case by (auto simp: snapshot_sync_timestamps_def)
next
  case (Cons s ss)
  have "s \<in> set (s # ss)" by simp
  from capture_step_ok [OF Cons.prems(1) [OF Cons.prems(3) this] Cons.prems(4) Cons.prems(6) Cons.prems(7) [OF this], of names]
  obtain fs1 d1 d2 where 1: "capture_snapshot S reference cache (s, saturating_sub reference s) (fs, g, names) =
      Inr (fs1, se_prune S g, hm_insert s (scope_file reference s) names)" "fs_inv fs1"
    "fs_get fs1 = (fs_get fs)(scope_path cache reference s 1 \<mapsto> File d1, scope_path cache reference s 2 \<mapsto> File d2)"
    "snapshot_bytes S reference {g} s 1 d1" "snapshot_bytes S reference {g} s 2 d2" by blast
  have dirs1: "fs_get fs1 (pending_snapshot_directory cache @ version_dir v) = Some Dir" if "v \<in> {1, 2}" for v
    using Cons.prems(6) [OF that] scope_file_neq(1) [of reference s] by (auto simp: 1(3) version_dir_def)
  have free1: "writable fs1 (scope_path cache reference s' v)" if "s' \<in> set ss" "v \<in> {1, 2}" for s' v
    using Cons.prems(7) [of s' v] that by (auto simp: writable_def 1(3))
  have ready1: "scope_ready S reference g' s'" if "g' \<in> graphs" "s' \<in> set ss" for g' s'
    using Cons.prems(1) that by simp
  have "distinct ss" using Cons.prems(5) by simp
  from Cons.IH [OF ready1 Cons.prems(2) Cons.prems(2) [OF Cons.prems(3)] 1(2) this dirs1 free1, of "hm_insert s (scope_file reference s) names"]
  obtain fs' g' names' where
    2: "fold_res (capture_snapshot S reference cache) (snapshot_sync_timestamps reference ss)
        (fs1, se_prune S g, hm_insert s (scope_file reference s) names) = Inr (fs', g', names')" "g' \<in> graphs" "fs_inv fs'"
      "\<And>s'. hm_get names' s' = (if s' \<in> set ss then Some (scope_file reference s')
        else hm_get (hm_insert s (scope_file reference s) names) s')"
      "\<And>s' v. s' \<in> set ss \<Longrightarrow> v \<in> {1, 2} \<Longrightarrow> \<exists>d. fs_get fs' (scope_path cache reference s' v) = Some (File d) \<and> snapshot_bytes S reference graphs s' v d"
      "\<And>q. (\<forall>s \<in> set ss. \<forall>v \<in> {1, 2}. q \<noteq> scope_path cache reference s v) \<Longrightarrow> fs_get fs' q = fs_get fs1 q"
    by blast
  have apart: "scope_path cache reference s v \<noteq> scope_path cache reference s' v'" if "s' \<in> set ss" for v v' s'
    using that Cons.prems(5) by (auto simp: version_dir_def scope_file_inj)
  have kept: "fs_get fs' (scope_path cache reference s v) = fs_get fs1 (scope_path cache reference s v)" for v
    by (rule 2(6)) (use apart in blast)
  have new: "\<exists>d. fs_get fs' (scope_path cache reference s v) = Some (File d) \<and> snapshot_bytes S reference graphs s v d" if "v \<in> {1, 2}" for v
  proof -
    have "{g} \<subseteq> graphs" using Cons.prems(3) by simp
    note b = snapshot_bytes_mono [OF 1(4) this] snapshot_bytes_mono [OF 1(5) this]
    from that b show ?thesis unfolding kept by (auto simp: 1(3) version_dir_def)
  qed
  show ?case
  proof (intro exI conjI)
    show "fold_res (capture_snapshot S reference cache) (snapshot_sync_timestamps reference (s # ss)) (fs, g, names) = Inr (fs', g', names')"
      using 1(1) 2(1) by (simp add: snapshot_sync_timestamps_def)
    show "\<forall>s'. hm_get names' s' = (if s' \<in> set (s # ss) then Some (scope_file reference s') else hm_get names s')"
      by (auto simp: 2(4) hm_get_insert)
    show "\<forall>s' \<in> set (s # ss). \<forall>v \<in> {1, 2}. \<exists>d. fs_get fs' (scope_path cache reference s' v) = Some (File d) \<and>
        snapshot_bytes S reference graphs s' v d"
      using new 2(5) by auto
    show "\<forall>q. (\<forall>s \<in> set (s # ss). \<forall>v \<in> {1, 2}. q \<noteq> scope_path cache reference s v) \<longrightarrow> fs_get fs' q = fs_get fs q"
      using 2(6) by (auto simp: 1(3))
  qed (use 2(2,3) in simp_all)
qed

end
