(* ===== verification/Snapshot_Links.thy ===== *)
theory Snapshot_Links
  imports Snapshot_Rounds
begin

text \<open>
The later phases of a round of src/snapshot.rs: the empty delta with its link, one link per timestamp
  and version, the timestamps of a round, and the renaming of the pending directories.
\<close>

section \<open>The dummy\<close>

lemma serialize_empty_blob_ok: "config_network e = Inr net \<Longrightarrow> \<exists>b. serialize_empty_blob W e genesis t v = Inr b"
  by (simp add: serialize_empty_blob_def round_down_to_nearest_multiple_def SYMLINK_GRANULARITY_INTERVAL_def Let_def)

lemma version_path_neq [simp]: "p @ version_dir 1 @ [x] \<noteq> p @ version_dir 2 @ [y]"
  by (simp add: version_dir_def)

lemma create_dummy_ok:
  fixes cache :: path
  defines "P \<equiv> pending_snapshot_directory cache" and "L \<equiv> pending_symlink_directory cache"
  assumes net: "config_network (se_env S) = Inr net" and inv: "fs_inv fs"
    and dirs: "\<And>v. v \<in> {1, 2} \<Longrightarrow> fs_get fs (P @ version_dir v) = Some Dir" "fs_get fs L = Some Dir"
    and free: "\<And>v. v \<in> {1, 2} \<Longrightarrow> fs_get fs (P @ version_dir v @ [dummy_filename]) = None"
      "fs_get fs (L @ [timestamp_link r]) = None"
  shows "\<exists>fs' b1 b2. create_dummy S r cache fs = Inr fs' \<and> fs_inv fs' \<and>
    serialize_empty_blob (se_wire S) (se_env S) (se_genesis S) r 1 = Inr b1 \<and>
    serialize_empty_blob (se_wire S) (se_env S) (se_genesis S) r 2 = Inr b2 \<and>
    fs_get fs' = (fs_get fs)(P @ version_dir 1 @ [dummy_filename] \<mapsto> File b1, P @ version_dir 2 @ [dummy_filename] \<mapsto> File b2,
      L @ [timestamp_link r] \<mapsto> Symlink [''..'', ''snapshots'', dummy_filename])"
proof -
  let ?p1 = "P @ version_dir 1 @ [dummy_filename]" and ?p2 = "P @ version_dir 2 @ [dummy_filename]" and ?l = "L @ [timestamp_link r]"
  from serialize_empty_blob_ok [OF net] obtain b1 b2 where
    b: "serialize_empty_blob (se_wire S) (se_env S) (se_genesis S) r 1 = Inr b1"
      "serialize_empty_blob (se_wire S) (se_env S) (se_genesis S) r 2 = Inr b2" by meson
  from files.put_ok [OF inv, of ?p1 b1] dirs(1) [of 1] free(1) [of 1] obtain fs1 where
    1: "write_file ?p1 b1 fs = Inr fs1" "fs_inv fs1" "fs_get fs1 = (fs_get fs)(?p1 \<mapsto> File b1)" by (auto simp: butlast_append)
  have "fs_get fs1 (butlast ?p2) = Some Dir"
    using dirs(1) [of 2] by (auto simp: 1(3) butlast_append version_dir_def dummy_filename_def)
  moreover have "fs_get fs1 ?p2 = None" using free(1) [of 2] by (simp add: 1(3) version_dir_def)
  ultimately obtain fs2 where
    2: "write_file ?p2 b2 fs1 = Inr fs2" "fs_inv fs2" "fs_get fs2 = (fs_get fs1)(?p2 \<mapsto> File b2)"
    using files.put_ok [OF 1(2), of ?p2 b2] by blast
  have neq: "?l \<noteq> ?p1" "?l \<noteq> ?p2" "L \<noteq> ?p1" "L \<noteq> ?p2"
    by (auto simp: P_def L_def pending_snapshot_directory_def pending_symlink_directory_def version_dir_def)
  then have "fs_get fs2 (butlast ?l) = Some Dir" "fs_get fs2 ?l = None"
    using dirs(2) free(2) by (simp_all add: 1(3) 2(3))
  from symlink_ok [OF 2(2) this] obtain fs3 where
    3: "symlink [''..'', ''snapshots'', dummy_filename] ?l fs2 = Inr fs3" "fs_inv fs3"
      "fs_get fs3 = (fs_get fs2)(?l \<mapsto> Symlink [''..'', ''snapshots'', dummy_filename])" by blast
  have "create_dummy S r cache fs = Inr fs3"
    using 1(1) 2(1) 3(1) b
    by (simp add: create_dummy_def relative_symlink_to_snapshot_path_def version_dir_def P_def L_def)
  with b 3(2) show ?thesis by (auto simp: 1(3) 2(3) 3(3))
qed

section \<open>The links\<close>

text \<open>The names and targets of the links for one timestamp.\<close>

definition served_scope :: "u64 list \<Rightarrow> u64 \<Rightarrow> u64 \<Rightarrow> u64" where
  "served_scope scopes g i = (case referenced_scope scopes g i of Inr s \<Rightarrow> s | Inl _ \<Rightarrow> 0)"

definition link_target_of :: "u64 \<Rightarrow> u64 \<Rightarrow> u8 \<Rightarrow> path" where
  "link_target_of r s v = (if v = 1 then [] else [''..'']) @ [''..'', ''snapshots''] @ version_dir v @ [scope_file r s]"

definition link_entries :: "path \<Rightarrow> u64 \<Rightarrow> u64 \<Rightarrow> u64 list \<Rightarrow> u64 \<Rightarrow> (path \<times> path) list" where
  "link_entries cache r g scopes i = map (\<lambda>v.
     (pending_symlink_directory cache @ version_dir v @ [timestamp_link (canonical_last_sync_timestamp r g i)],
      link_target_of r (served_scope scopes g i) v)) [1, 2]"

lemma link_step_entries:
  assumes "- 1 \<in> set scopes" and "\<And>s. s \<in> set scopes \<Longrightarrow> hm_get names s = Some (scope_file r s)"
  shows "link_step r g scopes cache names i fs = fold_res (\<lambda>(p, t). symlink t p) (link_entries cache r g scopes i) fs"
proof -
  from referenced_scope_ok [OF assms(1), of g i] obtain s where s: "referenced_scope scopes g i = Inr s" "s \<in> set scopes" by blast
  then show ?thesis
    by (simp add: link_step_def suffixes_def link_version_def assms(2) link_entries_def served_scope_def link_target_of_def
        version_dir_def relative_symlink_to_snapshot_path_def bind_res_def split: sum.split)
qed

lemma fold_res_concat: "(\<And>x s. x \<in> set xs \<Longrightarrow> f x s = fold_res h (e x) s) \<Longrightarrow> fold_res f xs s = fold_res h (concat (map e xs)) s"
proof (induction xs arbitrary: s)
  case (Cons x xs)
  then have "fold_res f xs = fold_res h (concat (map e xs))" by (intro ext) simp
  with Cons.prems [of x s] show ?case by (simp add: fold_res_append)
qed simp

lemma links_distinct:
  assumes "distinct is" and "inj_on T (set is)"
  shows "distinct (map fst (concat (map (\<lambda>i. map (\<lambda>v. (L @ version_dir v @ [timestamp_link (T i)], tg i v)) [1, 2]) is)))"
  using assms
proof (induction "is")
  case (Cons i "is")
  have "T i \<noteq> T j" if "j \<in> set is" for j using Cons.prems that by (auto dest: inj_onD)
  then have "\<forall>j \<in> set is. timestamp_link (T i) \<noteq> timestamp_link (T j)" by (simp add: timestamp_link_inj)
  moreover have "\<forall>j \<in> set is. timestamp_link (T j) \<noteq> ''v2''" "timestamp_link (T i) \<noteq> ''v2''" using timestamp_link_neq by simp_all
  ultimately show ?case using Cons by (auto simp: version_dir_def)
qed simp

lemma links_ok:
  fixes cache :: path
  defines "L \<equiv> pending_symlink_directory cache"
  assumes scopes: "- 1 \<in> set scopes" "\<And>s. s \<in> set scopes \<Longrightarrow> hm_get names s = Some (scope_file r s)"
    and inv: "fs_inv fs" and "distinct is" and inj: "inj_on (canonical_last_sync_timestamp r g) (set is)"
    and dirs: "\<And>v. v \<in> {1, 2} \<Longrightarrow> fs_get fs (L @ version_dir v) = Some Dir"
    and free: "\<And>v i. v \<in> {1, 2} \<Longrightarrow> i \<in> set is \<Longrightarrow> fs_get fs (L @ version_dir v @ [timestamp_link (canonical_last_sync_timestamp r g i)]) = None"
  shows "\<exists>fs'. fold_res (link_step r g scopes cache names) is fs = Inr fs' \<and> fs_inv fs' \<and>
    (\<forall>i \<in> set is. \<forall>v \<in> {1, 2}. fs_get fs' (L @ version_dir v @ [timestamp_link (canonical_last_sync_timestamp r g i)]) =
       Some (Symlink (link_target_of r (served_scope scopes g i) v))) \<and>
    (\<forall>q. (\<forall>i \<in> set is. \<forall>v \<in> {1, 2}. q \<noteq> L @ version_dir v @ [timestamp_link (canonical_last_sync_timestamp r g i)]) \<longrightarrow>
       fs_get fs' q = fs_get fs q)"
proof -
  define es where "es = concat (map (link_entries cache r g scopes) is)"
  have fold: "fold_res (link_step r g scopes cache names) is fs = fold_res (\<lambda>(p, t). symlink t p) es fs"
    unfolding es_def by (rule fold_res_concat) (rule link_step_entries [OF scopes])
  have mem: "(p, t) \<in> set es \<longleftrightarrow> (\<exists>i \<in> set is. \<exists>v \<in> {1, 2}. p = L @ version_dir v @ [timestamp_link (canonical_last_sync_timestamp r g i)] \<and>
      t = link_target_of r (served_scope scopes g i) v)" for p t
    by (auto simp: es_def link_entries_def L_def)
  have dist: "distinct (map fst es)"
    unfolding es_def link_entries_def by (rule links_distinct [OF assms(5) inj])
  have entry: "fs_get fs (butlast p) = Some Dir \<and> fs_get fs p = None" if "(p, t) \<in> set es" for p t
  proof -
    from that obtain i v where "i \<in> set is" "v \<in> {1, 2}" "p = L @ version_dir v @ [timestamp_link (canonical_last_sync_timestamp r g i)]"
      unfolding mem by blast
    then show ?thesis using dirs free by (simp add: butlast_append)
  qed
  have "\<exists>fs'. fold_res (\<lambda>(p, t). symlink t p) es fs = Inr fs' \<and> fs_inv fs' \<and>
      (\<forall>q. fs_get fs' q = (case map_of es q of Some t \<Rightarrow> Some (Symlink t) | None \<Rightarrow> fs_get fs q))"
    by (rule links.put_all [OF inv dist]) (rule entry)
  then obtain fs' where
    fs': "fold_res (\<lambda>(p, t). symlink t p) es fs = Inr fs'" "fs_inv fs'"
      "\<And>q. fs_get fs' q = (case map_of es q of Some t \<Rightarrow> Some (Symlink t) | None \<Rightarrow> fs_get fs q)" by blast
  have "fs_get fs' p = Some (Symlink t)" if "(p, t) \<in> set es" for p t
    using that dist by (simp add: fs'(3) map_of_is_SomeI)
  moreover have "fs_get fs' q = fs_get fs q" if "\<And>t. (q, t) \<notin> set es" for q
  proof -
    have "map_of es q = None" using that map_of_SomeD [of es q] by (cases "map_of es q") auto
    then show ?thesis by (simp add: fs'(3))
  qed
  ultimately have old: "\<And>p t. (p, t) \<in> set es \<Longrightarrow> fs_get fs' p = Some (Symlink t)"
    "\<And>q. (\<And>t. (q, t) \<notin> set es) \<Longrightarrow> fs_get fs' q = fs_get fs q" by blast+
  show ?thesis
  proof (intro exI conjI ballI allI impI)
    show "fold_res (link_step r g scopes cache names) is fs = Inr fs'" unfolding fold by (rule fs'(1))
    show "fs_get fs' (L @ version_dir v @ [timestamp_link (canonical_last_sync_timestamp r g i)]) =
       Some (Symlink (link_target_of r (served_scope scopes g i) v))" if "i \<in> set is" "v \<in> {1, 2}" for i v
      by (rule old(1)) (use that mem in blast)
    show "fs_get fs' q = fs_get fs q"
      if "\<forall>i \<in> set is. \<forall>v \<in> {1, 2}. q \<noteq> L @ version_dir v @ [timestamp_link (canonical_last_sync_timestamp r g i)]" for q
      by (rule old(2)) (use that mem in blast)
  qed (rule fs'(2))
qed

section \<open>The timestamps of a round\<close>

lemma canonical_times:
  assumes g: "0 < g" and r: "1640995200 \<le> r" and n: "n \<le> (unat r - 1640995200) div unat g" and i: "i < n"
  shows "unat (canonical_last_sync_timestamp r g (word_of_nat i)) = (if i = 0 then 0 else unat r - i * unat g)"
    and "i * unat g < unat r" and "unat (word_of_nat i :: u64) = i"
proof -
  have g': "0 < unat g" using g by (simp add: word_less_nat_alt)
  have "i * unat g < n * unat g" using i g' by simp
  also have "\<dots> \<le> unat r - 1640995200" using n g' by (metis div_times_less_eq_dividend mult_le_mono1 order_trans)
  finally have lt: "i * unat g < unat r - 1640995200" .
  then show ig: "i * unat g < unat r" by simp
  have "i \<le> i * unat g" using g' by simp
  have r64: "unat r < 2 ^ 64" using unsigned_less [of r, where ?'a = nat] by simp
  from \<open>i \<le> i * unat g\<close> ig r64 have small: "i < 2 ^ 64" by (meson le_less_trans order_less_trans)
  then show u: "unat (word_of_nat i :: u64) = i" by (simp add: unat_of_nat)
  have "unat g * i < 2 ^ LENGTH(64)" using ig r64 by (simp add: mult.commute)
  then have m: "saturating_mul g (word_of_nat i) = g * word_of_nat i" "unat (g * word_of_nat i) = unat g * i"
    by (simp_all add: saturating_mul_def u unat_mult_lem [THEN iffD1])
  have z: "(word_of_nat i :: u64) = 0 \<longleftrightarrow> i = 0" using unsigned_eq_0_iff [of "word_of_nat i :: u64", where ?'a = nat] unfolding u by blast
  show "unat (canonical_last_sync_timestamp r g (word_of_nat i)) = (if i = 0 then 0 else unat r - i * unat g)"
    using m ig by (simp add: canonical_last_sync_timestamp_def z unat_saturating_sub mult.commute)
qed

lemma nat_diff_inj: "(r :: nat) - a = r - b \<Longrightarrow> a < r \<Longrightarrow> b < r \<Longrightarrow> a = b"
  by simp

lemma canonical_inj:
  assumes "0 < g" and "1640995200 \<le> r" and "n \<le> (unat r - 1640995200) div unat g"
  shows "inj_on (canonical_last_sync_timestamp r g) (set (map word_of_nat [0 ..< n]))"
    and "i < n \<Longrightarrow> canonical_last_sync_timestamp r g (word_of_nat i) \<noteq> r"
    and "distinct (map word_of_nat [0 ..< n] :: u64 list)"
proof -
  note T = canonical_times [OF assms]
  have g': "0 < unat g" using assms(1) by (simp add: word_less_nat_alt)
  have r0: "0 < unat r" using assms(2) by (simp add: word_le_nat_alt)
  have "i = j" if "i < n" "j < n" and eq: "canonical_last_sync_timestamp r g (word_of_nat i) = canonical_last_sync_timestamp r g (word_of_nat j)" for i j
  proof -
    have "(if i = 0 then 0 else unat r - i * unat g) = (if j = 0 then 0 else unat r - j * unat g)"
      using T(1) [OF that(1)] T(1) [OF that(2)] eq by simp
    moreover note T(2) [OF that(1)] T(2) [OF that(2)]
    ultimately have "i * unat g = j * unat g"
      using nat_diff_inj [of "unat r" "i * unat g" "j * unat g"] by (cases "i = 0"; cases "j = 0") (simp_all del: mult_cancel2)
    with g' show ?thesis by simp
  qed
  then show "inj_on (canonical_last_sync_timestamp r g) (set (map word_of_nat [0 ..< n]))"
    by (intro inj_onI) (auto intro!: arg_cong [where f = word_of_nat])
  show "canonical_last_sync_timestamp r g (word_of_nat i) \<noteq> r" if "i < n"
  proof (cases "i = 0")
    case False
    then have "0 < i * unat g" using g' by simp
    then have "unat r - i * unat g \<noteq> unat r" using r0 by linarith
    then show ?thesis using T(1) [OF that] False by auto
  qed (use T(1) [OF that] r0 in auto)
  show "distinct (map word_of_nat [0 ..< n] :: u64 list)"
    unfolding distinct_map using T(3) by (auto intro!: inj_on_inverseI [of _ unat])
qed

section \<open>Finalizing\<close>

text \<open>The pending directories take the place of the finalized ones, whatever those held.\<close>

lemmas cache_names = pending_snapshot_directory_def pending_symlink_directory_def
  finalized_snapshot_directory_def finalized_symlink_directory_def

definition cache_dirs :: "path \<Rightarrow> path set" where
  "cache_dirs cache = {pending_snapshot_directory cache, pending_symlink_directory cache,
     finalized_snapshot_directory cache, finalized_symlink_directory cache}"

lemma cache_dirs_apart: "d \<in> cache_dirs cache \<Longrightarrow> d' \<in> cache_dirs cache \<Longrightarrow> prefix d (d' @ q) \<longleftrightarrow> d = d'"
  by (auto simp: cache_dirs_def cache_names)

lemma cache_dirs_distinct:
  "pending_snapshot_directory c \<noteq> pending_symlink_directory c" "pending_snapshot_directory c \<noteq> finalized_snapshot_directory c"
  "pending_snapshot_directory c \<noteq> finalized_symlink_directory c" "pending_symlink_directory c \<noteq> finalized_snapshot_directory c"
  "pending_symlink_directory c \<noteq> finalized_symlink_directory c" "finalized_snapshot_directory c \<noteq> finalized_symlink_directory c"
  by (simp_all add: cache_names)

lemma cache_dirs_members:
  "pending_snapshot_directory c \<in> cache_dirs c" "pending_symlink_directory c \<in> cache_dirs c"
  "finalized_snapshot_directory c \<in> cache_dirs c" "finalized_symlink_directory c \<in> cache_dirs c"
  by (simp_all add: cache_dirs_def)

lemma cache_not_below: "d \<in> cache_dirs cache \<Longrightarrow> \<not> prefix d cache"
  by (auto simp: cache_dirs_def cache_names prefix_def)

lemma butlast_finalized: "butlast (finalized_snapshot_directory c) = c" "butlast (finalized_symlink_directory c) = c"
  by (simp_all add: cache_names)

lemma update_time_apart:
  "pending_symlink_directory c @ [''update_time.txt''] \<noteq> finalized_snapshot_directory c @ q"
  "pending_symlink_directory c @ [''update_time.txt''] \<noteq> finalized_symlink_directory c @ q"
  "pending_symlink_directory c @ [''update_time.txt''] \<noteq> pending_snapshot_directory c @ q"
  "pending_symlink_directory c @ [''update_time.txt''] \<noteq> c"
  by (auto simp: cache_names)

lemmas cache_dir_rules = cache_dirs_apart [OF cache_dirs_members(1) cache_dirs_members(2)] cache_dirs_apart [OF cache_dirs_members(1) cache_dirs_members(3)]
  cache_dirs_apart [OF cache_dirs_members(1) cache_dirs_members(4)] cache_dirs_apart [OF cache_dirs_members(2) cache_dirs_members(1)]
  cache_dirs_apart [OF cache_dirs_members(2) cache_dirs_members(3)] cache_dirs_apart [OF cache_dirs_members(2) cache_dirs_members(4)]
  cache_dirs_apart [OF cache_dirs_members(3) cache_dirs_members(1)] cache_dirs_apart [OF cache_dirs_members(3) cache_dirs_members(2)]
  cache_dirs_apart [OF cache_dirs_members(3) cache_dirs_members(4)] cache_dirs_apart [OF cache_dirs_members(4) cache_dirs_members(1)]
  cache_dirs_apart [OF cache_dirs_members(4) cache_dirs_members(2)] cache_dirs_apart [OF cache_dirs_members(4) cache_dirs_members(3)]

lemmas cache_apart_simps = cache_dir_rules cache_dir_rules [where q = "[]", simplified] cache_dirs_distinct cache_dirs_distinct [symmetric]

text \<open>The first half: the time is written and the directories of the round before are removed.\<close>

lemma finalize_clears:
  fixes cache :: path
  defines "L \<equiv> pending_symlink_directory cache"
    and "A \<equiv> finalized_snapshot_directory cache" and "B \<equiv> finalized_symlink_directory cache"
  assumes inv: "fs_inv fs" and dir: "fs_get fs L = Some Dir" and free: "fs_get fs (L @ [''update_time.txt'']) = None"
    and old: "\<And>d. d \<in> {A, B} \<Longrightarrow> fs_get fs d \<in> {None, Some Dir}"
      "\<And>d q. d \<in> {A, B} \<Longrightarrow> fs_get fs d = None \<Longrightarrow> prefix d q \<Longrightarrow> fs_get fs q = None"
  shows "\<exists>fs1 fs2 fs3. write_file (L @ [''update_time.txt'']) data fs = Inr fs1 \<and> remove_if_present A fs1 = Inr fs2 \<and>
    remove_if_present B fs2 = Inr fs3 \<and> fs_inv fs3 \<and>
    (\<forall>q. fs_get fs3 q = (if prefix A q \<or> prefix B q then None else if q = L @ [''update_time.txt''] then Some (File data) else fs_get fs q))"
proof -
  let ?u = "L @ [''update_time.txt'']"
  from write_file_ok [OF inv, of ?u data] dir free obtain fs1 where
    1: "write_file ?u data fs = Inr fs1" "fs_inv fs1" "fs_get fs1 = (fs_get fs)(?u \<mapsto> File data)" by (auto simp: butlast_append)
  have "q \<noteq> ?u" if "prefix d q" "d \<in> {A, B}" for d q
    using that update_time_apart(1,2) [of cache] unfolding prefix_def A_def B_def L_def by blast
  then have g1: "fs_get fs1 q = fs_get fs q" if "prefix d q" "d \<in> {A, B}" for d q using that by (simp add: 1(3))
  have none: "\<forall>q. prefix d q \<longrightarrow> fs_get fs' q = None"
    if d: "d \<in> {A, B}" and same: "\<And>q. prefix d q \<Longrightarrow> fs_get fs' q = fs_get fs q" and free: "fs_get fs' d = None" for d fs'
  proof (intro allI impI)
    fix q assume q: "prefix d q"
    have "fs_get fs d = None" using same [of d] free by simp
    from old(2) [OF d this q] same [OF q] show "fs_get fs' q = None" by (rule back_subst [of "\<lambda>x. x = None", OF _ sym])
  qed
  have A: "A \<in> {A, B}" and B: "B \<in> {A, B}" by simp_all
  have "fs_get fs1 A \<in> {None, Some Dir}" unfolding g1 [OF prefix_order.refl A] by (rule old(1) [OF A])
  from remove_if_present_ok [OF 1(2) this none [OF A g1 [OF _ A]]] obtain fs2 where
    2: "remove_if_present A fs1 = Inr fs2" "fs_inv fs2" "\<And>q. fs_get fs2 q = (if prefix A q then None else fs_get fs1 q)" by blast
  have g2: "fs_get fs2 q = fs_get fs q" if "prefix B q" for q
  proof -
    have "\<not> prefix A q" using that by (elim prefixE) (simp add: A_def B_def cache_apart_simps)
    then show ?thesis using g1 [OF that B] by (simp add: 2(3))
  qed
  have "fs_get fs2 B \<in> {None, Some Dir}" unfolding g2 [OF prefix_order.refl] by (rule old(1) [OF B])
  from remove_if_present_ok [OF 2(2) this none [OF B g2]] obtain fs3 where
    3: "remove_if_present B fs2 = Inr fs3" "fs_inv fs3" "\<And>q. fs_get fs3 q = (if prefix B q then None else fs_get fs2 q)" by blast
  have "fs_get fs3 q = (if prefix A q \<or> prefix B q then None else if q = ?u then Some (File data) else fs_get fs q)" for q
    by (simp add: 3(3) 2(3) 1(3))
  with 1(1) 2(1) 3(1,2) show ?thesis by blast
qed

lemma finalize_ok:
  fixes cache :: path
  defines "P \<equiv> pending_snapshot_directory cache" and "L \<equiv> pending_symlink_directory cache"
    and "A \<equiv> finalized_snapshot_directory cache" and "B \<equiv> finalized_symlink_directory cache"
  assumes inv: "fs_inv fs" and dirs: "fs_get fs P = Some Dir" "fs_get fs L = Some Dir" "fs_get fs cache = Some Dir"
    and free: "fs_get fs (L @ [''update_time.txt'']) = None"
    and old: "\<And>d. d \<in> {A, B} \<Longrightarrow> fs_get fs d \<in> {None, Some Dir}"
      "\<And>d q. d \<in> {A, B} \<Longrightarrow> fs_get fs d = None \<Longrightarrow> prefix d q \<Longrightarrow> fs_get fs q = None"
  shows "\<exists>fs'. finalize cache t fs = Inr fs' \<and> fs_inv fs' \<and>
    (\<forall>q. fs_get fs' (A @ q) = fs_get fs (P @ q)) \<and>
    (\<forall>q. fs_get fs' (B @ q) = (if q = [''update_time.txt''] then Some (File (ascii (dec_string (unat t)))) else fs_get fs (L @ q))) \<and>
    (\<forall>q. fs_get fs' (P @ q) = None \<and> fs_get fs' (L @ q) = None) \<and>
    (\<forall>q. (\<forall>d \<in> {P, L, A, B}. \<not> prefix d q) \<longrightarrow> fs_get fs' q = fs_get fs q)"
proof -
  let ?u = "L @ [''update_time.txt'']" and ?d = "ascii (dec_string (unat t))"
  note ap = cache_apart_simps [of cache, folded P_def L_def A_def B_def]
    cache_dirs_members(1,3,4) [of cache, THEN cache_not_below, folded P_def A_def B_def]
    butlast_finalized [of cache, folded A_def B_def]
  note u = update_time_apart [of cache, folded P_def L_def A_def B_def]
  have "\<exists>fs1 fs2 fs3. write_file ?u ?d fs = Inr fs1 \<and> remove_if_present A fs1 = Inr fs2 \<and> remove_if_present B fs2 = Inr fs3 \<and> fs_inv fs3 \<and>
      (\<forall>q. fs_get fs3 q = (if prefix A q \<or> prefix B q then None else if q = ?u then Some (File ?d) else fs_get fs q))"
    unfolding L_def A_def B_def
    by (rule finalize_clears [OF inv dirs(2) [unfolded L_def] free [unfolded L_def]]) (fact old [unfolded A_def B_def])+
  then obtain fs1 fs2 fs3 where c: "write_file ?u ?d fs = Inr fs1" "remove_if_present A fs1 = Inr fs2" "remove_if_present B fs2 = Inr fs3" "fs_inv fs3"
    and g3: "\<And>q. fs_get fs3 q = (if prefix A q \<or> prefix B q then None else if q = ?u then Some (File ?d) else fs_get fs q)" by blast
  have "fs_get fs3 P = Some Dir" "fs_get fs3 (butlast A) = Some Dir" "fs_get fs3 A = None"
    "\<And>q. prefix A q \<Longrightarrow> fs_get fs3 q = None"
    using dirs ap u(1-3) [of "[]"] u(4) by (simp_all add: g3)
  from rename_dir_ok [OF c(4) this(1-3) _ _ this(4)] ap obtain fs4 where
    4: "rename_dir P A fs3 = Inr fs4" "fs_inv fs4" "\<And>q. fs_get fs4 (A @ q) = fs_get fs3 (P @ q)"
      "\<And>q. \<not> prefix A q \<Longrightarrow> fs_get fs4 q = (if prefix P q then None else fs_get fs3 q)" by blast
  have "fs_get fs4 L = Some Dir" "fs_get fs4 (butlast B) = Some Dir" "fs_get fs4 B = None"
    using dirs ap u(1-3) [of "[]"] u(4) by (simp_all add: 4(4) g3)
  moreover have "fs_get fs4 q = None" if "prefix B q" for q
  proof -
    have "\<not> prefix A q" "\<not> prefix P q" using that ap by (elim prefixE, simp)+
    with that show ?thesis by (simp add: 4(4) g3)
  qed
  ultimately obtain fs5 where
    5: "rename_dir L B fs4 = Inr fs5" "fs_inv fs5" "\<And>q. fs_get fs5 (B @ q) = fs_get fs4 (L @ q)"
      "\<And>q. \<not> prefix B q \<Longrightarrow> fs_get fs5 q = (if prefix L q then None else fs_get fs4 q)"
    using rename_dir_ok [OF 4(2), of L B] ap by blast
  have "finalize cache t fs = Inr fs5"
    using c(1-3) 4(1) 5(1) by (simp add: finalize_def P_def L_def A_def B_def)
  moreover have "fs_get fs5 (A @ q) = fs_get fs (P @ q)" for q
    using ap u(3) [of q] by (simp add: 5(4) 4(3) g3)
  moreover have "fs_get fs5 (B @ q) = (if q = [''update_time.txt''] then Some (File ?d) else fs_get fs (L @ q))" for q
    using ap by (simp add: 5(3) 4(4) g3)
  moreover have "fs_get fs5 (P @ q) = None \<and> fs_get fs5 (L @ q) = None" for q
    using ap by (simp add: 5(4) 4(4))
  moreover have "fs_get fs5 q = fs_get fs q" if "\<forall>d \<in> {P, L, A, B}. \<not> prefix d q" for q
    using that by (auto simp: 5(4) 4(4) g3)
  ultimately show ?thesis using 5(2) by blast
qed

section \<open>The pending directories of a round\<close>

text \<open>Adding files and links in existing directories keeps the tree.\<close>

lemma fs_tree_add:
  assumes "fs_tree fs"
    and "\<And>q. fs_get fs' q = fs_get fs q \<or> (fs_get fs q \<noteq> Some Dir \<and> fs_get fs (butlast q) = Some Dir)"
  shows "fs_tree fs'"
  unfolding fs_tree_def
proof (intro allI impI)
  fix p assume p: "butlast p \<noteq> []" "fs_get fs' p \<noteq> None"
  have "fs_get fs (butlast p) = Some Dir" using assms(1) assms(2) [of p] p by (auto simp: fs_tree_def)
  with assms(2) [of "butlast p"] show "fs_get fs' (butlast p) = Some Dir" by simp
qed

lemma fs_tree_recreated:
  assumes "fs_tree fs" and "\<And>q. fs_get fs' q = (if q \<in> pending_dirs cache then Some Dir
      else if \<exists>p \<in> pending_base cache. prefix p q then None else fs_get fs q)"
  shows "fs_tree fs'"
  unfolding fs_tree_def
proof (intro allI impI)
  fix p assume p: "butlast p \<noteq> []" "fs_get fs' p \<noteq> None"
  show "fs_get fs' (butlast p) = Some Dir"
  proof (cases "p \<in> pending_dirs cache")
    case True
    have "prefix (butlast q) cache" if "prefix q cache" for q using that prefixeq_butlast prefix_order.trans by blast
    with True p(1) have "butlast p \<in> pending_dirs cache"
      by (auto simp: pending_dirs_def pending_snapshot_directory_def pending_symlink_directory_def butlast_append)
    then show ?thesis by (simp add: assms(2))
  next
    case False
    then have out: "\<not> (\<exists>d \<in> pending_base cache. prefix d p)" and "fs_get fs p \<noteq> None" using p(2) by (auto simp: assms(2) split: if_splits)
    then have "fs_get fs (butlast p) = Some Dir" using assms(1) p(1) by (simp add: fs_tree_def)
    moreover have "\<not> (\<exists>d \<in> pending_base cache. prefix d (butlast p))"
      using out prefixeq_butlast [of p] prefix_order.trans by blast
    ultimately show ?thesis by (auto simp: assms(2))
  qed
qed

lemma round_count:
  assumes "0 < g" and "1640995200 \<le> r" and "symlink_count r g m = Inr n"
  shows "unat n \<le> (unat r - 1640995200) div unat g"
proof -
  have "unat ((r - 1640995200) div g) = (unat r - 1640995200) div unat g"
    using assms(2) by (simp add: unat_div unat_sub word_le_nat_alt)
  then have "unat n \<le> unat ((r - 1640995200) div g) \<Longrightarrow> ?thesis" by simp
  moreover have "n \<le> (r - 1640995200) div g"
    using assms(1,3) by (auto simp: symlink_count_def Let_def split: option.splits if_splits)
  ultimately show ?thesis by (simp add: word_le_nat_alt)
qed

text \<open>
  The names a round fills are the slots; the phases of a round only add files and links in them, so
  the state is still a tree, with the pending directories, and equal to the old one elsewhere.
\<close>

definition slot :: "path \<Rightarrow> path \<Rightarrow> bool" where
  "slot cache q \<longleftrightarrow> (\<exists>d \<in> pending_base cache. \<exists>v x. x \<noteq> ''v2'' \<and> q = d @ version_dir v @ [x])"

definition round_fs :: "path \<Rightarrow> file_system \<Rightarrow> file_system \<Rightarrow> bool" where
  "round_fs cache old fs \<longleftrightarrow> fs_inv fs \<and> fs_tree fs \<and> (\<forall>q \<in> pending_dirs cache. fs_get fs q = Some Dir) \<and>
     (\<forall>q. slot cache q \<longrightarrow> fs_get fs q \<noteq> Some Dir) \<and>
     (\<forall>q. q \<notin> pending_dirs cache \<and> \<not> (\<exists>d \<in> pending_base cache. prefix d q) \<longrightarrow> fs_get fs q = fs_get old q)"

lemma slotI:
  "x \<noteq> ''v2'' \<Longrightarrow> slot cache (pending_snapshot_directory cache @ version_dir v @ [x])"
  "x \<noteq> ''v2'' \<Longrightarrow> slot cache (pending_symlink_directory cache @ version_dir v @ [x])"
  by (auto simp: slot_def)

lemma slot_names [simp]:
  "slot cache (scope_path cache r s v)" "slot cache (pending_snapshot_directory cache @ version_dir v @ [dummy_filename])"
  "slot cache (pending_symlink_directory cache @ version_dir v @ [timestamp_link t])"
  by (intro slotI; simp add: scope_file_neq dummy_filename_def timestamp_link_neq)+

lemma version_dirs [simp]:
  "pending_snapshot_directory cache @ version_dir v \<in> pending_dirs cache" "pending_symlink_directory cache @ version_dir v \<in> pending_dirs cache"
  by (auto simp: pending_dirs_def version_dir_def)

lemma pending_apart [simp]:
  "pending_snapshot_directory cache @ p \<noteq> pending_symlink_directory cache @ q"
  "pending_symlink_directory cache @ p \<noteq> pending_snapshot_directory cache @ q"
  by (auto simp: pending_snapshot_directory_def pending_symlink_directory_def)

lemma slotD:
  assumes "slot cache q"
  shows "butlast q \<in> pending_dirs cache" and "q \<notin> pending_dirs cache" and "\<exists>d \<in> pending_base cache. prefix d q"
proof -
  from assms obtain d v x where q: "d \<in> pending_base cache" "x \<noteq> ''v2''" "q = d @ version_dir v @ [x]" by (auto simp: slot_def)
  then show "butlast q \<in> pending_dirs cache" "\<exists>d \<in> pending_base cache. prefix d q" by (auto simp: butlast_append)
  from q show "q \<notin> pending_dirs cache"
    by (auto simp: pending_dirs_def version_dir_def pending_snapshot_directory_def pending_symlink_directory_def prefix_def)
qed

lemma round_fs_add:
  assumes old: "round_fs cache old fs" and inv: "fs_inv fs'" and same: "\<And>q. \<not> slot cache q \<Longrightarrow> fs_get fs' q = fs_get fs q"
    and new: "\<And>q. slot cache q \<Longrightarrow> fs_get fs' q = fs_get fs q \<or> fs_get fs' q \<noteq> Some Dir"
  shows "round_fs cache old fs'"
  unfolding round_fs_def
proof (intro conjI ballI allI impI)
  have tree: "fs_tree fs" using old by (simp add: round_fs_def)
  show "fs_tree fs'"
  proof (rule fs_tree_add [OF tree])
    show "fs_get fs' q = fs_get fs q \<or> fs_get fs q \<noteq> Some Dir \<and> fs_get fs (butlast q) = Some Dir" for q
      using same [of q] slotD(1) [of cache q] old by (cases "slot cache q") (auto simp: round_fs_def)
  qed
  show "fs_get fs' q = Some Dir" if "q \<in> pending_dirs cache" for q
    using that same [of q] slotD(2) [of cache q] old by (auto simp: round_fs_def)
  show "fs_get fs' q \<noteq> Some Dir" if "slot cache q" for q using new [OF that] old that by (auto simp: round_fs_def)
  show "fs_get fs' q = fs_get old q" if "q \<notin> pending_dirs cache \<and> \<not> (\<exists>d \<in> pending_base cache. prefix d q)" for q
    using that same [of q] slotD(3) [of cache q] old by (auto simp: round_fs_def)
qed (rule inv)

lemma recreated_phase:
  assumes ok: "cache_ok cache fs"
  shows "\<exists>fs1. fold_res (recreate_pending cache) suffixes fs = Inr fs1 \<and> round_fs cache fs fs1 \<and> (\<forall>q. slot cache q \<longrightarrow> fs_get fs1 q = None)"
proof -
  from pending_recreated [OF ok] obtain fs1 where
    1: "fold_res (recreate_pending cache) suffixes fs = Inr fs1" "fs_inv fs1"
      "\<And>q. fs_get fs1 q = (if q \<in> pending_dirs cache then Some Dir
      else if \<exists>p \<in> pending_base cache. prefix p q then None else fs_get fs q)" by blast
  have "fs_tree fs1" using ok fs_tree_recreated 1(3) by (auto simp: cache_ok_def)
  moreover have none: "fs_get fs1 q = None" if "slot cache q" for q using slotD [OF that] by (simp add: 1(3))
  ultimately have "round_fs cache fs fs1" using 1(2,3) by (simp add: round_fs_def)
  with 1(1) none show ?thesis by blast
qed

lemma capture_phase:
  assumes st: "round_fs cache old fs" "\<And>q. slot cache q \<Longrightarrow> fs_get fs q = None"
    and graphs: "\<And>g s. g \<in> graphs \<Longrightarrow> s \<in> set scopes \<Longrightarrow> scope_ready S r g s" "\<And>g. g \<in> graphs \<Longrightarrow> se_prune S g \<in> graphs"
      "graph \<in> graphs" and scopes: "distinct scopes"
  shows "\<exists>fs' graph' names. fold_res (capture_snapshot S r cache) (snapshot_sync_timestamps r scopes) (fs, graph, []) = Inr (fs', graph', names) \<and>
    graph' \<in> graphs \<and> (\<forall>s \<in> set scopes. hm_get names s = Some (scope_file r s)) \<and> round_fs cache old fs' \<and>
    (\<forall>s \<in> set scopes. \<forall>v \<in> {1, 2}. \<exists>d. fs_get fs' (scope_path cache r s v) = Some (File d) \<and> snapshot_bytes S r graphs s v d) \<and>
    (\<forall>q. slot cache q \<longrightarrow> (\<forall>s \<in> set scopes. \<forall>v \<in> {1, 2}. q \<noteq> scope_path cache r s v) \<longrightarrow> fs_get fs' q = None)"
proof -
  have inv: "fs_inv fs" and dir: "\<And>v. fs_get fs (pending_snapshot_directory cache @ version_dir v) = Some Dir"
    using st(1) by (simp_all add: round_fs_def)
  have w: "writable fs (scope_path cache r s v)" for s v using st(2) [OF slot_names(1)] by (simp add: writable_def)
  from capture_loop_ok [where S = S and graphs = graphs and reference = r and cache = cache and names = "[]", OF graphs inv scopes dir w]
  obtain fs' graph' names where
    2: "fold_res (capture_snapshot S r cache) (snapshot_sync_timestamps r scopes) (fs, graph, []) = Inr (fs', graph', names)"
      "graph' \<in> graphs" "fs_inv fs'" "\<forall>s \<in> set scopes. hm_get names s = Some (scope_file r s)"
      "\<forall>s \<in> set scopes. \<forall>v \<in> {1, 2}. \<exists>d. fs_get fs' (scope_path cache r s v) = Some (File d) \<and> snapshot_bytes S r graphs s v d"
      "\<And>q. (\<forall>s \<in> set scopes. \<forall>v \<in> {1, 2}. q \<noteq> scope_path cache r s v) \<Longrightarrow> fs_get fs' q = fs_get fs q"
    by fastforce
  have "round_fs cache old fs'"
  proof (rule round_fs_add [OF st(1) 2(3)])
    show "fs_get fs' q = fs_get fs q" if "\<not> slot cache q" for q using that by (intro 2(6)) auto
    show "fs_get fs' q = fs_get fs q \<or> fs_get fs' q \<noteq> Some Dir" for q
      using 2(6) [of q] 2(5) by (cases "\<forall>s \<in> set scopes. \<forall>v \<in> {1, 2}. q \<noteq> scope_path cache r s v") auto
  qed
  with 2 st(2) show ?thesis by (intro exI [of _ fs'] exI [of _ graph'] exI [of _ names]) simp
qed

lemma dummy_phase:
  assumes st: "round_fs cache old fs" and net: "config_network (se_env S) = Inr net"
    and free: "\<And>v. fs_get fs (pending_snapshot_directory cache @ version_dir v @ [dummy_filename]) = None"
      "fs_get fs (pending_symlink_directory cache @ [timestamp_link r]) = None"
  shows "\<exists>fs' b. create_dummy S r cache fs = Inr fs' \<and> round_fs cache old fs' \<and>
    serialize_empty_blob (se_wire S) (se_env S) (se_genesis S) r 1 = Inr b \<and>
    fs_get fs' (pending_snapshot_directory cache @ [dummy_filename]) = Some (File b) \<and>
    fs_get fs' (pending_symlink_directory cache @ [timestamp_link r]) = Some (Symlink [''..'', ''snapshots'', dummy_filename]) \<and>
    (\<forall>q. (\<forall>v. q \<noteq> pending_snapshot_directory cache @ version_dir v @ [dummy_filename]) \<and>
      q \<noteq> pending_symlink_directory cache @ [timestamp_link r] \<longrightarrow> fs_get fs' q = fs_get fs q)"
proof -
  have inv: "fs_inv fs" and dir: "\<And>q. q \<in> pending_dirs cache \<Longrightarrow> fs_get fs q = Some Dir"
    using st by (simp_all add: round_fs_def)
  have L: "pending_symlink_directory cache \<in> pending_dirs cache" by (simp add: pending_dirs_def)
  from create_dummy_ok [OF net inv dir [OF version_dirs(1)] dir [OF L] free] obtain fs' b1 b2 where
    3: "create_dummy S r cache fs = Inr fs'" "fs_inv fs'" "serialize_empty_blob (se_wire S) (se_env S) (se_genesis S) r 1 = Inr b1"
      "fs_get fs' = (fs_get fs)(pending_snapshot_directory cache @ version_dir 1 @ [dummy_filename] \<mapsto> File b1,
        pending_snapshot_directory cache @ version_dir 2 @ [dummy_filename] \<mapsto> File b2,
        pending_symlink_directory cache @ [timestamp_link r] \<mapsto> Symlink [''..'', ''snapshots'', dummy_filename])" by blast
  have "round_fs cache old fs'"
  proof (rule round_fs_add [OF st 3(2)])
    have "slot cache (pending_symlink_directory cache @ [timestamp_link r])" using slot_names(3) [of cache 1 r] by (simp add: version_dir_def)
    then show "fs_get fs' q = fs_get fs q" if "\<not> slot cache q" for q using that slot_names(2) by (auto simp: 3(4))
    show "fs_get fs' q = fs_get fs q \<or> fs_get fs' q \<noteq> Some Dir" for q by (simp add: 3(4))
  qed
  moreover have "pending_symlink_directory cache \<noteq> pending_snapshot_directory cache" using pending_apart(2) [of cache "[]" "[]"] by simp
  then have "fs_get fs' (pending_snapshot_directory cache @ [dummy_filename]) = Some (File b1)" by (simp add: 3(4) version_dir_def)
  moreover have "fs_get fs' q = fs_get fs q" if "\<forall>v. q \<noteq> pending_snapshot_directory cache @ version_dir v @ [dummy_filename]"
    "q \<noteq> pending_symlink_directory cache @ [timestamp_link r]" for q using that by (simp add: 3(4))
  ultimately show ?thesis using 3(1,3) by (intro exI [of _ fs'] exI [of _ b1]) (simp add: 3(4))
qed

lemma links_phase:
  assumes st: "round_fs cache old fs" and scopes: "- 1 \<in> set scopes" "\<forall>s \<in> set scopes. hm_get names s = Some (scope_file r s)"
    and times: "0 < g" "1640995200 \<le> r" "symlink_count r g m = Inr n"
    and free: "\<And>v t. t \<noteq> r \<Longrightarrow> fs_get fs (pending_symlink_directory cache @ version_dir v @ [timestamp_link t]) = None"
  shows "\<exists>fs'. fold_res (link_step r g scopes cache names) (map word_of_nat [0 ..< unat n]) fs = Inr fs' \<and> round_fs cache old fs' \<and>
    (\<forall>i < unat n. \<forall>v \<in> {1, 2}. fs_get fs' (pending_symlink_directory cache @ version_dir v @ [timestamp_link (canonical_last_sync_timestamp r g (word_of_nat i))]) =
       Some (Symlink (link_target_of r (served_scope scopes g (word_of_nat i)) v))) \<and>
    (\<forall>q. (\<forall>v t. t \<noteq> r \<longrightarrow> q \<noteq> pending_symlink_directory cache @ version_dir v @ [timestamp_link t]) \<longrightarrow> fs_get fs' q = fs_get fs q)"
proof -
  let ?is = "map word_of_nat [0 ..< unat n] :: u64 list"
  let ?link = "\<lambda>v i. pending_symlink_directory cache @ version_dir v @ [timestamp_link (canonical_last_sync_timestamp r g i)]"
  have inv: "fs_inv fs" and dir: "\<And>q. q \<in> pending_dirs cache \<Longrightarrow> fs_get fs q = Some Dir"
    using st by (simp_all add: round_fs_def)
  note inj = canonical_inj [OF times(1,2) round_count [OF times]]
  have neq: "canonical_last_sync_timestamp r g i \<noteq> r" if "i \<in> set ?is" for i using that inj(2) by auto
  have names: "hm_get names s = Some (scope_file r s)" if "s \<in> set scopes" for s using scopes(2) that by blast
  from links_ok [OF scopes(1) names inv inj(3,1) dir [OF version_dirs(2)] free [OF neq]] obtain fs' where
    4: "fold_res (link_step r g scopes cache names) ?is fs = Inr fs'" "fs_inv fs'"
      "\<forall>i \<in> set ?is. \<forall>v \<in> {1, 2}. fs_get fs' (?link v i) = Some (Symlink (link_target_of r (served_scope scopes g i) v))"
      "\<And>q. (\<forall>i \<in> set ?is. \<forall>v \<in> {1, 2}. q \<noteq> ?link v i) \<Longrightarrow> fs_get fs' q = fs_get fs q" by blast
  have "round_fs cache old fs'"
  proof (rule round_fs_add [OF st 4(2)])
    show "fs_get fs' q = fs_get fs q" if "\<not> slot cache q" for q using that by (intro 4(4)) auto
    show "fs_get fs' q = fs_get fs q \<or> fs_get fs' q \<noteq> Some Dir" for q
      using 4(4) [of q] 4(3) by (cases "\<forall>i \<in> set ?is. \<forall>v \<in> {1, 2}. q \<noteq> ?link v i") auto
  qed
  moreover have "fs_get fs' q = fs_get fs q"
    if "\<forall>v t. t \<noteq> r \<longrightarrow> q \<noteq> pending_symlink_directory cache @ version_dir v @ [timestamp_link t]" for q
    using that neq by (intro 4(4)) blast
  ultimately show ?thesis using 4(1,3) by (intro exI [of _ fs']) simp
qed

text \<open>What the pending directories hold before the renaming; \<open>old\<close> is the state before the round.\<close>

definition filled :: "snapshot_env \<Rightarrow> u64 \<Rightarrow> u64 \<Rightarrow> u64 list \<Rightarrow> network_graph set \<Rightarrow> path \<Rightarrow> nat \<Rightarrow> file_system \<Rightarrow> bool" where
  "filled S r g scopes graphs cache n fs \<longleftrightarrow>
     (let P = pending_snapshot_directory cache; L = pending_symlink_directory cache in
      (\<forall>s \<in> set scopes. \<forall>v \<in> {1, 2}. \<exists>d. fs_get fs (scope_path cache r s v) = Some (File d) \<and> snapshot_bytes S r graphs s v d) \<and>
      (\<forall>i < n. \<forall>v \<in> {1, 2}. fs_get fs (L @ version_dir v @ [timestamp_link (canonical_last_sync_timestamp r g (word_of_nat i))]) =
         Some (Symlink (link_target_of r (served_scope scopes g (word_of_nat i)) v))) \<and>
      (\<exists>b. serialize_empty_blob (se_wire S) (se_env S) (se_genesis S) r 1 = Inr b \<and> fs_get fs (P @ [dummy_filename]) = Some (File b)) \<and>
      fs_get fs (L @ [timestamp_link r]) = Some (Symlink [''..'', ''snapshots'', dummy_filename]) \<and>
      fs_get fs (L @ [''update_time.txt'']) = None \<and> fs_get fs (L @ [''v2'', timestamp_link r]) = None)"

lemma fill_ok:
  assumes ok: "cache_ok cache fs" and net: "config_network (se_env S) = Inr net"
    and graphs: "\<And>g s. g \<in> graphs \<Longrightarrow> s \<in> set scopes \<Longrightarrow> scope_ready S r g s" "\<And>g. g \<in> graphs \<Longrightarrow> se_prune S g \<in> graphs"
      "graph \<in> graphs"
    and scopes: "distinct scopes" "- 1 \<in> set scopes"
    and times: "0 < g" "1640995200 \<le> r" "symlink_count r g m = Inr n"
  shows "\<exists>fs1 fs2 graph' names fs3 fs4. fold_res (recreate_pending cache) suffixes fs = Inr fs1 \<and>
    fold_res (capture_snapshot S r cache) (snapshot_sync_timestamps r scopes) (fs1, graph, []) = Inr (fs2, graph', names) \<and>
    create_dummy S r cache fs2 = Inr fs3 \<and>
    fold_res (link_step r g scopes cache names) (map word_of_nat [0 ..< unat n]) fs3 = Inr fs4 \<and>
    graph' \<in> graphs \<and> round_fs cache fs fs4 \<and> filled S r g scopes graphs cache (unat n) fs4"
proof -
  let ?P = "pending_snapshot_directory cache" and ?L = "pending_symlink_directory cache"
  from recreated_phase [OF ok] obtain fs1 where
    1: "fold_res (recreate_pending cache) suffixes fs = Inr fs1" "round_fs cache fs fs1" "\<And>q. slot cache q \<Longrightarrow> fs_get fs1 q = None" by blast
  from capture_phase [where S = S and graphs = graphs and r = r, OF 1(2,3) graphs scopes(1)] obtain fs2 graph' names where
    2: "fold_res (capture_snapshot S r cache) (snapshot_sync_timestamps r scopes) (fs1, graph, []) = Inr (fs2, graph', names)"
      "graph' \<in> graphs" "\<forall>s \<in> set scopes. hm_get names s = Some (scope_file r s)" "round_fs cache fs fs2"
      "\<forall>s \<in> set scopes. \<forall>v \<in> {1, 2}. \<exists>d. fs_get fs2 (scope_path cache r s v) = Some (File d) \<and> snapshot_bytes S r graphs s v d"
      "\<And>q. slot cache q \<Longrightarrow> (\<forall>s \<in> set scopes. \<forall>v \<in> {1, 2}. q \<noteq> scope_path cache r s v) \<Longrightarrow> fs_get fs2 q = None" by blast
  have dummy: "?P @ version_dir v @ [dummy_filename] \<noteq> scope_path cache r s v'" "scope_path cache r s v' \<noteq> ?P @ version_dir v @ [dummy_filename]" for v s v'
    using scope_file_neq(2) [of r s] by (auto simp: version_dir_def)
  have free2: "fs_get fs2 (?P @ version_dir v @ [dummy_filename]) = None" "fs_get fs2 (?L @ version_dir v @ [x]) = None" if "x \<noteq> ''v2''" for v x
    using dummy slotI(2) [OF that] by (intro 2(6); simp)+
  from free2(2) [OF timestamp_link_neq(1), of 1 r] have "fs_get fs2 (?L @ [timestamp_link r]) = None" by (simp add: version_dir_def)
  from dummy_phase [OF 2(4) net free2(1) [OF timestamp_link_neq(1)] this] obtain fs3 b where
    3: "create_dummy S r cache fs2 = Inr fs3" "round_fs cache fs fs3" "serialize_empty_blob (se_wire S) (se_env S) (se_genesis S) r 1 = Inr b"
      "fs_get fs3 (?P @ [dummy_filename]) = Some (File b)" "fs_get fs3 (?L @ [timestamp_link r]) = Some (Symlink [''..'', ''snapshots'', dummy_filename])"
      "\<And>q. (\<forall>v. q \<noteq> ?P @ version_dir v @ [dummy_filename]) \<Longrightarrow> q \<noteq> ?L @ [timestamp_link r] \<Longrightarrow> fs_get fs3 q = fs_get fs2 q" by blast
  have free3: "fs_get fs3 (?L @ version_dir v @ [x]) = None" if "x \<noteq> ''v2''" "version_dir v @ [x] \<noteq> [timestamp_link r]" for v x
    using free2(2) [OF that(1), of v] that(2) by (subst 3(6)) simp_all
  have "fs_get fs3 (?L @ version_dir v @ [timestamp_link t]) = None" if "t \<noteq> r" for v t
    using that timestamp_link_neq(1) by (intro free3) (auto simp: version_dir_def timestamp_link_inj)
  from links_phase [OF 3(2) scopes(2) 2(3) times this] obtain fs4 where
    4: "fold_res (link_step r g scopes cache names) (map word_of_nat [0 ..< unat n]) fs3 = Inr fs4" "round_fs cache fs fs4"
      "\<forall>i < unat n. \<forall>v \<in> {1, 2}. fs_get fs4 (?L @ version_dir v @ [timestamp_link (canonical_last_sync_timestamp r g (word_of_nat i))]) =
       Some (Symlink (link_target_of r (served_scope scopes g (word_of_nat i)) v))"
      "\<And>q. (\<forall>v t. t \<noteq> r \<longrightarrow> q \<noteq> ?L @ version_dir v @ [timestamp_link t]) \<Longrightarrow> fs_get fs4 q = fs_get fs3 q" by blast
  have scope3: "fs_get fs4 (scope_path cache r s v) = fs_get fs2 (scope_path cache r s v)" for s v
    using dummy(2) by (subst 4(4), simp, subst 3(6)) simp_all
  have kept: "fs_get fs4 (?P @ q) = fs_get fs3 (?P @ q)" "fs_get fs4 (?L @ version_dir v @ [timestamp_link r]) = fs_get fs3 (?L @ version_dir v @ [timestamp_link r])"
    "fs_get fs4 (?L @ [''update_time.txt'']) = fs_get fs3 (?L @ [''update_time.txt''])" for q v
    using timestamp_link_neq [of r] timestamp_link_neq [symmetric] by (auto simp: timestamp_link_inj version_dir_def intro!: 4(4))
  have "filled S r g scopes graphs cache (unat n) fs4"
    unfolding filled_def Let_def scope3
    using 2(5) 3(3,4,5) 4(3) kept(1) [of "[dummy_filename]"] kept(2) [of 1] kept(2) [of 2] kept(3)
      free3 [OF timestamp_link_neq(1), of 2 r] free3 [of "''update_time.txt''" 1] timestamp_link_neq(2) [of r, symmetric]
    by (simp add: version_dir_def)
  with 1(1) 2(1,2) 3(1) 4(1,2) show ?thesis by blast
qed

end
