(* ===== verification/Snapshot_Serving.thy ===== *)
theory Snapshot_Serving
  imports Snapshot_Links
begin

text \<open>
A whole round of src/snapshot.rs: what the cache directory serves afterwards.
\<close>

section \<open>A whole round\<close>

lemma link_resolves:
  "join_path (finalized_symlink_directory cache @ version_dir v) (link_target_of r s v) =
     finalized_snapshot_directory cache @ version_dir v @ [scope_file r s]"
  "join_path (finalized_symlink_directory cache) [''..'', ''snapshots'', dummy_filename] = finalized_snapshot_directory cache @ [dummy_filename]"
  by (simp_all add: link_target_of_def version_dir_def finalized_symlink_directory_def finalized_snapshot_directory_def
      scope_file_def snapshot_filename_def dummy_filename_def butlast_append)

lemma read_link:
  assumes "fs_get fs (p @ [x]) = Some (Symlink t)" and "fs_get fs (join_path p t) = Some (File d)"
  shows "read_file fs (p @ [x]) = Some d"
  using assms by (simp add: read_file_def follow_def)

lemma read_plain: "fs_get fs p = Some (File d) \<Longrightarrow> read_file fs p = Some d"
  by (simp add: read_file_def follow_def)

lemma finalized_tree:
  fixes cache :: path
  defines "P \<equiv> pending_snapshot_directory cache" and "L \<equiv> pending_symlink_directory cache"
    and "A \<equiv> finalized_snapshot_directory cache" and "B \<equiv> finalized_symlink_directory cache"
  assumes tree: "fs_tree fs" and dirs: "fs_get fs cache = Some Dir" "fs_get fs L = Some Dir" "fs_get fs (L @ [u]) = None"
    and A: "\<And>q. fs_get fs' (A @ q) = fs_get fs (P @ q)"
    and B: "\<And>q. fs_get fs' (B @ q) = (if q = [u] then Some (File d) else fs_get fs (L @ q))"
    and gone: "\<And>q. fs_get fs' (P @ q) = None" "\<And>q. fs_get fs' (L @ q) = None"
    and same: "\<And>q. (\<forall>d \<in> {P, L, A, B}. \<not> prefix d q) \<Longrightarrow> fs_get fs' q = fs_get fs q"
  shows "fs_tree fs'"
  unfolding fs_tree_def
proof (intro allI impI)
  note names = P_def L_def A_def B_def pending_snapshot_directory_def pending_symlink_directory_def
    finalized_snapshot_directory_def finalized_symlink_directory_def
  have cache': "fs_get fs' cache = Some Dir" using same [of cache] dirs(1) by (auto simp: names prefix_def)
  fix p assume p: "butlast p \<noteq> []" "fs_get fs' p \<noteq> None"
  have parent: "fs_get fs (butlast q) = Some Dir" if "fs_get fs q \<noteq> None" "butlast q \<noteq> []" for q
    using tree that by (simp add: fs_tree_def)
  consider q where "p = A @ q" | q where "p = B @ q" | "\<forall>d \<in> {P, L, A, B}. \<not> prefix d p"
  proof -
    have "p \<noteq> P @ q" "p \<noteq> L @ q" for q using p(2) gone by auto
    then show thesis using that unfolding prefix_def by blast
  qed
  then show "fs_get fs' (butlast p) = Some Dir"
  proof cases
    case (1 q)
    show ?thesis
    proof (cases "q = []")
      case False
      then have "fs_get fs (P @ butlast q) = Some Dir"
        using p(2) parent [of "P @ q"] by (simp add: 1 A butlast_append) (simp add: names)
      with False show ?thesis by (simp add: 1 butlast_append A)
    qed (use cache' in \<open>simp add: 1 names\<close>)
  next
    case (2 q)
    consider "q = []" | "q = [u]" | "q \<noteq> []" "q \<noteq> [u]" by blast
    then show ?thesis
    proof cases
      case 1
      then show ?thesis using cache' by (simp add: 2 names)
    next
      case r2: 2
      then show ?thesis using B [of "[]"] dirs(2) by (simp add: 2 butlast_append)
    next
      case 3
      have "fs_get fs (L @ butlast q) = Some Dir"
        using p(2) parent [of "L @ q"] 3 by (simp add: 2 B butlast_append) (simp add: names)
      moreover from this have "butlast q \<noteq> [u]" using dirs(3) by auto
      ultimately show ?thesis using 3 by (simp add: 2 butlast_append B)
    qed
  next
    case 3
    then have "\<forall>d \<in> {P, L, A, B}. \<not> prefix d (butlast p)" using prefixeq_butlast [of p] prefix_order.trans by blast
    from same [OF this] parent [of p] p same [OF 3] show ?thesis by simp
  qed
qed

text \<open>What readers of the cache directory find after a round.\<close>

definition served :: "snapshot_env \<Rightarrow> u64 \<Rightarrow> u64 \<Rightarrow> u64 list \<Rightarrow> network_graph set \<Rightarrow> path \<Rightarrow> file_system \<Rightarrow> u64 \<Rightarrow> bool" where
  "served S r g scopes graphs cache fs i \<longleftrightarrow> (\<forall>v \<in> {1, 2}. \<exists>scope d. scope \<in> set scopes \<and>
     read_file fs (finalized_symlink_directory cache @ version_dir v @ [timestamp_link (canonical_last_sync_timestamp r g i)]) = Some d \<and>
     snapshot_bytes S r graphs scope v d \<and> saturating_sub r scope \<le> canonical_last_sync_timestamp r g i \<and>
     (\<forall>scope' \<in> set scopes. sorted scopes \<longrightarrow> i \<noteq> 0 \<longrightarrow> i * g \<le> scope' \<longrightarrow> scope \<le> scope'))"

lemma filled_served:
  assumes filled: "filled S r g scopes graphs cache n fs" and i: "i < n" and scopes: "- 1 \<in> set scopes"
    and times: "0 < g" "1640995200 \<le> r" "n \<le> (unat r - 1640995200) div unat g"
    and A: "\<And>q. fs_get fs' (finalized_snapshot_directory cache @ q) = fs_get fs (pending_snapshot_directory cache @ q)"
    and B: "\<And>q. q \<noteq> [''update_time.txt''] \<Longrightarrow>
      fs_get fs' (finalized_symlink_directory cache @ q) = fs_get fs (pending_symlink_directory cache @ q)"
  shows "served S r g scopes graphs cache fs' (word_of_nat i)"
  unfolding served_def
proof
  fix v assume v: "v \<in> {1, 2 :: u8}"
  let ?i = "word_of_nat i :: u64" and ?t = "timestamp_link (canonical_last_sync_timestamp r g (word_of_nat i))"
  from referenced_scope_ok [OF scopes, of g ?i] obtain s where s: "referenced_scope scopes g ?i = Inr s" "s \<in> set scopes"
    "?i = 0 \<longrightarrow> s = - 1" "?i * g \<le> s" "?i \<noteq> 0 \<longrightarrow> (\<forall>s' \<in> set scopes. sorted scopes \<longrightarrow> ?i * g \<le> s' \<longrightarrow> s \<le> s')" by blast
  then have sv: "served_scope scopes g ?i = s" by (simp add: served_scope_def)
  note T = canonical_times [OF times i]
  have r64: "unat r < 2 ^ 64" using unsigned_less [of r, where ?'a = nat] by simp
  have "unat ?i * unat g < 2 ^ 64" using T(2,3) r64 by simp
  from canonical_covered [OF s(4) this s(3)] have cov: "saturating_sub r s \<le> canonical_last_sync_timestamp r g ?i" .
  from filled s(2) v obtain d where d: "fs_get fs (scope_path cache r s v) = Some (File d)" "snapshot_bytes S r graphs s v d"
    unfolding filled_def Let_def by blast
  have "fs_get fs (pending_symlink_directory cache @ version_dir v @ [?t]) = Some (Symlink (link_target_of r s v))"
    using filled i v unfolding filled_def Let_def sv [symmetric] by blast
  then have "fs_get fs' ((finalized_symlink_directory cache @ version_dir v) @ [?t]) = Some (Symlink (link_target_of r s v))"
    using B [of "version_dir v @ [?t]"] timestamp_link_neq(2) by (auto simp: version_dir_def)
  moreover have "fs_get fs' (join_path (finalized_symlink_directory cache @ version_dir v) (link_target_of r s v)) = Some (File d)"
    unfolding link_resolves A by (rule d(1))
  ultimately have "read_file fs' ((finalized_symlink_directory cache @ version_dir v) @ [?t]) = Some d" by (rule read_link)
  with d(2) s(2,5) cov show "\<exists>scope d. scope \<in> set scopes \<and> read_file fs' (finalized_symlink_directory cache @ version_dir v @ [?t]) = Some d \<and>
     snapshot_bytes S r graphs scope v d \<and> saturating_sub r scope \<le> canonical_last_sync_timestamp r g ?i \<and>
     (\<forall>scope' \<in> set scopes. sorted scopes \<longrightarrow> ?i \<noteq> 0 \<longrightarrow> ?i * g \<le> scope' \<longrightarrow> scope \<le> scope')"
    by (intro exI [of _ s] exI [of _ d]) simp
qed

text \<open>The end of a round on the tree that has been filled: the pending directories take the place of the finalized ones.\<close>

lemma finalize_filled:
  assumes ok: "cache_ok cache fs" and rf: "round_fs cache fs fs4" and filled: "filled S r g scopes graphs cache n fs4"
  obtains fs' where "finalize cache t fs4 = Inr fs'" and "cache_ok cache fs'"
    and "\<And>q. fs_get fs' (finalized_snapshot_directory cache @ q) = fs_get fs4 (pending_snapshot_directory cache @ q)"
    and "\<And>q. fs_get fs' (finalized_symlink_directory cache @ q) = (if q = [''update_time.txt'']
      then Some (File (ascii (dec_string (unat t)))) else fs_get fs4 (pending_symlink_directory cache @ q))"
    and "fs_get fs' (pending_snapshot_directory cache) = None" and "fs_get fs' (pending_symlink_directory cache) = None"
proof -
  let ?P = "pending_snapshot_directory cache" and ?L = "pending_symlink_directory cache"
    and ?A = "finalized_snapshot_directory cache" and ?B = "finalized_symlink_directory cache"
  have cache0: "cache \<noteq> []" using ok by (simp add: cache_ok_def)
  have inv4: "fs_inv fs4" and tree4: "fs_tree fs4" and dirs4: "\<And>q. q \<in> pending_dirs cache \<Longrightarrow> fs_get fs4 q = Some Dir"
    and out4: "\<And>q. q \<notin> pending_dirs cache \<Longrightarrow> (\<forall>d \<in> pending_base cache. \<not> prefix d q) \<Longrightarrow> fs_get fs4 q = fs_get fs q"
    using rf by (auto simp: round_fs_def)
  have d4: "fs_get fs4 ?P = Some Dir" "fs_get fs4 ?L = Some Dir" "fs_get fs4 cache = Some Dir"
    using cache0 by (simp_all add: dirs4 pending_dirs_def)
  have old: "fs_get fs4 d \<in> {None, Some Dir}" if "d \<in> {?A, ?B}" for d
  proof -
    have "d \<notin> pending_dirs cache" "\<forall>d' \<in> pending_base cache. \<not> prefix d' d" using that by (auto simp: cache_names pending_dirs_def prefix_def)
    from out4 [OF this] ok that show ?thesis by (auto simp: cache_ok_def)
  qed
  have below: "fs_get fs4 q = None" if "d \<in> {?A, ?B}" "fs_get fs4 d = None" "prefix d q" for d q
    by (rule fs_tree_below [OF tree4 that(2) _ that(3)]) (use that(1) in \<open>auto simp: cache_names\<close>)
  have u4: "fs_get fs4 (?L @ [''update_time.txt'']) = None" using filled by (simp add: filled_def Let_def)
  have "\<exists>fs'. finalize cache t fs4 = Inr fs' \<and> fs_inv fs' \<and> (\<forall>q. fs_get fs' (?A @ q) = fs_get fs4 (?P @ q)) \<and>
    (\<forall>q. fs_get fs' (?B @ q) = (if q = [''update_time.txt''] then Some (File (ascii (dec_string (unat t)))) else fs_get fs4 (?L @ q))) \<and>
    (\<forall>q. fs_get fs' (?P @ q) = None \<and> fs_get fs' (?L @ q) = None) \<and>
    (\<forall>q. (\<forall>d \<in> {?P, ?L, ?A, ?B}. \<not> prefix d q) \<longrightarrow> fs_get fs' q = fs_get fs4 q)"
    by (rule finalize_ok [OF inv4 d4 u4]) (fact old, fact below)
  then obtain fs' where
    fin: "finalize cache t fs4 = Inr fs'" "fs_inv fs'" "\<And>q. fs_get fs' (?A @ q) = fs_get fs4 (?P @ q)"
      "\<And>q. fs_get fs' (?B @ q) = (if q = [''update_time.txt''] then Some (File (ascii (dec_string (unat t)))) else fs_get fs4 (?L @ q))"
      "\<And>q. fs_get fs' (?P @ q) = None" "\<And>q. fs_get fs' (?L @ q) = None"
      "\<And>q. (\<forall>d \<in> {?P, ?L, ?A, ?B}. \<not> prefix d q) \<Longrightarrow> fs_get fs' q = fs_get fs4 q" by blast
  have gone: "fs_get fs' ?P = None" "fs_get fs' ?L = None" using fin(5) [of "[]"] fin(6) [of "[]"] by simp_all
  have tree': "fs_tree fs'" by (rule finalized_tree [OF tree4 d4(3,2) u4 fin(3,4,5,6,7)])
  have "fs_get fs' q \<in> {None, Some Dir}" if "prefix q cache" "q \<noteq> []" for q
  proof -
    have "\<forall>d \<in> {?P, ?L, ?A, ?B}. \<not> prefix d q" using that(1) by (auto simp: cache_names prefix_def)
    from fin(7) [OF this] dirs4 [of q] that show ?thesis by (simp add: pending_dirs_def)
  qed
  moreover have "fs_get fs' ?A = Some Dir" "fs_get fs' ?B = Some Dir" using fin(3) [of "[]"] fin(4) [of "[]"] d4 by simp_all
  ultimately have "cache_ok cache fs'" using fin(2) tree' cache0 gone by (simp add: cache_ok_def)
  from that [OF fin(1) this fin(3,4) gone] show thesis .
qed

lemma round_ok:
  assumes ok: "cache_ok cache fs" and net: "config_network (se_env S) = Inr net"
    and graphs: "\<And>g s. g \<in> graphs \<Longrightarrow> s \<in> set scopes \<Longrightarrow> scope_ready S r g s" "\<And>g. g \<in> graphs \<Longrightarrow> se_prune S g \<in> graphs"
      "graph \<in> graphs"
    and scopes: "distinct scopes" "- 1 \<in> set scopes"
    and r: "round_down_to_nearest_multiple now interval = Inr r"
    and times: "0 < g" "1640995200 \<le> r" "symlink_count r g m = Inr n"
  shows "\<exists>fs' graph'. generate_snapshots S now t g interval scopes cache m (fs, graph) = Inr (fs', graph') \<and>
    graph' \<in> graphs \<and> cache_ok cache fs' \<and>
    (\<forall>i < unat n. served S r g scopes graphs cache fs' (word_of_nat i)) \<and>
    (\<exists>b. serialize_empty_blob (se_wire S) (se_env S) (se_genesis S) r 1 = Inr b \<and>
       read_file fs' (finalized_symlink_directory cache @ [timestamp_link r]) = Some b) \<and>
    fs_get fs' (finalized_symlink_directory cache @ [''v2'', timestamp_link r]) = None \<and>
    read_file fs' (finalized_symlink_directory cache @ [''update_time.txt'']) = Some (ascii (dec_string (unat t))) \<and>
    fs_get fs' (pending_snapshot_directory cache) = None \<and> fs_get fs' (pending_symlink_directory cache) = None"
proof -
  let ?P = "pending_snapshot_directory cache" and ?L = "pending_symlink_directory cache"
    and ?A = "finalized_snapshot_directory cache" and ?B = "finalized_symlink_directory cache"
  from fill_ok [where S = S and graphs = graphs and r = r, OF ok net graphs scopes times] obtain fs1 fs2 graph' names fs3 fs4 where
    st: "fold_res (recreate_pending cache) suffixes fs = Inr fs1"
      "fold_res (capture_snapshot S r cache) (snapshot_sync_timestamps r scopes) (fs1, graph, []) = Inr (fs2, graph', names)"
      "create_dummy S r cache fs2 = Inr fs3"
      "fold_res (link_step r g scopes cache names) (map word_of_nat [0 ..< unat n]) fs3 = Inr fs4" "graph' \<in> graphs"
    and rf: "round_fs cache fs fs4" and filled: "filled S r g scopes graphs cache (unat n) fs4" by blast
  from finalize_filled [OF ok rf filled, where t = t] obtain fs' where
    fin: "finalize cache t fs4 = Inr fs'" "cache_ok cache fs'" "\<And>q. fs_get fs' (?A @ q) = fs_get fs4 (?P @ q)"
      "\<And>q. fs_get fs' (?B @ q) = (if q = [''update_time.txt''] then Some (File (ascii (dec_string (unat t)))) else fs_get fs4 (?L @ q))"
    and gone: "fs_get fs' ?P = None" "fs_get fs' ?L = None" by blast
  have gen: "generate_snapshots S now t g interval scopes cache m (fs, graph) = Inr (fs', graph')"
    using r st(1-4) times(3) fin(1) by (simp add: generate_snapshots_def)
  have "served S r g scopes graphs cache fs' (word_of_nat i)" if "i < unat n" for i
    by (rule filled_served [OF filled that scopes(2) times(1,2) round_count [OF times] fin(3)]) (simp add: fin(4))
  moreover from filled obtain b where b: "serialize_empty_blob (se_wire S) (se_env S) (se_genesis S) r 1 = Inr b"
    "fs_get fs4 (?P @ [dummy_filename]) = Some (File b)" "fs_get fs4 (?L @ [timestamp_link r]) = Some (Symlink [''..'', ''snapshots'', dummy_filename])"
    "fs_get fs4 (?L @ [''v2'', timestamp_link r]) = None" unfolding filled_def Let_def by blast
  have "read_file fs' (?B @ [timestamp_link r]) = Some b"
    by (rule read_link [where t = "[''..'', ''snapshots'', dummy_filename]"])
      (use b(2,3) timestamp_link_neq(2) in \<open>simp_all add: fin(3,4) link_resolves(2) del: join_path.simps\<close>)
  moreover have "fs_get fs' (?B @ [''v2'', timestamp_link r]) = None" using b(4) by (simp add: fin(4))
  moreover have "read_file fs' (?B @ [''update_time.txt'']) = Some (ascii (dec_string (unat t)))" by (rule read_plain) (simp add: fin(4))
  ultimately show ?thesis using gen st(5) b(1) gone fin(2) by blast
qed

end
