(* ===== verification/Client_Sync.thy ===== *)
theory Client_Sync
  imports Delta_Calculation
begin

text \<open>
What a client makes of a snapshot: the policies it keeps per channel direction, the effect of the
  decoded updates on them, and that a client which holds the last update from before the sync
  arrives at the latest one, whether it is sent in full, incrementally or not at all.
\<close>

section \<open>calculate_delta\<close>

definition reference_or :: "u64 option \<Rightarrow> u64 \<Rightarrow> u64" where
  "reference_or reference now = (case reference of Some t \<Rightarrow> t | None \<Rightarrow> now)"

lemma calculate_delta_collected:
  assumes "lookup_ok E db" and "nodes_table_ok E db" and "hm_inv (graph_node_deltas (prune g))"
    and "PRUNE_INTERVAL \<le> reference_or reference now_1" and "PRUNE_INTERVAL \<le> reference_or reference now_2"
  obtains ds nds where "collected E db (prune g) last_sync (reference_or reference now_1) ds"
    and "nodes_collected E db (prune g) last_sync (reference_or reference now_2) nds"
    and "calculate_delta e genesis ho E prune now_1 now_2 now_3 db g last_sync reference =
      bind_res (serialize_delta_set e genesis ho now_3 ds nds last_sync) (\<lambda>s. Inr (s, prune g))"
proof -
  from lookups_collected [OF assms(1,4) reference_or_def, of "prune g" last_sync] obtain ds1 ds2 ds where
    l: "fetch_channel_announcements E now_1 db (prune g) last_sync reference [] = Inr ds1"
      "fetch_channel_updates E db last_sync ds1 = Inr ds2" "filter_delta_set ds2 = Inr ds"
    and c: "collected E db (prune g) last_sync (reference_or reference now_1) ds" by blast
  from fetch_node_updates_spec [OF assms(2,3,5) reference_or_def, of last_sync] obtain nds where
    n: "fetch_node_updates E now_2 db (prune g) last_sync reference = Inr nds"
      "nodes_collected E db (prune g) last_sync (reference_or reference now_2) nds"
    unfolding nodes_collected_def by blast
  from that [OF c n(2)] l n(1) show thesis by (simp add: calculate_delta_def Let_def)
qed

section \<open>What a client makes of the updates\<close>

text \<open>
  The routing policy of one channel direction as a client keeps it, and the effect of a decoded
  update on it: a full update replaces the policy, an incremental one overlays the fields it has.
\<close>

record policy =
  pol_flags :: u8
  pol_cltv_expiry_delta :: u16
  pol_htlc_minimum_msat :: u64
  pol_fee_base_msat :: u32
  pol_fee_proportional_millionths :: u32
  pol_htlc_maximum_msat :: u64

definition policy_of :: "unsigned_channel_update \<Rightarrow> policy" where
  "policy_of u = \<lparr>pol_flags = cu_channel_flags u, pol_cltv_expiry_delta = cu_cltv_expiry_delta u,
     pol_htlc_minimum_msat = cu_htlc_minimum_msat u, pol_fee_base_msat = cu_fee_base_msat u,
     pol_fee_proportional_millionths = cu_fee_proportional_millionths u, pol_htlc_maximum_msat = cu_htlc_maximum_msat u\<rparr>"

definition overlay :: "wire_update \<Rightarrow> policy \<Rightarrow> policy" where
  "overlay w p = \<lparr>pol_flags = wu_flags w,
     pol_cltv_expiry_delta = (case wu_cltv_expiry_delta w of None \<Rightarrow> pol_cltv_expiry_delta p | Some x \<Rightarrow> x),
     pol_htlc_minimum_msat = (case wu_htlc_minimum_msat w of None \<Rightarrow> pol_htlc_minimum_msat p | Some x \<Rightarrow> x),
     pol_fee_base_msat = (case wu_fee_base_msat w of None \<Rightarrow> pol_fee_base_msat p | Some x \<Rightarrow> x),
     pol_fee_proportional_millionths =
       (case wu_fee_proportional_millionths w of None \<Rightarrow> pol_fee_proportional_millionths p | Some x \<Rightarrow> x),
     pol_htlc_maximum_msat = (case wu_htlc_maximum_msat w of None \<Rightarrow> pol_htlc_maximum_msat p | Some x \<Rightarrow> x)\<rparr>"

definition empty_policy :: policy where
  "empty_policy = \<lparr>pol_flags = 0, pol_cltv_expiry_delta = 0, pol_htlc_minimum_msat = 0, pol_fee_base_msat = 0,
     pol_fee_proportional_millionths = 0, pol_htlc_maximum_msat = 0\<rparr>"

definition client_update :: "wire_update \<Rightarrow> policy option \<Rightarrow> policy option" where
  "client_update w held = (if wu_incremental w then map_option (overlay w) held else Some (overlay w empty_policy))"

definition client_direction :: "wire_update list \<Rightarrow> u64 \<Rightarrow> bool \<Rightarrow> policy option \<Rightarrow> policy option" where
  "client_direction ws scid b held = fold client_update (filter (\<lambda>w. wu_scid w = scid \<and> bit (wu_flags w) 0 = b) ws) held"

lemma client_full: "client_update (update_view (Full u)) held = Some (policy_of u)"
  by (simp add: client_update_def overlay_def policy_of_def)

text \<open>
  An incremental update gives the latest policy on top of the reference, because a field that is
  left out has never differed from the reference.
\<close>

lemma client_incremental:
  assumes "l \<in> set us" and "m = mutations_against b us"
  shows "client_update (update_view (Incremental l m)) (Some (policy_of b)) = Some (policy_of l)"
  using assms(1) unfolding assms(2)
  by (auto simp: client_update_def overlay_def policy_of_def mutations_against_fields)

lemma mutations_default:
  assumes "l \<in> set us" and "mutations_against b us = mutated_properties_default"
  shows "policy_of l = policy_of b"
proof -
  have "\<not> mp_flags (mutations_against b us)" "\<not> mp_cltv_expiry_delta (mutations_against b us)"
    "\<not> mp_htlc_minimum_msat (mutations_against b us)" "\<not> mp_fee_base_msat (mutations_against b us)"
    "\<not> mp_fee_proportional_millionths (mutations_against b us)" "\<not> mp_htlc_maximum_msat (mutations_against b us)"
    by (simp_all add: assms(2) mutated_properties_default_def)
  with assms(1) show ?thesis by (simp add: policy_of_def mutations_against_fields)
qed

lemma client_reminder:
  "client_update (update_view (Reminder scid fl)) (Some p) = Some (p\<lparr>pol_flags := fl\<rparr>)"
  by (simp add: client_update_def overlay_def)

definition same_but_flags :: "policy \<Rightarrow> policy \<Rightarrow> bool" where
  "same_but_flags p q \<longleftrightarrow> p\<lparr>pol_flags := 0\<rparr> = q\<lparr>pol_flags := 0\<rparr>"

text \<open>One direction: whatever is sent for it, the client arrives at the latest update.\<close>

lemma direction_catches_up:
  assumes spec: "direction_spec E db last_sync scid b u" and l: "dud_latest_update_after_seen u = Some l"
  shows "\<exists>p. fold client_update (map update_view (directed_update last_sync threshold scid d (Some u)))
      (map_option (\<lambda>x. policy_of (ud_update x)) (dud_last_update_before_seen u)) = Some p \<and>
    same_but_flags p (policy_of (ud_update l)) \<and> (\<not> cd_requires_reminder d \<longrightarrow> p = policy_of (ud_update l))"
proof (cases "dud_last_update_before_seen u")
  case None
  then show ?thesis using l by (simp add: directed_update_def client_full same_but_flags_def del: update_view.simps)
next
  case (Some x)
  let ?m = "dud_mutated_properties u"
  obtain us where m: "?m = mutations_against (ud_update x) us" and lin: "ud_update l \<in> set us"
    using spec l Some by (force simp: direction_spec_def is_mutated_def is_latest_def delta_of_row_def)
  show ?thesis
  proof (cases "send_announcement last_sync d \<or> mutated_properties_len ?m = 5 \<or> ud_seen x \<le> threshold")
    case True
    then show ?thesis using l Some by (simp add: directed_update_def Let_def client_full same_but_flags_def del: update_view.simps)
  next
    case inc: False
    show ?thesis
    proof (cases "?m = mutated_properties_default")
      case True
      then have eq: "policy_of (ud_update x) = policy_of (ud_update l)" using mutations_default [OF lin] m by simp
      show ?thesis
        using inc True l Some eq
        by (auto simp: directed_update_def Let_def client_reminder same_but_flags_def simp del: update_view.simps split: option.split)
    next
      case False
      then show ?thesis using inc l Some client_incremental [OF lin m]
        by (simp add: directed_update_def Let_def same_but_flags_def del: update_view.simps)
    qed
  qed
qed

section \<open>The updates of one direction within a snapshot\<close>

lemma filter_concat_key:
  assumes "distinct (map fst ds)" and "(k, v) \<in> set ds" and "\<And>k v x. (k, v) \<in> set ds \<Longrightarrow> x \<in> set (f k v) \<Longrightarrow> key x = k"
  shows "filter (\<lambda>x. key x = k \<and> P x) (concat (map (\<lambda>(k, v). f k v) ds)) = filter P (f k v)"
  using assms
proof (induction ds)
  case (Cons y ds)
  obtain k' v' where y: "y = (k', v')" by (cases y)
  have keys: "key x = k'" if "x \<in> set (f k' v')" for x using Cons.prems(3) that by (auto simp: y)
  show ?case
  proof (cases "k' = k")
    case True
    then have "v' = v" using Cons.prems(1,2) by (force simp: y)
    have "key x \<noteq> k" if "(k'', v'') \<in> set ds" "x \<in> set (f k'' v'')" for x k'' v''
    proof -
      have "key x = k''" using Cons.prems(3) [of k'' v'' x] that by simp
      moreover have "k'' \<in> fst ` set ds" using that(1) by (rule image_eqI [rotated]) simp
      ultimately show ?thesis using Cons.prems(1) True by (auto simp: y)
    qed
    then have "filter (\<lambda>x. key x = k \<and> P x) (concat (map (\<lambda>(k, v). f k v) ds)) = []"
      by (auto simp: filter_empty_conv)
    moreover have "filter (\<lambda>x. key x = k \<and> P x) (f k' v') = filter P (f k v)"
      using keys True \<open>v' = v\<close> by (auto intro: filter_cong)
    ultimately show ?thesis by (simp add: y)
  next
    case False
    then have "filter (\<lambda>x. key x = k \<and> P x) (f k' v') = []" using keys by (auto simp: filter_empty_conv)
    with False Cons show ?thesis by (auto simp: y)
  qed
qed simp

text \<open>The direction column of a row agrees with the lowest flag of its message.\<close>

definition rows_directed :: "lookup_env \<Rightarrow> database \<Rightarrow> bool" where
  "rows_directed E db \<longleftrightarrow> (\<forall>r \<in> set (db_channel_updates db). cur_direction r = bit (cu_channel_flags (update_of E r)) 0)"

lemma looked_up_directed:
  assumes up: "looked_up E db g last_sync current scid d" and dirs: "rows_directed E db"
  shows "slot_directed b (dir_of b d)"
proof -
  have row: "bit (cu_channel_flags (update_of E r)) 0 = b" if "r \<in> rows_of db scid b" for r
    using dirs that by (auto simp: rows_directed_def rows_of_def)
  have upd: "bit (cu_channel_flags (ud_update y)) 0 = b"
    if x: "dir_of b d = Some x" "dud_latest_update_after_seen x = Some y \<or> dud_last_update_before_seen x = Some y" for x y
  proof -
    from x looked_up_direction [OF up x(1)] have "direction_spec E db last_sync scid b x"
      by (auto simp: reminder_only_def fresh_direction_def)
    from spec_row [OF this] x(2) obtain r where "r \<in> rows_of db scid b" "y = delta_of_row E r" by blast
    with row show ?thesis by (simp add: delta_of_row_def)
  qed
  have rem: "bit fl 0 = b" if "dir_of b d = Some x" "dud_serialization_update_flags x = Some fl" for x fl
    using looked_up_direction [OF up that(1)] that(2) by (auto simp: reminder_only_def dest: reminder_flagsD)
  from upd rem show ?thesis unfolding slot_directed_def by blast
qed

lemma collected_directed:
  assumes "collected E db g last_sync current ds" and "rows_directed E db"
  shows "delta_set_directed ds"
proof -
  have "slot_directed b (dir_of b d)" if "(scid, d) \<in> set ds" for scid d b
    using assms that looked_up_directed by (metis bt_get_in_set collected_def)
  from this [of _ _ False] this [of _ _ True] show ?thesis by (auto simp: delta_set_directed_def dir_of_def)
qed

lemma client_direction_of_snapshot:
  assumes c: "collected E db g last_sync current ds" and ok: "delta_set_ok ds" and dirs: "rows_directed E db"
    and d: "bt_get ds scid = Some d"
  shows "client_direction (map update_view (concat (map (\<lambda>(scid, d). channel_updates_of last_sync threshold scid d) ds))) scid b held =
    fold client_update (map update_view (directed_update last_sync threshold scid d (dir_of b d))) held"
proof -
  have inv: "bt_inv ds" using c by (simp add: collected_def)
  then have dist: "distinct (map fst ds)" using strict_sorted_iff by blast
  have mem: "(scid, d) \<in> set ds" using d inv by (simp add: bt_get_in_set)
  have up: "looked_up E db g last_sync current scid d" using c d by (simp add: collected_def)
  have flags: "wu_flags (update_view u) = update_flags u" "wu_scid (update_view u) = update_scid u" for u
    by (cases u; simp)+
  note dir = slot_update_direction [OF looked_up_directed [OF up dirs]]
  have none: "filter (\<lambda>u. bit (update_flags u) 0 = b) (directed_update last_sync threshold scid d (dir_of (\<not> b) d)) = []"
    and all: "filter (\<lambda>u. bit (update_flags u) 0 = b) (directed_update last_sync threshold scid d (dir_of b d)) =
      directed_update last_sync threshold scid d (dir_of b d)"
    using dir by (force simp: filter_empty_conv filter_id_conv)+
  have "filter (\<lambda>u. update_scid u = scid \<and> bit (update_flags u) 0 = b)
      (concat (map (\<lambda>(scid, d). channel_updates_of last_sync threshold scid d) ds)) =
    filter (\<lambda>u. bit (update_flags u) 0 = b) (channel_updates_of last_sync threshold scid d)"
    by (rule filter_concat_key [OF dist mem]) (use ok in \<open>auto simp: delta_set_ok_def dest: channel_update_scid\<close>)
  also have "\<dots> = directed_update last_sync threshold scid d (dir_of b d)"
    using none all by (cases b) (simp_all add: channel_updates_of_def dir_of_def)
  finally show ?thesis by (simp add: client_direction_def filter_map o_def flags del: update_view.simps)
qed

end
