(* ===== verification/Sample_Database.thy ===== *)
theory Sample_Database
  imports Client_Sync
begin

text \<open>
A small database, graph and set of readers, on which the hypotheses of the theorems about the
  lookups are evaluated.
\<close>

section \<open>Messages and rows\<close>

definition seconds :: "nat \<Rightarrow> int" where
  "seconds n = 1000000 * int n"

text \<open>A stored update is a blob of its channel, its flags and its base fee.\<close>

definition sample_read_update :: "bytes \<Rightarrow> channel_update option" where
  "sample_read_update bs = (case bs of [s, fl, fee] \<Rightarrow> Some (Signed (sample_update (ucast s) fl (ucast fee)) []) | _ \<Rightarrow> None)"

definition sample_read_announcement :: "bytes \<Rightarrow> channel_announcement option" where
  "sample_read_announcement bs = (case bs of [s] \<Rightarrow> Some (Signed (sample_announcement (ucast s)) []) | _ \<Rightarrow> None)"

definition sample_read_node :: "bytes \<Rightarrow> node_announcement option" where
  "sample_read_node bs = (case bs of [k, a] \<Rightarrow> Some (Signed \<lparr>na_features = NodeFeatures [], na_timestamp = 1700000000,
     na_node_id = sample_node (unat k), na_addresses = [SocketAddress [a]]\<rparr> []) | _ \<Rightarrow> None)"

definition sample_update_row :: "int \<Rightarrow> u8 \<Rightarrow> u8 \<Rightarrow> u8 \<Rightarrow> nat \<Rightarrow> channel_update_row" where
  "sample_update_row i s fl fee seen = \<lparr>cur_id = i, cur_short_channel_id = ucast s, cur_timestamp = 1700000000 + i,
     cur_channel_flags = uint fl, cur_direction = bit fl 0, cur_disable = bit fl 1, cur_cltv_expiry_delta = 40,
     cur_htlc_minimum_msat = 1, cur_fee_base_msat = ucast fee, cur_fee_proportional_millionths = 10,
     cur_htlc_maximum_msat = 1000000, cur_blob_signed = [s, fl, fee], cur_seen = seconds seen\<rparr>"

definition sample_announcement_row :: "u8 \<Rightarrow> nat \<Rightarrow> channel_announcement_row" where
  "sample_announcement_row s seen = \<lparr>car_short_channel_id = ucast s, car_funding_amount_sats = 1000,
     car_announcement_signed = [s], car_seen = seconds seen\<rparr>"

definition sample_node_row :: "nat \<Rightarrow> u8 \<Rightarrow> nat \<Rightarrow> node_announcement_row" where
  "sample_node_row k a seen = \<lparr>nar_public_key = node_id_hex (sample_node k), nar_features = [], nar_socket_addresses = [a],
     nar_timestamp = 1700000000 + int seen, nar_announcement_signed = [word_of_nat k, a], nar_seen = seconds seen\<rparr>"

text \<open>
  Channel 100 was announced long ago; in its first direction the base fee went from 5 to 7 after the
  sync at 1699950000. Channel 200 is new, with one update in each direction. Node 1 changed its
  address after the sync.
\<close>

definition sample_db :: database where
  "sample_db = \<lparr>db_schema = Some 15,
     db_channel_announcements = [sample_announcement_row 100 1699000000, sample_announcement_row 200 1699960000],
     db_channel_updates = [sample_update_row 1 100 0 5 1699900000, sample_update_row 2 100 1 5 1699900000,
       sample_update_row 3 100 0 7 1700000100, sample_update_row 4 200 0 9 1699970000, sample_update_row 5 200 1 9 1699980000],
     db_node_announcements = [sample_node_row 1 7 1699900000, sample_node_row 1 8 1700000100]\<rparr>"

definition sample_channel :: "u64 \<Rightarrow> channel_info" where
  "sample_channel scid = \<lparr>ci_announcement_message = Some (Signed (sample_announcement scid) []),
     ci_one_to_two = Some \<lparr>cui_enabled = True, cui_last_update_message = None\<rparr>,
     ci_two_to_one = Some \<lparr>cui_enabled = True, cui_last_update_message = None\<rparr>, ci_capacity_sats = Some 1000\<rparr>"

definition sample_graph :: network_graph where
  "sample_graph = \<lparr>graph_channels = [(100, sample_channel 100), (200, sample_channel 200)],
     graph_nodes = [(sample_node 1, Some \<lparr>nai_features = NodeFeatures [], nai_addresses = [SocketAddress [8]]\<rparr>),
       (sample_node 2, None)]\<rparr>"

definition sample_lookup :: lookup_env where
  "sample_lookup = \<lparr>le_read_channel_announcement = sample_read_announcement, le_read_channel_update = sample_read_update,
     le_read_node_announcement = sample_read_node, le_epoch = (\<lambda>x. word_of_int ((x + 500000) div 1000000)),
     le_scan_announcements = rev, le_scan_oldest = rev, le_scan_newer_oldest = rev, le_scan_window = rev,
     le_scan_mutated = rev, le_scan_reference_ids = rev, le_scan_reference = rev, le_scan_intermediate = rev,
     le_scan_node_reference = rev, le_scan_node_intermediate = rev\<rparr>"

lemmas sample_db_defs = sample_db_def sample_lookup_def sample_update_row_def sample_announcement_row_def sample_node_row_def
  sample_read_update_def sample_read_announcement_def sample_read_node_def

lemma sample_lookup_ok: "lookup_ok sample_lookup sample_db"
  by (simp add: lookup_ok_def announcements_table_ok_def updates_table_ok_def announcement_row_ok_def update_row_ok_def
      announcement_of_def update_of_def sample_db_defs sample_announcement_def sample_update_def reorders_def)

lemma sample_nodes_ok: "nodes_table_ok sample_lookup sample_db"
  by (simp add: nodes_table_ok_def node_row_ok_def node_of_def sample_db_defs reorders_def)

lemma sample_directed: "rows_directed sample_lookup sample_db"
  by (simp add: rows_directed_def update_of_def sample_db_defs sample_update_def)

lemma sample_graph_inv: "hm_inv (graph_node_deltas sample_graph)"
  by (simp add: graph_node_deltas_def sample_graph_def map_filter_simps)

lemma sample_stored_gossip_ok: "stored_gossip_ok bolt_wire sample_lookup sample_db sample_graph"
  by (simp add: stored_gossip_ok_def update_of_def announcement_of_def sample_db_defs sample_update_def sample_announcement_def
      sample_graph_def channel_features_fit_def node_features_fit_def sample_node_prefixed)

lemma sample_epoch_ok: "epoch_ok sample_lookup"
  unfolding epoch_ok_def
proof (intro allI impI)
  fix x :: int
  let ?y = "x + 500000"
  assume x: "0 \<le> x \<and> x \<le> 4294967295000000"
  have "1000000 * (?y div 1000000) = ?y - ?y mod 1000000" by (rule minus_mod_eq_mult_div [symmetric])
  moreover have "0 \<le> ?y mod 1000000" "?y mod 1000000 < 1000000" by simp_all
  ultimately have "\<bar>1000000 * (?y div 1000000) - x\<bar> \<le> 500000" by linarith
  moreover have "0 \<le> ?y div 1000000" using x by (simp add: pos_imp_zdiv_nonneg_iff)
  ultimately show "\<exists>s \<ge> 0. le_epoch sample_lookup x = word_of_int s \<and> \<bar>1000000 * s - x\<bar> \<le> 500000"
    by (intro exI [of _ "?y div 1000000"]) (simp add: sample_lookup_def)
qed

lemma sample_seen_in_range: "seen_in_range sample_db"
  by (simp add: seen_in_range_def sample_db_defs seconds_def)

lemma sample_graph_channel_ids: "graph_channel_ids sample_graph = [100, 200]"
  by (simp add: graph_channel_ids_def sample_graph_def sample_channel_def sample_announcement_def map_filter_simps)

lemma sample_quiet: "\<not> should_snapshot_include_reminders 1699950000 1700006400"
  by (simp add: should_snapshot_include_reminders_def saturating_sub_def Let_def)

lemma sample_time: "PRUNE_INTERVAL \<le> reference_or (Some 1700006400) now"
  by (simp add: reference_or_def PRUNE_INTERVAL_def)

lemma sample_snapshot_clock: "checked_sub 1700006405 CHANNEL_REMINDER_AGE = Some 1699488005"
  by (simp add: checked_sub_def CHANNEL_REMINDER_AGE_def)

lemma sample_row_fields:
  "cur_short_channel_id (sample_update_row i s fl fee seen) = ucast s"
  "cur_direction (sample_update_row i s fl fee seen) = bit fl 0"
  "cur_seen (sample_update_row i s fl fee seen) = seconds seen"
  "update_of sample_lookup (sample_update_row i s fl fee seen) = sample_update (ucast s) fl (ucast fee)"
  by (simp_all add: sample_update_row_def update_of_def sample_lookup_def sample_read_update_def)

end
