(* ===== verification/Sync_Properties.thy ===== *)
theory Sync_Properties
  imports Sample_Database
begin

text \<open>
The properties of the lookups of src/lookup.rs and of \<open>calculate_delta\<close> of src/lib.rs: what is
  fetched, filtered, announced and reminded of, and that a client that applies the snapshot
  arrives at the latest gossip.
\<close>

section \<open>From the database to the client\<close>

lemma calculated_snapshot:
  assumes "wire_ok W R" and "hash_orders_ok ho" and "snapshot_generation_interval e = Inr interval"
    and "config_network e = Inr net" and "checked_sub now_3 CHANNEL_REMINDER_AGE = Some t"
    and "lookup_ok E db" and "nodes_table_ok E db" and "hm_inv (graph_node_deltas (prune g))"
    and "stored_gossip_ok W E db (prune g)"
    and "PRUNE_INTERVAL \<le> reference_or reference now_1" and "PRUNE_INTERVAL \<le> reference_or reference now_2"
  obtains ds s resp snap where "collected E db (prune g) last_sync (reference_or reference now_1) ds" and "delta_set_ok ds"
    and "calculate_delta e genesis ho E prune now_1 now_2 now_3 db g last_sync reference = Inr (s, prune g)"
    and "serialize_delta W e ho s version = Inr resp" and "decode_snapshot R (sr_data resp) = Some (snap, [])"
    and "map (resolve_announcement snap) (ws_announcements snap) =
      map announced (concat (map (\<lambda>(scid, d). channel_announcements_of last_sync d) ds))"
    and "ws_updates snap = map update_view (concat (map (\<lambda>(scid, d). channel_updates_of last_sync (ucast t) scid d) ds))"
proof -
  obtain ds nds where ds: "collected E db (prune g) last_sync (reference_or reference now_1) ds"
    and nds: "nodes_collected E db (prune g) last_sync (reference_or reference now_2) nds"
    and c: "calculate_delta e genesis ho E prune now_1 now_2 now_3 db g last_sync reference =
      bind_res (serialize_delta_set e genesis ho now_3 ds nds last_sync) (\<lambda>s. Inr (s, prune g))"
    by (rule calculate_delta_collected [where prune = prune and g = g, OF assms(6-8,10,11)])
  have ok: "delta_set_ok ds" by (rule collected_delta_set_ok [OF ds assms(6,9)])
  have "gossip_ok W ds nds" by (rule collected_gossip_ok [OF ds nds assms(6,9)])
  from serialize_delta_set_writable [OF assms(4,5) ok assms(2) this] obtain s where
    s: "serialize_delta_set e genesis ho now_3 ds nds last_sync = Inr s" "snapshot_writable W version s"
      "ss_announcements s = concat (map (\<lambda>(scid, d). channel_announcements_of last_sync d) ds)"
      "ss_updates s = concat (map (\<lambda>(scid, d). channel_updates_of last_sync (ucast t) scid d) ds)"
    by blast
  from serialize_delta_decodes [OF assms(1-3) s(2)] obtain resp snap where
    r: "serialize_delta W e ho s version = Inr resp" "decode_snapshot R (sr_data resp) = Some (snap, [])"
      "map (resolve_announcement snap) (ws_announcements snap) = map announced (ss_announcements s)"
      "ws_updates snap = map update_view (ss_updates s)"
    by auto
  have "calculate_delta e genesis ho E prune now_1 now_2 now_3 db g last_sync reference = Inr (s, prune g)"
    using c s(1) by simp
  from that [OF ds ok this r(1,2) r(3,4) [unfolded s(3,4)]] show thesis .
qed

lemma collected_catches_up:
  assumes c: "collected E db g last_sync current ds" and ok: "delta_set_ok ds" and dirs: "rows_directed E db"
    and a: "announcement_entry E db (graph_channel_ids g) scid \<noteq> None"
    and r: "r \<in> rows_of db scid b" "after_sync last_sync r"
  shows "\<exists>x l p. is_reference E db last_sync scid b x \<and> is_latest E db last_sync scid b (Some l) \<and>
    client_direction (map update_view (concat (map (\<lambda>(scid, d). channel_updates_of last_sync threshold scid d) ds))) scid b
      (map_option (\<lambda>y. policy_of (ud_update y)) x) = Some p \<and>
    same_but_flags p (policy_of (ud_update l)) \<and>
    (\<not> reminder_due E db (graph_channel_ids g) last_sync current scid \<longrightarrow> p = policy_of (ud_update l))"
proof -
  have up: "updated_since db last_sync scid" using r by (auto simp: updated_since_def)
  with c a obtain d where d: "bt_get ds scid = Some d" by (force simp: collected_def)
  then have lk: "looked_up E db g last_sync current scid d" using c by (simp add: collected_def)
  from r(1) have "rows_of db scid b \<noteq> {}" by blast
  from looked_upD(1) [OF lk up this] obtain u where u: "dir_of b d = Some u" "direction_spec E db last_sync scid b u" by blast
  then obtain l where l: "dud_latest_update_after_seen u = Some l"
    using r by (auto simp: direction_spec_def is_latest_def split: option.splits)
  from direction_catches_up [OF u(2) l, of threshold d] obtain p where
    "fold client_update (map update_view (directed_update last_sync threshold scid d (Some u)))
      (map_option (\<lambda>x. policy_of (ud_update x)) (dud_last_update_before_seen u)) = Some p"
    "same_but_flags p (policy_of (ud_update l))" "\<not> cd_requires_reminder d \<longrightarrow> p = policy_of (ud_update l)"
    by blast
  with u l lk show ?thesis
    by (intro exI [of _ "dud_last_update_before_seen u"] exI [of _ l] exI [of _ p])
      (simp add: client_direction_of_snapshot [OF c ok dirs d] direction_spec_def looked_up_def)
qed

section \<open>Properties\<close>

text \<open>
  C2. Synchronisation works end to end. For gossip and tables that are well formed, calculating a
  delta from the database and serializing it does not panic, and for every announced channel of
  the graph and every direction with an update since the last sync, a client that holds the last
  update seen before the sync and applies the decoded snapshot arrives at the policy of the latest
  update, whether that was sent in full or incrementally or had nothing to send; only when a
  reminder is due for the channel may the flags come from the graph instead.
\<close>

theorem client_catches_up:
  assumes "wire_ok W R" and "hash_orders_ok ho" and "snapshot_generation_interval e = Inr interval"
    and "config_network e = Inr net" and "checked_sub now_3 CHANNEL_REMINDER_AGE = Some t"
    and "lookup_ok E db" and "nodes_table_ok E db" and "hm_inv (graph_node_deltas (prune g))"
    and "stored_gossip_ok W E db (prune g)"
    and "PRUNE_INTERVAL \<le> reference_or reference now_1" and "PRUNE_INTERVAL \<le> reference_or reference now_2"
    and "rows_directed E db"
  shows "\<exists>s resp snap. calculate_delta e genesis ho E prune now_1 now_2 now_3 db g last_sync reference = Inr (s, prune g) \<and>
    serialize_delta W e ho s version = Inr resp \<and> decode_snapshot R (sr_data resp) = Some (snap, []) \<and>
    (\<forall>scid b r. announcement_entry E db (graph_channel_ids (prune g)) scid \<noteq> None \<and> r \<in> rows_of db scid b \<and> after_sync last_sync r \<longrightarrow>
      (\<exists>x l p. is_reference E db last_sync scid b x \<and> is_latest E db last_sync scid b (Some l) \<and>
        client_direction (ws_updates snap) scid b (map_option (\<lambda>y. policy_of (ud_update y)) x) = Some p \<and>
        same_but_flags p (policy_of (ud_update l)) \<and>
        (\<not> reminder_due E db (graph_channel_ids (prune g)) last_sync (reference_or reference now_1) scid \<longrightarrow>
          p = policy_of (ud_update l))))"
proof -
  obtain ds s resp snap where c: "collected E db (prune g) last_sync (reference_or reference now_1) ds" "delta_set_ok ds"
    and r: "calculate_delta e genesis ho E prune now_1 now_2 now_3 db g last_sync reference = Inr (s, prune g)"
      "serialize_delta W e ho s version = Inr resp" "decode_snapshot R (sr_data resp) = Some (snap, [])"
    and u: "ws_updates snap = map update_view (concat (map (\<lambda>(scid, d). channel_updates_of last_sync (ucast t) scid d) ds))"
    by (rule calculated_snapshot [where prune = prune and g = g, OF assms(1-11)])
  show ?thesis
    by (intro exI [of _ s] exI [of _ resp] exI [of _ snap] conjI allI impI r, unfold u)
      (elim conjE, rule collected_catches_up [OF c assms(12)])
qed

theorem client_catches_up_witness:
  "\<exists>s resp snap. calculate_delta sample_env sample_genesis sample_orders sample_lookup (\<lambda>g. g) 0 0 1700006405 sample_db
      sample_graph 1699950000 (Some 1700006400) = Inr (s, sample_graph) \<and>
    serialize_delta bolt_wire sample_env sample_orders s 2 = Inr resp \<and>
    decode_snapshot bolt_reader (sr_data resp) = Some (snap, []) \<and>
    client_direction (ws_updates snap) 100 False (Some (policy_of (sample_update 100 0 5))) = Some (policy_of (sample_update 100 0 7))"
proof -
  let ?old = "sample_update_row 1 100 0 5 1699900000" and ?new = "sample_update_row 3 100 0 7 1700000100"
  have ann: "announcement_entry sample_lookup sample_db [100, 200] 100 \<noteq> None"
    by (simp add: announcement_entry_def sample_db_defs)
  have rows: "rows_of sample_db 100 False = {?old, ?new}"
    by (auto simp: rows_of_def sample_db_def sample_row_fields)
  have sync: "after_sync 1699950000 ?new" "\<not> after_sync 1699950000 ?old"
    by (simp_all add: after_sync_def to_timestamp_def sample_row_fields seconds_def)
  have before: "is_reference sample_lookup sample_db 1699950000 100 False x \<Longrightarrow>
      map_option (\<lambda>y. policy_of (ud_update y)) x = Some (policy_of (sample_update 100 0 5))" for x
    by (cases x) (auto simp: is_reference_def rows sync delta_of_row_def sample_row_fields)
  have latest: "is_latest sample_lookup sample_db 1699950000 100 False (Some l) \<Longrightarrow> ud_update l = sample_update 100 0 7" for l
    by (auto simp: is_latest_def rows sync delta_of_row_def sample_row_fields)
  have row: "?new \<in> rows_of sample_db 100 False" by (simp add: rows)
  have quiet: "\<not> reminder_due sample_lookup sample_db ids 1699950000 (reference_or (Some 1700006400) 0) scid" for ids scid
    using sample_quiet by (simp add: reminder_due_def reference_or_def)
  note main = client_catches_up [where prune = "\<lambda>g. g" and g = sample_graph and last_sync = 1699950000 and version = 2 and
      genesis = sample_genesis, OF bolt_wire_ok sample_orders_ok sample_env_interval
      sample_env_network sample_snapshot_clock sample_lookup_ok sample_nodes_ok sample_graph_inv sample_stored_gossip_ok
      sample_time sample_time sample_directed, of 0 0]
  show ?thesis
    using main [unfolded sample_graph_channel_ids] ann row sync(1) before latest quiet by metis
qed

text \<open>The mutated properties in terms of the stored updates, field by field.\<close>

definition differs_since :: "lookup_env \<Rightarrow> database \<Rightarrow> u32 \<Rightarrow> u64 \<Rightarrow> bool \<Rightarrow> (unsigned_channel_update \<Rightarrow> 'a) \<Rightarrow> unsigned_channel_update \<Rightarrow> bool" where
  "differs_since E db last_sync scid b field x \<longleftrightarrow>
     (\<exists>r \<in> rows_of db scid b. after_sync last_sync r \<and> field (update_of E r) \<noteq> field x)"

definition mutated_exactly :: "lookup_env \<Rightarrow> database \<Rightarrow> u32 \<Rightarrow> u64 \<Rightarrow> bool \<Rightarrow> update_delta option \<Rightarrow> mutated_properties \<Rightarrow> bool" where
  "mutated_exactly E db last_sync scid b reference m = (case reference of
     None \<Rightarrow> m = mutated_properties_default
   | Some x \<Rightarrow> m = \<lparr>
       mp_flags = differs_since E db last_sync scid b cu_channel_flags (ud_update x),
       mp_cltv_expiry_delta = differs_since E db last_sync scid b cu_cltv_expiry_delta (ud_update x),
       mp_htlc_minimum_msat = differs_since E db last_sync scid b cu_htlc_minimum_msat (ud_update x),
       mp_fee_base_msat = differs_since E db last_sync scid b cu_fee_base_msat (ud_update x),
       mp_fee_proportional_millionths = differs_since E db last_sync scid b cu_fee_proportional_millionths (ud_update x),
       mp_htlc_maximum_msat = differs_since E db last_sync scid b cu_htlc_maximum_msat (ud_update x)\<rparr>)"

lemma is_mutated_exactly:
  assumes "is_mutated E db last_sync scid b x m"
  shows "mutated_exactly E db last_sync scid b x m"
proof (cases x)
  case (Some y)
  with assms obtain us where us: "set us = update_of E ` {r \<in> rows_of db scid b. after_sync last_sync r}"
    "m = mutations_against (ud_update y) us" by (auto simp: is_mutated_def)
  show ?thesis
    unfolding Some mutated_exactly_def option.case us(2)
    by (rule mutated_properties.equality) (auto simp: mutations_against_fields us(1) differs_since_def)
qed (use assms in \<open>simp add: is_mutated_def mutated_exactly_def\<close>)

lemma channel_specD:
  assumes "channel_spec E db last_sync scid d d'" and "rows_of db scid b \<noteq> {}"
  shows "\<exists>u. dir_of b d' = Some u \<and> direction_spec E db last_sync scid b u"
  using assms(1) [unfolded channel_spec_def, THEN conjunct2, THEN conjunct2, THEN conjunct2, THEN spec, of b] assms(2)
  by (auto simp only: if_False simp_thms)

text \<open>
  C3. \<open>fetch_channel_updates\<close> gives each channel direction the update the client may have, the
  update to send and what changed, whatever order the database returns rows in. For a channel
  with an update since the sync: the reference is a row from before the sync such that no row
  from before the sync was seen after it; the latest update is a row since the sync with the highest
  timestamp; a property counts as mutated exactly when some row since the sync differs from the
  reference in it. A channel without such an update keeps its entry, and the announcement and
  reminder of an entry are kept.
\<close>

theorem fetched_updates_per_direction:
  assumes "updates_table_ok E db" and "bt_inv ds" and "fresh_set ds"
  shows "\<exists>ds'. fetch_channel_updates E db last_sync ds = Inr ds' \<and> bt_inv ds' \<and>
    (\<forall>scid. \<not> updated_since db last_sync scid \<longrightarrow> bt_get ds' scid = bt_get ds scid) \<and>
    (\<forall>scid. updated_since db last_sync scid \<longrightarrow> (\<exists>d'. bt_get ds' scid = Some d' \<and>
      cd_announcement d' = cd_announcement (delta_or_default ds scid) \<and>
      cd_requires_reminder d' = cd_requires_reminder (delta_or_default ds scid) \<and>
      (\<forall>b. rows_of db scid b \<noteq> {} \<longrightarrow> (\<exists>u. dir_of b d' = Some u \<and>
        is_reference E db last_sync scid b (dud_last_update_before_seen u) \<and>
        is_latest E db last_sync scid b (dud_latest_update_after_seen u) \<and>
        mutated_exactly E db last_sync scid b (dud_last_update_before_seen u) (dud_mutated_properties u)))))"
proof -
  from fetch_channel_updates_spec [OF assms, of last_sync] obtain ds' where
    f: "fetch_channel_updates E db last_sync ds = Inr ds'" "bt_inv ds'"
    and s: "\<And>scid. if updated_since db last_sync scid
       then \<exists>d'. bt_get ds' scid = Some d' \<and> channel_spec E db last_sync scid (delta_or_default ds scid) d'
       else bt_get ds' scid = bt_get ds scid" by blast
  have "\<exists>d'. bt_get ds' scid = Some d' \<and> cd_announcement d' = cd_announcement (delta_or_default ds scid) \<and>
      cd_requires_reminder d' = cd_requires_reminder (delta_or_default ds scid) \<and>
      (\<forall>b. rows_of db scid b \<noteq> {} \<longrightarrow> (\<exists>u. dir_of b d' = Some u \<and>
        is_reference E db last_sync scid b (dud_last_update_before_seen u) \<and>
        is_latest E db last_sync scid b (dud_latest_update_after_seen u) \<and>
        mutated_exactly E db last_sync scid b (dud_last_update_before_seen u) (dud_mutated_properties u)))"
    if up: "updated_since db last_sync scid" for scid
  proof -
    from s [of scid] up obtain d' where d': "bt_get ds' scid = Some d'" "channel_spec E db last_sync scid (delta_or_default ds scid) d'"
      by auto
    then show ?thesis
      using channel_specD [OF d'(2)] is_mutated_exactly
      by (intro exI [of _ d']) (simp add: channel_spec_def direction_spec_def, metis)
  qed
  with f s show ?thesis by (intro exI [of _ ds']) simp
qed

theorem fetched_updates_per_direction_witness:
  "\<exists>ds' d'. fetch_channel_updates sample_lookup sample_db 1699950000 [] = Inr ds' \<and> bt_get ds' 100 = Some d' \<and>
    cd_announcement d' = None \<and> (\<exists>u. dir_of False d' = Some u \<and>
      is_latest sample_lookup sample_db 1699950000 100 False (dud_latest_update_after_seen u))"
proof -
  have "sample_update_row 3 100 0 7 1700000100 \<in> rows_of sample_db 100 False"
    "after_sync 1699950000 (sample_update_row 3 100 0 7 1700000100)"
    by (simp_all add: rows_of_def sample_db_def sample_row_fields after_sync_def to_timestamp_def seconds_def)
  then have "updated_since sample_db 1699950000 100" "rows_of sample_db 100 False \<noteq> {}"
    by (auto simp: updated_since_def)
  moreover have "updates_table_ok sample_lookup sample_db" using sample_lookup_ok by (simp add: lookup_ok_def)
  moreover have "delta_or_default [] 100 = channel_delta_default" "cd_announcement channel_delta_default = None"
    by (simp_all add: delta_or_default_def channel_delta_default_def)
  ultimately show ?thesis
    using fetched_updates_per_direction [of sample_lookup sample_db "[]" 1699950000] by (fastforce simp: fresh_set_def)
qed

text \<open>
  C6. \<open>filter_delta_set\<close> never fails and keeps, in order and unchanged, exactly the channels that
  have an announcement and either need a reminder or have an update since the last sync in some
  direction.
\<close>

theorem filter_delta_set_exact:
  assumes "bt_inv ds"
  shows "filter_delta_set ds = Inr (filter (\<lambda>(_, v). cd_announcement v \<noteq> None \<and>
    (cd_requires_reminder v \<or> (\<exists>b u. dir_of b v = Some u \<and> dud_latest_update_after_seen u \<noteq> None))) ds)"
proof -
  have "keep_channel v \<longleftrightarrow> cd_announcement v \<noteq> None \<and>
    (cd_requires_reminder v \<or> (\<exists>b u. dir_of b v = Some u \<and> dud_latest_update_after_seen u \<noteq> None))" for v
    by (auto simp: keep_channel_def update_meets_criteria_def dir_of_def ex_bool_eq split: option.splits)
  then show ?thesis by (simp add: filter_delta_set_eq [OF assms])
qed

theorem filter_delta_set_exact_witness:
  "filter_delta_set [(50, channel_delta_default), (100, sample_delta 100)] = Inr [(100, sample_delta 100)]"
  by (subst filter_delta_set_exact)
    (auto simp: channel_delta_default_def sample_delta_def dir_of_def)

text \<open>
  C8. Reminders are included in the first hour of every fifth day, counted from the epoch, and in
  every snapshot that reaches back more than fifty hours; never otherwise.
\<close>

theorem reminder_schedule:
  "should_snapshot_include_reminders last_sync current \<longleftrightarrow>
     unat current mod 432000 < 3600 \<or> unat last_sync + 180000 < unat current"
proof -
  have two: "n div 3600 mod 24 = 0 \<and> n div 86400 mod 5 = 0 \<longleftrightarrow> n mod 432000 < 3600" for n :: nat
  proof -
    let ?q = "n div 3600"
    have "?q mod 120 = 24 * (?q div 24 mod 5) + ?q mod 24" using mod_mult2_eq [of ?q 24 5] by simp
    moreover have "n div 86400 = ?q div 24" by (simp add: div_mult2_eq [symmetric])
    ultimately have hours: "?q mod 24 = 0 \<and> n div 86400 mod 5 = 0 \<longleftrightarrow> ?q mod 120 = 0"
      by (simp only: add_eq_0_iff_both_eq_0 mult_eq_0_iff) auto
    have small: "3600 * a + c < 3600 \<longleftrightarrow> a = 0" if "c < 3600" for a c :: nat using that by (cases a) simp_all
    have "n mod 432000 = 3600 * (?q mod 120) + n mod 3600" using mod_mult2_eq [of n 3600 120] by simp
    then show ?thesis by (simp only: hours small [OF mod_less_divisor [of 3600 n]] zero_less_numeral)
  qed
  have hour: "current div 3600 mod 24 = 0 \<longleftrightarrow> unat current div 3600 mod 24 = 0"
    and day: "current div (24 * 3600) mod 5 = 0 \<longleftrightarrow> unat current div 86400 mod 5 = 0"
    by (simp_all add: unat_eq_zero [symmetric] unat_mod unat_div del: unat_eq_zero)
  have le: "unat (ucast last_sync :: u64) = unat last_sync" by (simp only: unat_eq_nat_uint) (simp add: uint_up_ucast is_up)
  have "saturating_sub current (ucast last_sync) > 50 * 3600 \<longleftrightarrow> unat last_sync + 180000 < unat current"
    by (auto simp: saturating_sub_def word_less_nat_alt word_le_nat_alt le unat_sub_if')
  then show ?thesis
    using two [of "unat current"] hour day by (simp add: should_snapshot_include_reminders_def Let_def)
qed

text \<open>A channel becomes routable for clients with the later of its first updates.\<close>

definition newly_complete :: "lookup_env \<Rightarrow> database \<Rightarrow> u32 \<Rightarrow> u64 \<Rightarrow> bool" where
  "newly_complete E db last_sync scid \<longleftrightarrow> channel_rows db scid \<and> to_timestamp last_sync \<le> first_seen db scid \<and>
     last_sync \<le> seen_u32 E (first_seen db scid)"

lemma collected_announces:
  assumes c: "collected E db g last_sync current ds" and ok: "delta_set_ok ds" and ann: "announcements_table_ok E db"
  shows "scid \<in> ca_short_channel_id ` set (concat (map (\<lambda>(scid, d). channel_announcements_of last_sync d) ds)) \<longleftrightarrow>
    (\<exists>a \<in> set (db_channel_announcements db). car_short_channel_id a = scid \<and> scid \<in> set (graph_channel_ids g) \<and>
      (last_sync \<le> seen_u32 E (car_seen a) \<or> newly_complete E db last_sync scid) \<and>
      (updated_since db last_sync scid \<or> reminder_due E db (graph_channel_ids g) last_sync current scid))" (is "?l \<longleftrightarrow> ?r")
proof -
  let ?ids = "graph_channel_ids g"
  have inv: "bt_inv ds" using c by (simp add: collected_def)
  have send: "send_announcement last_sync d \<longleftrightarrow> last_sync \<le> ad_seen x \<or> newly_complete E db last_sync scid"
    if "looked_up E db g last_sync current scid d" "announcement_entry E db ?ids scid = Some x" for d x
    using that by (auto simp: send_announcement_def is_newly_included_def looked_up_def first_entry_def newly_complete_def
        announcement_entry_def split: if_splits option.splits)
  have entry: "announcement_entry E db ?ids scid = Some (announcement_delta_of E a)"
    if "a \<in> set (db_channel_announcements db)" "car_short_channel_id a = scid" "scid \<in> set ?ids" for a
    using announcement_entry_cases(2) [OF ann, of a ?ids scid] that ann
    by (auto simp: announcement_rows_def announcements_table_ok_def reorders_set)
  show ?thesis
  proof
    assume ?l
    then obtain k d a where kd: "(k, d) \<in> set ds" "a \<in> set (channel_announcements_of last_sync d)" "ca_short_channel_id a = scid"
      by auto
    then have "k = scid" using ok channel_announcement_scid by (fastforce simp: delta_set_ok_def)
    then have d: "bt_get ds scid = Some d" using kd(1) inv by (simp add: bt_get_in_set)
    with c have up: "looked_up E db g last_sync current scid d" "keep_channel d" by (auto simp: collected_def)
    from kd(2) obtain x where x: "cd_announcement d = Some x" "send_announcement last_sync d"
      by (cases "cd_announcement d") (auto simp: channel_announcements_of_def split: if_splits)
    then have e: "announcement_entry E db ?ids scid = Some x" using up(1) by (simp add: looked_up_def)
    from announcement_entry_row [OF e] obtain r where
      "r \<in> set (db_channel_announcements db)" "car_short_channel_id r = scid" "x = announcement_delta_of E r" "scid \<in> set ?ids" by blast
    with send [OF up(1) e] x(2) c d show ?r
      by (intro bexI [of _ r]) (auto simp: announcement_delta_of_def collected_def)
  next
    assume ?r
    then obtain a where a: "a \<in> set (db_channel_announcements db)" "car_short_channel_id a = scid" "scid \<in> set ?ids"
      "last_sync \<le> seen_u32 E (car_seen a) \<or> newly_complete E db last_sync scid"
      "updated_since db last_sync scid \<or> reminder_due E db ?ids last_sync current scid" by blast
    note e = entry [OF a(1-3)]
    with c a(5) obtain d where d: "bt_get ds scid = Some d" by (force simp: collected_def)
    with c have up: "looked_up E db g last_sync current scid d" by (simp add: collected_def)
    have "(scid, d) \<in> set ds" using d inv by (simp add: bt_get_in_set)
    moreover have "announcement_of E a \<in> set (channel_announcements_of last_sync d)"
      using send [OF up e] a(4) up e by (auto simp: channel_announcements_of_def looked_up_def announcement_delta_of_def)
    moreover have "ca_short_channel_id (announcement_of E a) = scid"
      using ann a(1,2) by (simp add: announcements_table_ok_def announcement_row_ok_def)
    ultimately show ?l by force
  qed
qed

text \<open>
  C4. A snapshot announces exactly the channels of the graph that are new to the client and worth
  sending: the announcement was first seen since the last sync, or the later of the first updates
  of its directions was; and there is an update since the sync or a reminder is due.
\<close>

theorem snapshot_announces_new_channels:
  assumes "wire_ok W R" and "hash_orders_ok ho" and "snapshot_generation_interval e = Inr interval"
    and "config_network e = Inr net" and "checked_sub now_3 CHANNEL_REMINDER_AGE = Some t"
    and "lookup_ok E db" and "nodes_table_ok E db" and "hm_inv (graph_node_deltas (prune g))"
    and "stored_gossip_ok W E db (prune g)"
    and "PRUNE_INTERVAL \<le> reference_or reference now_1" and "PRUNE_INTERVAL \<le> reference_or reference now_2"
  shows "\<exists>s resp snap. calculate_delta e genesis ho E prune now_1 now_2 now_3 db g last_sync reference = Inr (s, prune g) \<and>
    serialize_delta W e ho s version = Inr resp \<and> decode_snapshot R (sr_data resp) = Some (snap, []) \<and>
    (\<forall>scid. scid \<in> wa_scid ` set (ws_announcements snap) \<longleftrightarrow>
      (\<exists>a \<in> set (db_channel_announcements db). car_short_channel_id a = scid \<and> scid \<in> set (graph_channel_ids (prune g)) \<and>
        (last_sync \<le> seen_u32 E (car_seen a) \<or> newly_complete E db last_sync scid) \<and>
        (updated_since db last_sync scid \<or>
          reminder_due E db (graph_channel_ids (prune g)) last_sync (reference_or reference now_1) scid)))"
proof -
  obtain ds s resp snap where c: "collected E db (prune g) last_sync (reference_or reference now_1) ds" "delta_set_ok ds"
    and r: "calculate_delta e genesis ho E prune now_1 now_2 now_3 db g last_sync reference = Inr (s, prune g)"
      "serialize_delta W e ho s version = Inr resp" "decode_snapshot R (sr_data resp) = Some (snap, [])"
    and a: "map (resolve_announcement snap) (ws_announcements snap) =
      map announced (concat (map (\<lambda>(scid, d). channel_announcements_of last_sync d) ds))"
    by (rule calculated_snapshot [where prune = prune and g = g, OF assms(1-11)])
  have "wa_scid ` set (ws_announcements snap) = (\<lambda>x. fst (snd x)) ` set (map (resolve_announcement snap) (ws_announcements snap))"
    by (simp add: image_image resolve_announcement_def)
  also have "\<dots> = ca_short_channel_id ` set (concat (map (\<lambda>(scid, d). channel_announcements_of last_sync d) ds))"
    unfolding a by (simp only: set_map image_image announced_def fst_conv snd_conv)
  finally have ids: "wa_scid ` set (ws_announcements snap) =
      ca_short_channel_id ` set (concat (map (\<lambda>(scid, d). channel_announcements_of last_sync d) ds))" .
  have ann: "announcements_table_ok E db" using assms(6) by (simp add: lookup_ok_def)
  show ?thesis
    by (intro exI [of _ s] exI [of _ resp] exI [of _ snap] conjI allI r, unfold ids) (rule collected_announces [OF c ann])
qed

theorem snapshot_announces_new_channels_witness:
  "\<exists>s resp snap. calculate_delta sample_env sample_genesis sample_orders sample_lookup (\<lambda>g. g) 0 0 1700006405 sample_db
      sample_graph 1699950000 (Some 1700006400) = Inr (s, sample_graph) \<and>
    serialize_delta bolt_wire sample_env sample_orders s 2 = Inr resp \<and>
    decode_snapshot bolt_reader (sr_data resp) = Some (snap, []) \<and> 200 \<in> wa_scid ` set (ws_announcements snap)"
proof -
  note main = snapshot_announces_new_channels [where prune = "\<lambda>g. g" and g = sample_graph and last_sync = 1699950000 and version = 2 and
      genesis = sample_genesis, OF bolt_wire_ok sample_orders_ok sample_env_interval
      sample_env_network sample_snapshot_clock sample_lookup_ok sample_nodes_ok sample_graph_inv sample_stored_gossip_ok
      sample_time sample_time, of 0 0]
  have "sample_update_row 4 200 0 9 1699970000 \<in> rows_of sample_db 200 False"
    "after_sync 1699950000 (sample_update_row 4 200 0 9 1699970000)"
    by (simp_all add: rows_of_def sample_db_def sample_row_fields after_sync_def to_timestamp_def seconds_def)
  then have "updated_since sample_db 1699950000 200" by (auto simp: updated_since_def)
  moreover have "sample_announcement_row 200 1699960000 \<in> set (db_channel_announcements sample_db)"
    "car_short_channel_id (sample_announcement_row 200 1699960000) = 200"
    "1699950000 \<le> seen_u32 sample_lookup (car_seen (sample_announcement_row 200 1699960000))"
    by (simp_all add: sample_db_def sample_announcement_row_def seen_u32_def sample_lookup_def seconds_def)
  ultimately show ?thesis using main [unfolded sample_graph_channel_ids] by fastforce
qed

text \<open>
  C5. Without reminders, \<open>fetch_node_updates\<close> returns an entry for exactly the announced nodes of
  the graph, with its features and addresses; the details from before the sync are those of the
  row seen last before it; and the strategy is: none when the node was not announced since the
  sync, full when nothing is known from before, and otherwise mutated exactly in the addresses and
  features in which some announcement since then differs from those details (none if nothing does).
\<close>

theorem node_strategies:
  assumes "nodes_table_ok E db" and "hm_inv (graph_node_deltas g)" and "PRUNE_INTERVAL \<le> reference_or reference now"
    and "epoch_ok E" and "seen_in_range db" and "\<not> should_snapshot_include_reminders last_sync (reference_or reference now)"
  shows "\<exists>ds. fetch_node_updates E now db g last_sync reference = Inr ds \<and> hm_inv ds \<and>
    (\<forall>n. (hm_get ds n = None) = (hm_get (graph_node_deltas g) n = None)) \<and>
    (\<forall>n d d0. hm_get ds n = Some d \<and> hm_get (graph_node_deltas g) n = Some d0 \<longrightarrow>
      map_option nd_features (nde_latest_details d) = map_option nd_features (nde_latest_details d0) \<and>
      map_option nd_addresses (nde_latest_details d) = map_option nd_addresses (nde_latest_details d0) \<and>
      is_node_reference E db last_sync n (nde_last_details_before_seen d) \<and>
      nde_strategy d = node_strategy_spec E (nde_last_details_before_seen d) (node_rows_since db last_sync n))"
proof -
  from fetch_node_updates_spec [OF assms(1-3) reference_or_def, of last_sync] obtain ds where
    ds: "fetch_node_updates E now db g last_sync reference = Inr ds" "hm_inv ds"
      "\<And>n. hm_get ds n = map_option (node_outcome E db g last_sync (reference_or reference now) n) (hm_get (graph_node_deltas g) n)"
    by blast
  note outcome = node_outcome_strategy [OF assms(1,4-6)]
  show ?thesis
    by (intro exI [of _ ds] conjI ds(1,2)) (auto simp: ds(3) node_outcome_latest outcome)
qed

theorem node_strategies_witness:
  "\<exists>ds d. fetch_node_updates sample_lookup 0 sample_db sample_graph 1699950000 (Some 1700006400) = Inr ds \<and>
    hm_get ds (sample_node 1) = Some d \<and> nde_strategy d = Some (NodeMutated \<lparr>mnp_addresses = True, mnp_features = False\<rparr>)"
proof -
  let ?old = "sample_node_row 1 7 1699900000" and ?new = "sample_node_row 1 8 1700000100"
  have of: "node_of sample_lookup (sample_node_row 1 a s) = \<lparr>na_features = NodeFeatures [], na_timestamp = 1700000000,
     na_node_id = sample_node 1, na_addresses = [SocketAddress [a]]\<rparr>" for a s
    by (simp add: node_of_def sample_node_row_def sample_lookup_def sample_read_node_def)
  have rows: "node_rows_of sample_db (sample_node 1) = {?old, ?new}"
    by (auto simp: node_rows_of_def sample_db_def sample_node_row_def)
  have seen: "nar_seen ?old = seconds 1699900000" "nar_seen ?new = seconds 1700000100" by (simp_all add: sample_node_row_def)
  have since: "node_rows_since sample_db 1699950000 (sample_node 1) = {?new}"
    by (auto simp: node_rows_since_def rows seen to_timestamp_def seconds_def simp del: One_nat_def)
  have ref: "is_node_reference sample_lookup sample_db 1699950000 (sample_node 1) x \<Longrightarrow> x = Some (details_of_row sample_lookup ?old)" for x
    by (cases x) (auto simp: is_node_reference_def rows seen to_timestamp_def seconds_def simp del: One_nat_def)
  have strat: "node_strategy_spec sample_lookup (Some (details_of_row sample_lookup ?old)) {?new} =
      Some (NodeMutated \<lparr>mnp_addresses = True, mnp_features = False\<rparr>)"
    by (simp add: node_strategy_spec_def addresses_differ_def features_differ_def details_of_row_def of del: One_nat_def)
  have g: "\<exists>d0. hm_get (graph_node_deltas sample_graph) (sample_node 1) = Some d0"
    by (simp add: graph_node_deltas_def sample_graph_def map_filter_simps)
  have quiet: "\<not> should_snapshot_include_reminders 1699950000 (reference_or (Some 1700006400) 0)"
    using sample_quiet by (simp add: reference_or_def)
  show ?thesis
    using node_strategies [OF sample_nodes_ok sample_graph_inv sample_time sample_epoch_ok sample_seen_in_range quiet] g ref
    by (metis (no_types, lifting) not_None_eq since strat)
qed
end
