(* ===== verification/Reminder_Properties.thy ===== *)
theory Reminder_Properties
  imports Sync_Properties
begin

text \<open>
The window query behind the reminders of src/lookup.rs: it finds, for each channel direction, the
  update since which the columns have not changed.
\<close>

text \<open>
  The window query flags a row whose older neighbour differs; above the first flagged row all rows
  agree with it.
\<close>

lemma update_row_differs_sym: "update_row_differs r r' \<longleftrightarrow> update_row_differs r' r"
  by (auto simp: update_row_differs_def)

lemma update_row_same_trans: "\<not> update_row_differs r r' \<Longrightarrow> \<not> update_row_differs r' r'' \<Longrightarrow> \<not> update_row_differs r r''"
  by (simp add: update_row_differs_def)

text \<open>Two updates with the same values in the six compared columns.\<close>

definition same_policy :: "channel_update_row \<Rightarrow> channel_update_row \<Rightarrow> bool" where
  "same_policy r r' \<longleftrightarrow> cur_disable r = cur_disable r' \<and> cur_cltv_expiry_delta r = cur_cltv_expiry_delta r' \<and>
     cur_htlc_minimum_msat r = cur_htlc_minimum_msat r' \<and> cur_htlc_maximum_msat r = cur_htlc_maximum_msat r' \<and>
     cur_fee_base_msat r = cur_fee_base_msat r' \<and> cur_fee_proportional_millionths r = cur_fee_proportional_millionths r'"

lemma update_row_differs_policy: "update_row_differs r r' \<longleftrightarrow> \<not> same_policy r r'"
  by (auto simp: update_row_differs_def same_policy_def)

lemma first_flagged:
  assumes "map fst (filter snd (annotate_successors update_row_differs rows)) = q # flagged"
  shows "\<exists>newer older. rows = newer @ q # older \<and> (\<forall>r \<in> set newer. \<not> update_row_differs r q) \<and>
    (\<forall>r older'. older = r # older' \<longrightarrow> update_row_differs q r)"
  using assms
proof (induction update_row_differs rows arbitrary: q flagged rule: annotate_successors.induct)
  case (2 r)
  then show ?case by (intro exI [of _ "[]"] exI [of _ "[]"]) auto
next
  case (3 r r' rows)
  show ?case
  proof (cases "update_row_differs r r'")
    case True
    then show ?thesis using 3(2) by (intro exI [of _ "[]"] exI [of _ "r' # rows"]) auto
  next
    case False
    with 3 obtain newer older where *: "r' # rows = newer @ q # older" "\<forall>r \<in> set newer. \<not> update_row_differs r q"
      "\<forall>r older'. older = r # older' \<longrightarrow> update_row_differs q r" by fastforce
    have "\<not> update_row_differs r q"
      using False *(1,2) update_row_same_trans [OF False, of q] by (cases newer) auto
    with * show ?thesis by (intro exI [of _ "r # newer"] exI [of _ older]) auto
  qed
qed auto

lemma unflagged_successor:
  "i < length rows \<Longrightarrow> rows ! i \<notin> fst ` set (filter snd (annotate_successors differs rows)) \<Longrightarrow>
     Suc i < length rows \<and> \<not> differs (rows ! i) (rows ! Suc i)"
proof (induction differs rows arbitrary: i rule: annotate_successors.induct)
  case (3 differs r r' rows)
  show ?case
  proof (cases i)
    case (Suc j)
    have "(r' # rows) ! j \<notin> fst ` set (filter snd (annotate_successors differs (r' # rows)))" using 3(3) Suc by auto
    with 3(1) [of j] 3(2) Suc show ?thesis by simp
  qed (use 3(3) in auto)
qed auto

lemma map_fst_annotate: "map fst (annotate_successors differs rows) = rows"
  by (induction differs rows rule: annotate_successors.induct) auto

text \<open>The rows of one partition, newest first.\<close>

definition partition_rows :: "lookup_env \<Rightarrow> database \<Rightarrow> (64 word) list \<Rightarrow> u64 \<Rightarrow> 64 word \<times> bool \<Rightarrow> channel_update_row list" where
  "partition_rows E db ids threshold k = sort_key (\<lambda>r. - cur_seen r) (filter (\<lambda>r. update_row_key r = k)
     (le_scan_window E (filter (\<lambda>r. cur_short_channel_id r \<in> set ids \<and> cur_seen r \<ge> to_timestamp threshold) (db_channel_updates db))))"

lemma set_partition_rows:
  assumes "reorders (le_scan_window E)"
  shows "set (partition_rows E db ids threshold (scid, b)) =
    {r \<in> rows_of db scid b. scid \<in> set ids \<and> to_timestamp threshold \<le> cur_seen r}"
  by (auto simp: partition_rows_def reorders_set [OF assms] rows_of_def)

lemma distinct_successors_of:
  assumes sc: "reorders (le_scan_window E)"
  shows "r \<in> set (distinct_successor_rows E db ids threshold) \<longleftrightarrow>
    r \<in> fst ` set (filter snd (annotate_successors update_row_differs (partition_rows E db ids threshold (update_row_key r))))"
proof -
  let ?rows = "le_scan_window E (filter (\<lambda>r. cur_short_channel_id r \<in> set ids \<and> cur_seen r \<ge> to_timestamp threshold) (db_channel_updates db))"
  define F where "F k = fst ` set (filter snd (annotate_successors update_row_differs (partition_rows E db ids threshold k)))" for k
  have all: "set (distinct_successor_rows E db ids threshold) = (\<Union>k \<in> update_row_key ` set ?rows. F k)"
    by (simp add: distinct_successor_rows_def Let_def F_def partition_rows_def filter_concat o_def image_UN)
  have "F k \<subseteq> fst ` set (annotate_successors update_row_differs (partition_rows E db ids threshold k))" for k
    unfolding F_def by (intro image_mono) (simp add: subset_iff)
  then have sub: "F k \<subseteq> {r \<in> set ?rows. update_row_key r = k}" for k
    unfolding set_annotate partition_rows_def by (simp only: set_sort set_filter)
  have "r \<in> (\<Union>k \<in> update_row_key ` set ?rows. F k) \<longleftrightarrow> r \<in> F (update_row_key r)"
  proof
    assume "r \<in> F (update_row_key r)"
    with sub [of "update_row_key r"] show "r \<in> (\<Union>k \<in> update_row_key ` set ?rows. F k)" by blast
  next
    assume "r \<in> (\<Union>k \<in> update_row_key ` set ?rows. F k)"
    then obtain k where "r \<in> F k" by blast
    with sub [of k] show "r \<in> F (update_row_key r)" by blast
  qed
  then show ?thesis by (simp only: all F_def)
qed

lemma mutated_update_in_partition:
  assumes ok: "lookup_ok E db" and q: "q \<in> set (mutated_updates E db ids threshold)"
  shows "q \<in> fst ` set (filter snd (annotate_successors update_row_differs (partition_rows E db ids threshold (update_row_key q))))"
    and "q \<in> set (partition_rows E db ids threshold (update_row_key q))"
proof -
  have sc: "reorders (le_scan_window E)" "reorders (le_scan_mutated E)" using ok by (simp_all add: lookup_ok_def)
  have "q \<in> set (distinct_successor_rows E db ids threshold)"
    using distinct_on_first(1) [OF q [unfolded mutated_updates_def]] by (simp add: reorders_set [OF sc(2)])
  then show flagged: "q \<in> fst ` set (filter snd (annotate_successors update_row_differs (partition_rows E db ids threshold (update_row_key q))))"
    using distinct_successors_of [OF sc(1)] by simp
  have "fst ` set (filter snd (annotate_successors update_row_differs (partition_rows E db ids threshold (update_row_key q)))) \<subseteq>
      set (partition_rows E db ids threshold (update_row_key q))"
    using set_annotate [of update_row_differs "partition_rows E db ids threshold (update_row_key q)"] by auto
  with flagged show "q \<in> set (partition_rows E db ids threshold (update_row_key q))" by blast
qed

text \<open>A row of the partition with a higher timestamp than the row returned is no change.\<close>

lemma mutated_update_latest_change:
  assumes ok: "lookup_ok E db" and q: "q \<in> set (mutated_updates E db ids threshold)"
    and i: "i < length (partition_rows E db ids threshold (update_row_key q))"
    and later: "cur_timestamp q < cur_timestamp (partition_rows E db ids threshold (update_row_key q) ! i)"
  shows "Suc i < length (partition_rows E db ids threshold (update_row_key q)) \<and>
    same_policy (partition_rows E db ids threshold (update_row_key q) ! i) (partition_rows E db ids threshold (update_row_key q) ! Suc i)"
proof -
  have sc: "reorders (le_scan_window E)" "reorders (le_scan_mutated E)" using ok by (simp_all add: lookup_ok_def)
  let ?part = "partition_rows E db ids threshold (update_row_key q)"
  let ?r = "?part ! i"
  note part = set_partition_rows [OF sc(1), of db ids threshold "cur_short_channel_id q" "cur_direction q"]
  have "?r \<in> set ?part" using i by simp
  then have key: "update_row_key ?r = update_row_key q" by (auto simp: part rows_of_def)
  note first = distinct_on_first [OF q [unfolded mutated_updates_def]]
  have "?r \<notin> set (distinct_successor_rows E db ids threshold)"
    using first(2) [of ?r] key later by (auto simp: reorders_set [OF sc(2)] less_eq_prod_def)
  then have "?r \<notin> fst ` set (filter snd (annotate_successors update_row_differs ?part))"
    unfolding distinct_successors_of [OF sc(1)] key .
  from unflagged_successor [OF i this] show ?thesis by (simp add: update_row_differs_policy)
qed

text \<open>
  Updates seen at different times, and later seen means higher timestamp, as for gossip that arrives in
  the order it was made.
\<close>

definition timestamps_follow :: "channel_update_row set \<Rightarrow> bool" where
  "timestamps_follow rows \<longleftrightarrow> (\<forall>r \<in> rows. \<forall>r' \<in> rows. (r \<noteq> r' \<longrightarrow> cur_seen r \<noteq> cur_seen r') \<and>
     (cur_seen r < cur_seen r' \<longrightarrow> cur_timestamp r < cur_timestamp r'))"

lemma mutated_update_is_first:
  assumes ok: "lookup_ok E db" and q: "q \<in> set (mutated_updates E db ids threshold)" and follow: "timestamps_follow (rows_of db (cur_short_channel_id q) (cur_direction q))"
  shows "\<exists>flagged. map fst (filter snd (annotate_successors update_row_differs
    (partition_rows E db ids threshold (update_row_key q)))) = q # flagged"
proof -
  have sc: "reorders (le_scan_window E)" "reorders (le_scan_mutated E)" using ok by (simp_all add: lookup_ok_def)
  let ?part = "partition_rows E db ids threshold (update_row_key q)"
  let ?flagged = "map fst (filter snd (annotate_successors update_row_differs ?part))"
  note first = distinct_on_first [OF q [unfolded mutated_updates_def]]
  have "q \<in> set ?flagged" using mutated_update_in_partition(1) [OF ok q] by simp
  then obtain h rest where h: "?flagged = h # rest" by (cases ?flagged) auto
  have sub: "set ?flagged \<subseteq> set ?part" using set_annotate [of update_row_differs ?part] by auto
  note part = set_partition_rows [OF sc(1), of db ids threshold "cur_short_channel_id q" "cur_direction q"]
  have hp: "h \<in> set ?part" using h sub by simp
  then have hk: "update_row_key h = update_row_key q" by (auto simp: part rows_of_def)
  have "h \<in> set (distinct_successor_rows E db ids threshold)"
    unfolding distinct_successors_of [OF sc(1)] hk using h by (metis list.set_intros(1) list.set_map)
  then have "cur_timestamp h \<le> cur_timestamp q" using first(2) [of h] hk by (auto simp: reorders_set [OF sc(2)] less_eq_prod_def)
  moreover have "cur_seen q \<le> cur_seen h"
  proof -
    have "sorted (map (\<lambda>r. - cur_seen r) (map fst (annotate_successors update_row_differs ?part)))"
      by (simp add: map_fst_annotate partition_rows_def)
    then have "sorted (map (\<lambda>r. - cur_seen r) ?flagged)" unfolding map_map by (rule sorted_filter)
    with h \<open>q \<in> set ?flagged\<close> show ?thesis by auto
  qed
  moreover have "q \<in> set ?part" using \<open>q \<in> set ?flagged\<close> sub by blast
  ultimately have "h = q"
    using follow hp by (auto simp: part timestamps_follow_def) (metis not_le order_antisym_conv)
  with h show ?thesis by simp
qed

lemma mutated_update_unchanged:
  assumes ok: "lookup_ok E db" and q: "q \<in> set (mutated_updates E db ids threshold)"
    and follow: "timestamps_follow (rows_of db (cur_short_channel_id q) (cur_direction q))"
    and r: "r \<in> rows_of db (cur_short_channel_id q) (cur_direction q)" "cur_seen q \<le> cur_seen r"
  shows "\<not> update_row_differs q r" and "to_timestamp threshold \<le> cur_seen q"
proof -
  have sc: "reorders (le_scan_window E)" using ok by (simp add: lookup_ok_def)
  let ?part = "partition_rows E db ids threshold (update_row_key q)"
  note part = set_partition_rows [OF sc, of db ids threshold "cur_short_channel_id q" "cur_direction q"]
  from mutated_update_is_first [OF ok q follow] obtain flagged where
    "map fst (filter snd (annotate_successors update_row_differs ?part)) = q # flagged" by (elim exE)
  from first_flagged [OF this] obtain newer older where
    split: "?part = newer @ q # older" and newer: "\<forall>r \<in> set newer. \<not> update_row_differs r q" by blast
  have qp: "q \<in> set ?part" by (simp add: split)
  then show t: "to_timestamp threshold \<le> cur_seen q" using part by blast
  have "r \<in> set ?part" using part qp r t by auto
  then consider "r \<in> set newer" | "r = q" | "r \<in> set older" using split by auto
  then show "\<not> update_row_differs q r"
  proof cases
    case 3
    have "sorted (map (\<lambda>r. - cur_seen r) ?part)" by (simp add: partition_rows_def)
    then have "cur_seen r \<le> cur_seen q" using 3 unfolding split by (auto simp: sorted_append)
    then have "r = q" using follow r qp part by (auto simp: timestamps_follow_def)
    then show ?thesis by (simp add: update_row_differs_def)
  qed (use newer update_row_differs_sym in \<open>auto simp: update_row_differs_def\<close>)
qed

text \<open>
  C7. A channel is only reminded of when one of its directions has not changed for more than six days.
  For any database: the direction has a stored update q, seen within the pruning interval and before
  the reminder age, such that no update of the direction in that interval with a higher timestamp than q
  is a change, that is, each is preceded in the order of the times seen by an update with the same
  values in the six compared columns. The query orders its window by the time seen but picks the latest
  change by the timestamp, so this alone does not bound when the last change was seen. It does when the
  updates of the direction were seen at different times and in the order of their timestamps
  (\<open>timestamps_follow\<close>): then every update seen since q has the values of q.
\<close>

theorem reminder_due_unchanged:
  assumes "lookup_ok E db" and "reminder_due E db ids last_sync current scid"
  shows "\<exists>b rows. \<exists>q \<in> set rows.
    set rows = {r \<in> rows_of db scid b. to_timestamp (current - PRUNE_INTERVAL) \<le> cur_seen r} \<and> sorted_wrt (\<lambda>r r'. cur_seen r' \<le> cur_seen r) rows \<and>
    seen_u32 E (cur_seen q) < f64_as_u32 (current - CHANNEL_REMINDER_AGE) \<and>
    (\<forall>i < length rows. cur_timestamp q < cur_timestamp (rows ! i) \<longrightarrow> Suc i < length rows \<and> same_policy (rows ! i) (rows ! Suc i)) \<and>
    (timestamps_follow (rows_of db scid b) \<longrightarrow> (\<forall>r \<in> rows_of db scid b. cur_seen q \<le> cur_seen r \<longrightarrow> same_policy r q))"
proof -
  from assms(2) obtain q where q: "q \<in> set (mutated_updates E db ids (current - PRUNE_INTERVAL))"
    "cur_short_channel_id q = scid" "seen_u32 E (cur_seen q) < f64_as_u32 (current - CHANNEL_REMINDER_AGE)"
    by (auto simp: reminder_due_def)
  have sc: "reorders (le_scan_window E)" using assms(1) by (simp add: lookup_ok_def)
  let ?rows = "partition_rows E db ids (current - PRUNE_INTERVAL) (update_row_key q)"
  have in_part: "q \<in> set ?rows" by (rule mutated_update_in_partition [OF assms(1) q(1)])
  have "sorted (map (\<lambda>r. - cur_seen r) ?rows)" by (simp add: partition_rows_def)
  then have sorted: "sorted_wrt (\<lambda>r r'. cur_seen r' \<le> cur_seen r) ?rows" by (simp add: sorted_map)
  have ids: "scid \<in> set ids" and set: "set ?rows = {r \<in> rows_of db scid (cur_direction q). to_timestamp (current - PRUNE_INTERVAL) \<le> cur_seen r}"
    using in_part q(2) by (auto simp: set_partition_rows [OF sc])
  have "same_policy r q" if "timestamps_follow (rows_of db scid (cur_direction q))" "r \<in> rows_of db scid (cur_direction q)" "cur_seen q \<le> cur_seen r" for r
    using mutated_update_unchanged(1) [OF assms(1) q(1), unfolded q(2), OF that] by (simp add: update_row_differs_policy same_policy_def)
  with mutated_update_latest_change [OF assms(1) q(1)] show ?thesis
    by (intro exI [of _ "cur_direction q"] exI [of _ ?rows] bexI [OF _ in_part] conjI set sorted q(3)) blast+
qed
lemma sample_reminder_due: "reminder_due sample_lookup sample_db [100, 200] 1699950000 1700524800 100"
  by (simp add: reminder_due_def should_snapshot_include_reminders_def saturating_sub_def f64_as_u32_def CHANNEL_REMINDER_AGE_def
      PRUNE_INTERVAL_def mutated_updates_def distinct_successor_rows_def sample_db_def sample_lookup_def sample_update_row_def
      seconds_def to_timestamp_def Let_def less_prod_def less_eq_prod_def update_row_differs_def seen_u32_def)

lemma sample_timestamps_follow: "timestamps_follow (rows_of sample_db 100 b)"
  by (auto simp: timestamps_follow_def rows_of_def sample_db_def sample_row_fields seconds_def) (simp_all add: sample_update_row_def)

theorem reminder_due_unchanged_witness:
  "\<exists>b. \<exists>q \<in> rows_of sample_db 100 b. to_timestamp (1700524800 - PRUNE_INTERVAL) \<le> cur_seen q \<and>
    seen_u32 sample_lookup (cur_seen q) < f64_as_u32 (1700524800 - CHANNEL_REMINDER_AGE) \<and>
    (\<forall>r \<in> rows_of sample_db 100 b. cur_seen q \<le> cur_seen r \<longrightarrow> same_policy r q)"
  using reminder_due_unchanged [OF sample_lookup_ok sample_reminder_due] sample_timestamps_follow by blast

end
