(* ===== verification/Snapshot_Properties.thy ===== *)
theory Snapshot_Properties
  imports Snapshot_Serving Reminder_Properties
begin

text \<open>
The properties of src/snapshot.rs: the scopes, what one round of the job leaves in the cache directory
  for its readers, and when the next round runs.
\<close>

section \<open>What a round relies on\<close>

text \<open>The tables, the graph and the clock a scope is computed from are well formed.\<close>

definition scope_env_ok :: "snapshot_env \<Rightarrow> network_graph \<Rightarrow> u64 \<Rightarrow> bool" where
  "scope_env_ok S g scope \<longleftrightarrow> hash_orders_ok (se_orders S scope) \<and> checked_sub (se_clock S scope) CHANNEL_REMINDER_AGE \<noteq> None \<and>
     lookup_ok (se_lookup S scope) (se_database S scope) \<and> nodes_table_ok (se_lookup S scope) (se_database S scope) \<and>
     hm_inv (graph_node_deltas (se_prune S g)) \<and> stored_gossip_ok (se_wire S) (se_lookup S scope) (se_database S scope) (se_prune S g)"

lemma scope_env_ready:
  assumes "wire_ok (se_wire S) R" and "snapshot_generation_interval (se_env S) = Inr interval"
    and "config_network (se_env S) = Inr net" and "1640995200 \<le> r" and "scope_env_ok S g scope"
  shows "scope_ready S r g scope"
proof -
  from assms(5) obtain t where ok: "hash_orders_ok (se_orders S scope)" "checked_sub (se_clock S scope) CHANNEL_REMINDER_AGE = Some t"
    "lookup_ok (se_lookup S scope) (se_database S scope)" "nodes_table_ok (se_lookup S scope) (se_database S scope)"
    "hm_inv (graph_node_deltas (se_prune S g))" "stored_gossip_ok (se_wire S) (se_lookup S scope) (se_database S scope) (se_prune S g)"
    by (auto simp: scope_env_ok_def)
  have p: "PRUNE_INTERVAL \<le> reference_or (Some r) now" for now
    using assms(4) by (auto simp: reference_or_def PRUNE_INTERVAL_def intro: order_trans [rotated])
  have "\<exists>s resp. scope_delta S r scope g = Inr (s, se_prune S g) \<and> serialize_delta (se_wire S) (se_env S) (se_orders S scope) s v = Inr resp" for v
    unfolding scope_delta_def
    by (rule calculated_snapshot [where prune = "se_prune S" and g = g and reference = "Some r" and version = v,
          OF assms(1) ok(1) assms(2,3) ok(2-6) p p]) blast
  from this [of 1] this [of 2] show ?thesis by (auto simp: scope_ready_def no_panic_iff)
qed

section \<open>The scopes\<close>

lemma interval_bounds:
  assumes "0 < (interval :: u32)"
  shows "0 < (ucast interval :: u64)" and "unat (ucast interval :: u64) = unat interval" and "unat interval < 2 ^ 32"
proof -
  show lt: "unat interval < 2 ^ 32" using unsigned_less [of interval, where ?'a = nat] by simp
  show u: "unat (ucast interval :: u64) = unat interval" using lt by (simp add: unsigned_ucast_eq take_bit_nat_eq_self)
  show "0 < (ucast interval :: u64)" using assms by (simp add: word_less_nat_alt u)
qed

lemma snapshot_scopes_shape:
  assumes "snapshot_generation_interval e = Inr interval"
  shows "\<exists>n scopes. snapshot_scopes (ucast interval) = Some (scopes @ [- 1]) \<and>
    map unat scopes = map (\<lambda>i. unat interval * 2 ^ i) [0 ..< Suc n] \<and>
    (\<forall>i < n. unat interval * 2 ^ i < unat MAX_SNAPSHOT_SCOPE) \<and> unat MAX_SNAPSHOT_SCOPE \<le> unat interval * 2 ^ n \<and>
    sorted_wrt (<) (scopes @ [- 1])"
proof -
  note i = interval_bounds [OF snapshot_generation_interval_cases(1) [OF assms]]
  from scope_loop_result [OF i(1), of "[]", unfolded i(2)] obtain n scopes where
    s: "snapshot_scopes (ucast interval) = Some (scopes @ [- 1])" "map unat scopes = map (\<lambda>i. unat interval * 2 ^ i) [0 ..< Suc n]"
      "\<forall>i < n. unat interval * 2 ^ i < 1814400" "1814400 \<le> unat interval * 2 ^ n"
    unfolding snapshot_scopes_def by auto
  have pos: "0 < unat interval" using snapshot_generation_interval_cases(1) [OF assms] by (simp add: word_less_nat_alt)
  have top: "unat interval * 2 ^ i < 2 ^ 64 - 1" if "i < Suc n" for i
  proof (cases i)
    case (Suc j)
    then have "unat interval * 2 ^ j < 1814400" using s(3) that by simp
    then show ?thesis by (simp add: Suc)
  qed (use i(3) in simp)
  have max: "unat (- 1 :: u64) = 2 ^ 64 - 1" by (simp add: unsigned_minus_1_eq_mask mask_eq_exp_minus_1)
  have "sorted_wrt (<) (map (\<lambda>i. unat interval * 2 ^ i) [0 ..< Suc n] @ [unat (- 1 :: u64)])"
    unfolding sorted_wrt_append sorted_wrt_map
    using top pos by (auto simp: max simp del: upt_Suc intro!: sorted_wrt_mono_rel [OF _ sorted_wrt_upt])
  then have "sorted_wrt (<) (map unat (scopes @ [- 1]))" by (simp only: map_append s(2) list.map)
  then have "sorted_wrt (<) (scopes @ [- 1])"
    unfolding sorted_wrt_map by (rule sorted_wrt_mono_rel [rotated]) (simp add: word_less_nat_alt)
  with s show ?thesis by (intro exI [of _ n] exI [of _ scopes]) (simp add: MAX_SNAPSHOT_SCOPE_def)
qed

lemma snapshot_scopes_facts:
  assumes "snapshot_generation_interval e = Inr interval" and "snapshot_scopes (ucast interval) = Some scopes"
  shows "distinct scopes" and "- 1 \<in> set scopes" and "sorted scopes"
proof -
  from snapshot_scopes_shape [OF assms(1)] assms(2) obtain ss where "scopes = ss @ [- 1]" "sorted_wrt (<) scopes" by auto
  then show "distinct scopes" "- 1 \<in> set scopes" "sorted scopes" by (auto simp only: strict_sorted_iff set_append list.set)
qed

section \<open>Times\<close>

lemma unat_round_down:
  assumes "round_down_to_nearest_multiple t m = Inr r"
  shows "unat r = unat t div unat m * unat m" and "unat m dvd unat r"
proof -
  have "r = t - t mod m" using assms by (auto simp: round_down_to_nearest_multiple_def Let_def split: if_splits)
  moreover have "t mod m \<le> t" by (simp add: word_le_nat_alt unat_mod)
  ultimately have "unat r = unat t - unat t mod unat m" by (simp only: unat_sub unat_mod)
  then show "unat r = unat t div unat m * unat m" by (simp only: minus_mod_eq_div_mult)
  then show "unat m dvd unat r" by simp
qed

lemma symlink_count_None:
  assumes "0 < g"
  shows "symlink_count r g None = Inr ((r - 1640995200) div g)"
  using assms by (auto simp: symlink_count_def)

text \<open>A multiple of the granularity between the start of 2022 and the reference is one of the linked timestamps.\<close>

lemma linked_timestamp:
  assumes g: "0 < g" and r: "1640995200 \<le> r" and dvd: "unat g dvd unat r" "unat g dvd unat k"
    and k: "1640995200 + unat g \<le> unat k" "k < r"
  defines "i \<equiv> (unat r - unat k) div unat g"
  shows "i < unat ((r - 1640995200) div g)" and "i \<noteq> 0" and "canonical_last_sync_timestamp r g (word_of_nat i) = k"
proof -
  have g': "0 < unat g" using g by (simp add: word_less_nat_alt)
  have kr: "unat k < unat r" using k(2) by (simp add: word_less_nat_alt)
  have "unat g dvd unat r - unat k" using dvd by (simp add: dvd_diff_nat)
  then have ig: "i * unat g = unat r - unat k" unfolding i_def by simp
  show i0: "i \<noteq> 0" using ig kr by (cases i) simp_all
  have c: "unat ((r - 1640995200) div g) = (unat r - 1640995200) div unat g"
    using r by (simp add: unat_div unat_sub word_le_nat_alt)
  have "(i + 1) * unat g \<le> unat r - 1640995200" using ig k(1) kr by simp
  then have "i + 1 \<le> (unat r - 1640995200) div unat g" using g' by (simp only: less_eq_div_iff_mult_less_eq)
  then show i: "i < unat ((r - 1640995200) div g)" unfolding c by simp
  from canonical_times(1) [OF g r _ i] have "unat (canonical_last_sync_timestamp r g (word_of_nat i)) = unat r - i * unat g"
    using i0 by (simp add: c)
  also have "\<dots> = unat k" using ig kr by simp
  finally show "canonical_last_sync_timestamp r g (word_of_nat i) = k" by (simp only: word_unat_eq_iff)
qed

section \<open>Properties of a round\<close>

text \<open>One turn of the job, for tables that are well formed and a usable cache directory.\<close>

lemma turn_ok:
  fixes S :: snapshot_env
  defines "cache \<equiv> split_at_char (CHR ''/'') (cache_path (se_env S))"
  assumes wire: "wire_ok (se_wire S) R" and interval: "snapshot_generation_interval (se_env S) = Inr interval"
    and net: "config_network (se_env S) = Inr net" and scopes: "snapshot_scopes (ucast interval) = Some scopes"
    and r: "round_down_to_nearest_multiple now (ucast interval) = Inr r" "1640995200 \<le> r"
    and ok: "cache_ok cache fs" and graphs: "\<forall>g \<in> graphs. se_prune S g \<in> graphs \<and> (\<forall>s \<in> set scopes. scope_env_ok S g s)" "graph \<in> graphs"
  shows "\<exists>fs' graph'. snapshot_gossip_turn S (ucast interval) scopes now t current (fs, graph) =
      Inr ((fs', graph'), time_until_next_generation (ucast interval) current + 5) \<and>
    graph' \<in> graphs \<and> cache_ok cache fs' \<and>
    (\<forall>i < unat ((r - 1640995200) div 10800). served S r 10800 scopes graphs cache fs' (word_of_nat i)) \<and>
    (\<exists>b. serialize_empty_blob (se_wire S) (se_env S) (se_genesis S) r 1 = Inr b \<and>
       read_file fs' (finalized_symlink_directory cache @ [timestamp_link r]) = Some b) \<and>
    fs_get fs' (finalized_symlink_directory cache @ [''v2'', timestamp_link r]) = None \<and>
    read_file fs' (finalized_symlink_directory cache @ [''update_time.txt'']) = Some (ascii (dec_string (unat t))) \<and>
    fs_get fs' (pending_snapshot_directory cache) = None \<and> fs_get fs' (pending_symlink_directory cache) = None"
proof -
  have g: "(ucast SYMLINK_GRANULARITY_INTERVAL :: u64) = 10800" "0 < (10800 :: u64)" by (simp_all add: SYMLINK_GRANULARITY_INTERVAL_def)
  note sf = snapshot_scopes_facts [OF interval scopes]
  have ready: "scope_ready S r g s" if "g \<in> graphs" "s \<in> set scopes" for g s
    using scope_env_ready [OF wire interval net r(2), of g s] graphs(1) that by blast
  have closed: "se_prune S g \<in> graphs" if "g \<in> graphs" for g using graphs(1) that by blast
  from round_ok [where S = S and graphs = graphs and r = r and t = t and now = now and interval = "ucast interval",
      OF ok net ready closed graphs(2) sf(1,2) r(1) g(2) r(2) symlink_count_None [OF g(2)]]
  show ?thesis by (fastforce simp: snapshot_gossip_turn_def g(1) cache_def)
qed

text \<open>
  C13. The loop that lists the snapshot scopes ends for every interval the configuration accepts. The
  scopes are the interval doubled again and again up to the first that reaches three weeks, and then
  the unlimited scope, in strictly increasing order.
\<close>


theorem scopes_double_to_three_weeks:
  assumes "snapshot_generation_interval e = Inr interval"
  shows "\<exists>n scopes. snapshot_scopes (ucast interval) = Some (scopes @ [- 1]) \<and>
    map unat scopes = map (\<lambda>i. unat interval * 2 ^ i) [0 ..< Suc n] \<and>
    (\<forall>i < n. unat interval * 2 ^ i < unat MAX_SNAPSHOT_SCOPE) \<and> unat MAX_SNAPSHOT_SCOPE \<le> unat interval * 2 ^ n \<and>
    sorted_wrt (<) (scopes @ [- 1])"
  by (rule snapshot_scopes_shape [OF assms])

theorem scopes_double_to_three_weeks_witness:
  "\<exists>n scopes. snapshot_scopes 10800 = Some (scopes @ [- 1]) \<and> map unat scopes = map (\<lambda>i. 10800 * 2 ^ i) [0 ..< Suc n] \<and>
    sorted_wrt (<) (scopes @ [- 1])"
  using scopes_double_to_three_weeks [OF sample_env_interval] by (auto simp del: upt_Suc)

definition sample_round :: snapshot_env where
  "sample_round = \<lparr>se_env = sample_env, se_genesis = sample_genesis, se_wire = bolt_wire, se_prune = (\<lambda>g. g),
     se_orders = (\<lambda>_. sample_orders), se_lookup = (\<lambda>_. sample_lookup), se_database = (\<lambda>_. sample_db), se_clock = (\<lambda>_. 1700006405)\<rparr>"

lemma sample_round_fields [simp]:
  "se_env sample_round = sample_env" "se_genesis sample_round = sample_genesis" "se_wire sample_round = bolt_wire" "se_prune sample_round g = g"
  by (simp_all add: sample_round_def)

abbreviation sample_cache :: path where
  "sample_cache \<equiv> [''.'', ''res'']"

lemma sample_cache_path: "split_at_char (CHR ''/'') (cache_path sample_env) = sample_cache"
  by (simp add: cache_path_def sample_env_def env_or_def to_lowercase_def)

lemma sample_cache_ok: "cache_ok sample_cache []"
  by (simp add: cache_ok_def fs_tree_def fs_get_def)

lemma sample_round_ok: "\<forall>g \<in> {sample_graph}. se_prune sample_round g \<in> {sample_graph} \<and> (\<forall>s \<in> set scopes. scope_env_ok sample_round g s)"
  using sample_lookup_ok sample_nodes_ok sample_graph_inv sample_stored_gossip_ok sample_orders_ok sample_snapshot_clock
  by (simp add: scope_env_ok_def) (simp add: sample_round_def)

lemma sample_reference: "round_down_to_nearest_multiple 1700006405 (ucast (10800 :: u32)) = Inr 1700006400"
  by (simp add: round_down_to_nearest_multiple_def)

text \<open>
  C11. A round of the snapshot job never panics when the tables are well formed and the cache
  directory is usable, and the directory is usable for the next round again. Afterwards, for every
  linked timestamp and both versions, the file found through the link is the serialization of the
  delta of a scope that reaches back at least to that timestamp, and of the smallest such scope; the
  pending directories are gone and the update time can be read.
\<close>

theorem snapshot_round_serves:
  assumes "wire_ok (se_wire S) R" and "snapshot_generation_interval (se_env S) = Inr interval"
    and "config_network (se_env S) = Inr net" and "snapshot_scopes (ucast interval) = Some scopes"
    and "round_down_to_nearest_multiple now (ucast interval) = Inr r" and "1640995200 \<le> r"
    and "cache = split_at_char (CHR ''/'') (cache_path (se_env S))" and "cache_ok cache fs"
    and "\<forall>g \<in> graphs. se_prune S g \<in> graphs \<and> (\<forall>s \<in> set scopes. scope_env_ok S g s)" and "graph \<in> graphs"
  shows "\<exists>fs' graph' wait. snapshot_gossip_turn S (ucast interval) scopes now t current (fs, graph) = Inr ((fs', graph'), wait) \<and>
    graph' \<in> graphs \<and> cache_ok cache fs' \<and>
    (\<forall>i < unat ((r - 1640995200) div ucast SYMLINK_GRANULARITY_INTERVAL).
       served S r (ucast SYMLINK_GRANULARITY_INTERVAL) scopes graphs cache fs' (word_of_nat i)) \<and>
    read_file fs' (finalized_symlink_directory cache @ [''update_time.txt'']) = Some (ascii (dec_string (unat t))) \<and>
    fs_get fs' (pending_snapshot_directory cache) = None \<and> fs_get fs' (pending_symlink_directory cache) = None"
proof -
  have g: "(ucast SYMLINK_GRANULARITY_INTERVAL :: u64) = 10800" by (simp add: SYMLINK_GRANULARITY_INTERVAL_def)
  from turn_ok [OF assms(1-6) assms(8) [unfolded assms(7)] assms(9,10), of t current] show ?thesis
    unfolding g assms(7) by blast
qed

theorem snapshot_round_serves_witness:
  "\<exists>scopes fs' graph' wait. snapshot_gossip_turn sample_round 10800 scopes 1700006405 1700006410 1700006411 ([], sample_graph) =
      Inr ((fs', graph'), wait) \<and> cache_ok sample_cache fs' \<and> served sample_round 1700006400 10800 scopes {sample_graph} sample_cache fs' 0"
proof -
  from snapshot_scopes_shape [OF sample_env_interval] obtain scopes where s: "snapshot_scopes (ucast (10800 :: u32)) = Some scopes" by blast
  have n: "0 < unat ((1700006400 - 1640995200 :: u64) div ucast SYMLINK_GRANULARITY_INTERVAL)" by (simp add: SYMLINK_GRANULARITY_INTERVAL_def)
  have "\<exists>fs' graph' wait. snapshot_gossip_turn sample_round (ucast (10800 :: u32)) scopes 1700006405 1700006410 1700006411 ([], sample_graph) =
      Inr ((fs', graph'), wait) \<and> graph' \<in> {sample_graph} \<and> cache_ok sample_cache fs' \<and>
    (\<forall>i < unat ((1700006400 - 1640995200 :: u64) div ucast SYMLINK_GRANULARITY_INTERVAL).
       served sample_round 1700006400 (ucast SYMLINK_GRANULARITY_INTERVAL) scopes {sample_graph} sample_cache fs' (word_of_nat i)) \<and>
    read_file fs' (finalized_symlink_directory sample_cache @ [''update_time.txt'']) = Some (ascii (dec_string (unat (1700006410 :: u64)))) \<and>
    fs_get fs' (pending_snapshot_directory sample_cache) = None \<and> fs_get fs' (pending_symlink_directory sample_cache) = None"
    by (rule snapshot_round_serves [where R = bolt_reader and net = Bitcoin])
      (use bolt_wire_ok sample_env_interval sample_env_network s sample_reference sample_cache_path sample_cache_ok sample_round_ok in \<open>simp_all\<close>)
  then obtain fs' graph' wait where
    w: "snapshot_gossip_turn sample_round (ucast (10800 :: u32)) scopes 1700006405 1700006410 1700006411 ([], sample_graph) = Inr ((fs', graph'), wait)"
      "cache_ok sample_cache fs'" "served sample_round 1700006400 (ucast SYMLINK_GRANULARITY_INTERVAL) scopes {sample_graph} sample_cache fs' (word_of_nat 0)"
    using n by blast
  show ?thesis using w by (intro exI [of _ scopes] exI [of _ fs'] exI [of _ graph'] exI [of _ wait]) (simp add: SYMLINK_GRANULARITY_INTERVAL_def)
qed

text \<open>
  C12. A timestamp handed out by an earlier round is always served by a later one. A snapshot
  carries a multiple of the snapshot interval as its timestamp; for every such timestamp after the
  first three hours of 2022 and before the new reference, and for the timestamp 0 of a first sync, a
  link for each version leads to a snapshot whose scope covers everything since then.
\<close>

theorem handed_out_timestamps_served:
  assumes "wire_ok (se_wire S) R" and "snapshot_generation_interval (se_env S) = Inr interval"
    and "config_network (se_env S) = Inr net" and "snapshot_scopes (ucast interval) = Some scopes"
    and "round_down_to_nearest_multiple now (ucast interval) = Inr r" and "1641016800 \<le> r"
    and "cache = split_at_char (CHR ''/'') (cache_path (se_env S))" and "cache_ok cache fs"
    and "\<forall>g \<in> graphs. se_prune S g \<in> graphs \<and> (\<forall>s \<in> set scopes. scope_env_ok S g s)" and "graph \<in> graphs"
    and k: "k = 0 \<or> (round_down_to_nearest_multiple earlier (ucast interval) = Inr k \<and> 1641006000 \<le> k \<and> k < r)"
  shows "\<exists>fs' graph' wait. snapshot_gossip_turn S (ucast interval) scopes now t current (fs, graph) = Inr ((fs', graph'), wait) \<and>
    (\<forall>v \<in> {1, 2}. \<exists>scope d. read_file fs' (finalized_symlink_directory cache @ version_dir v @ [timestamp_link k]) = Some d \<and>
       snapshot_bytes S r graphs scope v d \<and> saturating_sub r scope \<le> k)"
proof -
  have r: "1640995200 \<le> r" using assms(6) by (rule order_trans [rotated]) simp
  let ?n = "unat ((r - 1640995200) div 10800)"
  note int = snapshot_generation_interval_cases [OF assms(2)]
  have dvd: "unat (10800 :: u64) dvd unat x" if "round_down_to_nearest_multiple t (ucast interval) = Inr x" for t x
  proof -
    have "unat (interval mod 10800) = 0" using int(2) by (simp add: SYMLINK_GRANULARITY_INTERVAL_def)
    then have "10800 dvd unat interval" by (simp add: unat_mod mod_eq_0_iff_dvd)
    also have "unat interval dvd unat x" using unat_round_down(2) [OF that] interval_bounds(2) [OF int(1)] by simp
    finally show ?thesis by simp
  qed
  have "\<exists>i < ?n. canonical_last_sync_timestamp r 10800 (word_of_nat i) = k"
  proof (cases "k = 0")
    case True
    have "0 < ?n" using assms(6) by (simp add: unat_div unat_sub word_le_nat_alt div_greater_zero_iff)
    then show ?thesis using True by (intro exI [of _ 0]) (simp add: canonical_last_sync_timestamp_def)
  next
    case False
    then have k': "unat (10800 :: u64) dvd unat k" "1640995200 + unat (10800 :: u64) \<le> unat k" "k < r"
      using k dvd by (auto simp: word_le_nat_alt)
    have "(0 :: u64) < 10800" by simp
    from linked_timestamp [OF this r dvd [OF assms(5)] k'] show ?thesis by blast
  qed
  then obtain i where i: "i < ?n" "canonical_last_sync_timestamp r 10800 (word_of_nat i) = k" by blast
  from turn_ok [OF assms(1-5) r assms(8) [unfolded assms(7)] assms(9,10), of t current] obtain fs' graph' where
    "snapshot_gossip_turn S (ucast interval) scopes now t current (fs, graph) = Inr ((fs', graph'), time_until_next_generation (ucast interval) current + 5)"
    "served S r 10800 scopes graphs cache fs' (word_of_nat i)" unfolding assms(7) using i(1) by blast
  then show ?thesis unfolding served_def i(2) by blast
qed

theorem handed_out_timestamps_served_witness:
  "\<exists>scopes fs' graph' wait scope d. snapshot_gossip_turn sample_round 10800 scopes 1700006405 1700006410 1700006411 ([], sample_graph) =
      Inr ((fs', graph'), wait) \<and>
    read_file fs' [''.'', ''res'', ''symlinks'', ''v2'', timestamp_link 1699909200] = Some d \<and>
    snapshot_bytes sample_round 1700006400 {sample_graph} scope 2 d \<and> saturating_sub 1700006400 scope \<le> 1699909200"
proof -
  from snapshot_scopes_shape [OF sample_env_interval] obtain scopes where s: "snapshot_scopes (ucast (10800 :: u32)) = Some scopes" by blast
  have "\<exists>fs' graph' wait. snapshot_gossip_turn sample_round (ucast (10800 :: u32)) scopes 1700006405 1700006410 1700006411 ([], sample_graph) =
      Inr ((fs', graph'), wait) \<and>
    (\<forall>v \<in> {1, 2}. \<exists>scope d. read_file fs' (finalized_symlink_directory sample_cache @ version_dir v @ [timestamp_link 1699909200]) = Some d \<and>
       snapshot_bytes sample_round 1700006400 {sample_graph} scope v d \<and> saturating_sub 1700006400 scope \<le> 1699909200)"
    by (rule handed_out_timestamps_served [where R = bolt_reader and net = Bitcoin and earlier = 1699909205])
      (use bolt_wire_ok sample_env_interval sample_env_network s sample_reference sample_cache_path sample_cache_ok sample_round_ok
        in \<open>simp_all add: round_down_to_nearest_multiple_def\<close>)
  then obtain fs' graph' wait scope d where
    w: "snapshot_gossip_turn sample_round (ucast (10800 :: u32)) scopes 1700006405 1700006410 1700006411 ([], sample_graph) = Inr ((fs', graph'), wait)"
      "read_file fs' (finalized_symlink_directory sample_cache @ version_dir 2 @ [timestamp_link 1699909200]) = Some d"
      "snapshot_bytes sample_round 1700006400 {sample_graph} scope 2 d" "saturating_sub 1700006400 scope \<le> 1699909200" by blast
  show ?thesis
    using w by (intro exI [of _ scopes] exI [of _ fs'] exI [of _ graph'] exI [of _ wait] exI [of _ scope] exI [of _ d])
      (simp add: finalized_symlink_directory_def version_dir_def)
qed

text \<open>
  C15. The empty delta for a client that is already up to date is linked for version 1 only: after a
  round, the link named after the reference timestamp leads to the empty blob in the directory of
  version 1 and does not exist in the directory of version 2, although the file itself is written for
  both versions.
\<close>

theorem empty_delta_only_for_version_1:
  assumes "wire_ok (se_wire S) R" and "snapshot_generation_interval (se_env S) = Inr interval"
    and "config_network (se_env S) = Inr net" and "snapshot_scopes (ucast interval) = Some scopes"
    and "round_down_to_nearest_multiple now (ucast interval) = Inr r" and "1640995200 \<le> r"
    and "cache = split_at_char (CHR ''/'') (cache_path (se_env S))" and "cache_ok cache fs"
    and "\<forall>g \<in> graphs. se_prune S g \<in> graphs \<and> (\<forall>s \<in> set scopes. scope_env_ok S g s)" and "graph \<in> graphs"
  shows "\<exists>fs' graph' wait b. snapshot_gossip_turn S (ucast interval) scopes now t current (fs, graph) = Inr ((fs', graph'), wait) \<and>
    serialize_empty_blob (se_wire S) (se_env S) (se_genesis S) r 1 = Inr b \<and>
    read_file fs' (finalized_symlink_directory cache @ [timestamp_link r]) = Some b \<and>
    read_file fs' (finalized_symlink_directory cache @ [''v2'', timestamp_link r]) = None"
proof -
  have none: "read_file fs' p = None" if "fs_get fs' p = None" for fs' p using that by (simp add: read_file_def follow_def)
  from turn_ok [OF assms(1-6) assms(8) [unfolded assms(7)] assms(9,10), of t current] show ?thesis
    unfolding assms(7) using none by blast
qed

theorem empty_delta_only_for_version_1_witness:
  "\<exists>scopes fs' graph' wait b. snapshot_gossip_turn sample_round 10800 scopes 1700006405 1700006410 1700006411 ([], sample_graph) =
      Inr ((fs', graph'), wait) \<and>
    read_file fs' [''.'', ''res'', ''symlinks'', timestamp_link 1700006400] = Some b \<and>
    read_file fs' [''.'', ''res'', ''symlinks'', ''v2'', timestamp_link 1700006400] = None"
proof -
  from snapshot_scopes_shape [OF sample_env_interval] obtain scopes where s: "snapshot_scopes (ucast (10800 :: u32)) = Some scopes" by blast
  have "\<exists>fs' graph' wait b. snapshot_gossip_turn sample_round (ucast (10800 :: u32)) scopes 1700006405 1700006410 1700006411 ([], sample_graph) =
      Inr ((fs', graph'), wait) \<and> serialize_empty_blob (se_wire sample_round) (se_env sample_round) (se_genesis sample_round) 1700006400 1 = Inr b \<and>
    read_file fs' (finalized_symlink_directory sample_cache @ [timestamp_link 1700006400]) = Some b \<and>
    read_file fs' (finalized_symlink_directory sample_cache @ [''v2'', timestamp_link 1700006400]) = None"
    by (rule empty_delta_only_for_version_1 [where R = bolt_reader and net = Bitcoin and graphs = "{sample_graph}"])
      (use bolt_wire_ok sample_env_interval sample_env_network s sample_reference sample_cache_path sample_cache_ok sample_round_ok in \<open>simp_all\<close>)
  then show ?thesis by (auto simp: finalized_symlink_directory_def)
qed

text \<open>
  C14. The job wakes up in the next interval: if a round for one reference ends before the clock has
  left that interval, the sleep is positive and at most the interval plus five seconds, and the next
  round is for the reference one interval later, so no reference is skipped or repeated.
\<close>

theorem next_round_next_reference:
  assumes "snapshot_generation_interval e = Inr interval" and "current < 2 ^ 63"
    and "round_down_to_nearest_multiple current (ucast interval) = Inr r"
  shows "round_down_to_nearest_multiple (current + (time_until_next_generation (ucast interval) current + 5)) (ucast interval) =
      Inr (r + ucast interval) \<and>
    5 < time_until_next_generation (ucast interval) current + 5 \<and> time_until_next_generation (ucast interval) current \<le> ucast interval"
proof -
  let ?m = "unat interval" and ?i = "ucast interval :: u64" and ?t = "time_until_next_generation (ucast interval) current"
  note int = snapshot_generation_interval_cases [OF assms(1)]
  note b = interval_bounds [OF int(1)]
  have m: "10800 \<le> ?m"
  proof -
    have "unat (interval mod 10800) = 0" using int(2) by (simp add: SYMLINK_GRANULARITY_INTERVAL_def)
    then have "10800 dvd ?m" by (simp add: unat_mod mod_eq_0_iff_dvd)
    moreover have "0 < ?m" using int(1) by (simp add: word_less_nat_alt)
    ultimately show ?thesis by (rule dvd_imp_le)
  qed
  have c: "unat current < 2 ^ 63" using assms(2) by (simp add: word_less_nat_alt)
  have mod: "unat current mod ?m < ?m" using m by simp
  have t: "unat ?t = ?m - unat current mod ?m"
  proof -
    have "current mod ?i \<le> ?i" using mod by (simp add: word_le_nat_alt unat_mod b(2))
    then show ?thesis by (simp add: time_until_next_generation_def Let_def unat_sub unat_mod b(2))
  qed
  have t5: "unat (?t + 5) = ?m - unat current mod ?m + 5" using b(3) by (simp add: unat_word_ariths t)
  have wake: "unat (current + (?t + 5)) = (unat current div ?m + 1) * ?m + 5"
  proof -
    have "unat current + (?m - unat current mod ?m + 5) = (unat current div ?m + 1) * ?m + 5"
      using mod div_mult_mod_eq [of "unat current" ?m] by (simp only: add_mult_distrib mult_1)
    moreover have "unat (current + (?t + 5)) = unat current + (?m - unat current mod ?m + 5)"
      using b(3) c unat_word_ariths(1) [of current "?t + 5", unfolded t5] by simp
    ultimately show ?thesis by simp
  qed
  have "?i \<noteq> 0" using b(1) by simp
  then obtain r' where r': "round_down_to_nearest_multiple (current + (?t + 5)) ?i = Inr r'"
    by (simp only: round_down_to_nearest_multiple_def Let_def if_False)
  have "unat r' = (unat current div ?m + 1) * ?m"
    using m unat_round_down(1) [OF r', unfolded wake b(2)] by (simp add: div_add1_eq)
  moreover have "unat (r + ?i) = (unat current div ?m + 1) * ?m"
  proof -
    have "unat r = unat current div ?m * ?m" using unat_round_down(1) [OF assms(3)] by (simp add: b(2))
    have "unat r \<le> unat current" unfolding \<open>unat r = unat current div ?m * ?m\<close> by simp
    then have "unat r + unat ?i < 2 ^ LENGTH(64)" using b(3) c unfolding b(2) by simp
    then have "unat (r + ?i) = unat r + unat ?i" by (simp only: unat_word_ariths mod_less)
    with \<open>unat r = unat current div ?m * ?m\<close> show ?thesis by (simp add: b(2))
  qed
  ultimately have "r' = r + ?i" by (simp only: word_unat_eq_iff)
  moreover have "5 < ?t + 5" "?t \<le> ?i" using mod by (simp_all add: word_less_nat_alt word_le_nat_alt t t5 b(2))
  ultimately show ?thesis using r' by simp
qed

theorem next_round_next_reference_witness:
  "round_down_to_nearest_multiple 1700006411 (ucast (10800 :: u32)) = Inr 1700006400 \<and>
   round_down_to_nearest_multiple (1700006411 + (time_until_next_generation (ucast (10800 :: u32)) 1700006411 + 5)) (ucast (10800 :: u32)) = Inr 1700017200"
  using next_round_next_reference [OF sample_env_interval, of 1700006411 1700006400]
  by (simp add: round_down_to_nearest_multiple_def)

end
