(* ===== verification/Message_Queue.thy ===== *)
theory Message_Queue
  imports Rust_Collections
begin

text \<open>
The bounded channel of tokio between the router and the persister, and the contract its clients rely
  on: every message put in comes out once and in order.
\<close>

section \<open>The contract of a queue\<close>

text \<open>
  What a client relies on: a message that is put in comes out once, in order. The state of the queue
  is observed through the messages that are still under way.
\<close>

locale message_queue =
  fixes under_way :: "'q \<Rightarrow> 'm list"
    and put :: "'m \<Rightarrow> 'q \<Rightarrow> 'q res"
    and take_one :: "'q \<Rightarrow> ('m \<times> 'q) option"
    and inv :: "'q \<Rightarrow> bool"
  assumes put_under_way: "inv q \<Longrightarrow> put m q = Inr q' \<Longrightarrow> under_way q' = under_way q @ [m] \<and> inv q'"
    and take_under_way: "inv q \<Longrightarrow> take_one q = Some (m, q') \<Longrightarrow> under_way q = m # under_way q' \<and> inv q'"
    and take_none: "inv q \<Longrightarrow> take_one q = None \<Longrightarrow> under_way q = []"
begin

lemma put_all_under_way:
  "inv q \<Longrightarrow> fold_res put ms q = Inr q' \<Longrightarrow> under_way q' = under_way q @ ms \<and> inv q'"
proof (induction ms arbitrary: q)
  case (Cons m ms)
  from Cons.prems(2) obtain q1 where q1: "put m q = Inr q1" "fold_res put ms q1 = Inr q'" by (auto simp: bind_res_eq_Inr)
  from put_under_way [OF Cons.prems(1) q1(1)] Cons.IH [OF _ q1(2)] show ?case by simp
qed simp

text \<open>The receiver keeps taking messages until none is under way: it gets all of them, in order.\<close>

fun drain :: "nat \<Rightarrow> 'q \<Rightarrow> 'm list \<times> 'q" where
  "drain 0 q = ([], q)"
| "drain (Suc n) q = (case take_one q of None \<Rightarrow> ([], q) | Some (m, q') \<Rightarrow> (case drain n q' of (ms, q'') \<Rightarrow> (m # ms, q'')))"

lemma drain_takes: "inv q \<Longrightarrow> drain n q = (ms, q') \<Longrightarrow> ms = take n (under_way q) \<and> under_way q' = drop n (under_way q) \<and> inv q'"
proof (induction n arbitrary: q ms q')
  case (Suc n)
  show ?case
  proof (cases "take_one q")
    case None
    then show ?thesis using Suc.prems take_none [OF Suc.prems(1)] by auto
  next
    case (Some p)
    obtain m q1 where p: "p = (m, q1)" by (cases p)
    obtain ms' q2 where d: "drain n q1 = (ms', q2)" by (cases "drain n q1")
    from take_under_way [OF Suc.prems(1)] Some p have t: "under_way q = m # under_way q1" "inv q1" by auto
    from Suc.IH [OF t(2) d] Suc.prems(2) Some p d t(1) show ?thesis by auto
  qed
qed auto

end

section \<open>The bounded channel\<close>

text \<open>
  A bounded channel of tokio: the messages in the buffer, those of senders that wait for room (served
  first come, first served) and whether the receiver is gone.
\<close>

record 'm mpsc =
  ch_capacity :: nat
  ch_buffer :: "'m list"
  ch_waiting :: "'m list"
  ch_closed :: bool

definition mpsc_channel :: "nat \<Rightarrow> 'm mpsc" where
  "mpsc_channel capacity = \<lparr>ch_capacity = capacity, ch_buffer = [], ch_waiting = [], ch_closed = False\<rparr>"

datatype 'm try_send_error = Full 'm | Closed 'm

definition has_room :: "'m mpsc \<Rightarrow> bool" where
  "has_room ch \<longleftrightarrow> length (ch_buffer ch) < ch_capacity ch \<and> ch_waiting ch = []"

definition try_send :: "'m \<Rightarrow> 'm mpsc \<Rightarrow> 'm try_send_error + 'm mpsc" where
  "try_send m ch =
     (if ch_closed ch then Inl (Closed m)
      else if has_room ch then Inr (ch\<lparr>ch_buffer := ch_buffer ch @ [m]\<rparr>)
      else Inl (Full m))"

text \<open>\<open>send(m).await.unwrap()\<close>: a sender without room joins those that wait.\<close>

definition send_unwrap :: "'m \<Rightarrow> 'm mpsc \<Rightarrow> 'm mpsc res" where
  "send_unwrap m ch =
     (if ch_closed ch then Inl Unwrap_None
      else if has_room ch then Inr (ch\<lparr>ch_buffer := ch_buffer ch @ [m]\<rparr>)
      else Inr (ch\<lparr>ch_waiting := ch_waiting ch @ [m]\<rparr>))"

text \<open>\<open>recv\<close> takes the first message; the first waiting sender then gets its place.\<close>

definition recv :: "'m mpsc \<Rightarrow> ('m \<times> 'm mpsc) option" where
  "recv ch = (case ch_buffer ch of
     [] \<Rightarrow> None
   | m # rest \<Rightarrow> Some (m, ch\<lparr>ch_buffer := rest @ take 1 (ch_waiting ch), ch_waiting := drop 1 (ch_waiting ch)\<rparr>))"

definition in_channel :: "'m mpsc \<Rightarrow> 'm list" where
  "in_channel ch = ch_buffer ch @ ch_waiting ch"

definition mpsc_ok :: "'m mpsc \<Rightarrow> bool" where
  "mpsc_ok ch \<longleftrightarrow> 0 < ch_capacity ch \<and> length (ch_buffer ch) \<le> ch_capacity ch \<and>
     (ch_waiting ch \<noteq> [] \<longrightarrow> length (ch_buffer ch) = ch_capacity ch)"

lemma mpsc_channel_ok: "0 < capacity \<Longrightarrow> mpsc_ok (mpsc_channel capacity)" "in_channel (mpsc_channel capacity) = []"
  by (simp_all add: mpsc_ok_def mpsc_channel_def in_channel_def)

lemma send_unwrap_ok:
  "mpsc_ok ch \<Longrightarrow> send_unwrap m ch = Inr ch' \<Longrightarrow> in_channel ch' = in_channel ch @ [m] \<and> mpsc_ok ch'"
  by (auto simp: send_unwrap_def mpsc_ok_def in_channel_def has_room_def split: if_splits)

lemma recv_ok:
  "mpsc_ok ch \<Longrightarrow> recv ch = Some (m, ch') \<Longrightarrow> in_channel ch = m # in_channel ch' \<and> mpsc_ok ch'"
  by (cases "ch_waiting ch") (auto simp: recv_def mpsc_ok_def in_channel_def split: list.splits)

lemma recv_None: "mpsc_ok ch \<Longrightarrow> recv ch = None \<Longrightarrow> in_channel ch = []"
  by (auto simp: recv_def mpsc_ok_def in_channel_def split: list.splits)

interpretation mpsc: message_queue in_channel send_unwrap recv mpsc_ok
  by unfold_locales (fact send_unwrap_ok, fact recv_ok, fact recv_None)

text \<open>Trying first and waiting only when the channel is full is the same as sending.\<close>

definition try_send_or_wait :: "'m \<Rightarrow> 'm mpsc \<Rightarrow> 'm mpsc res" where
  "try_send_or_wait m ch = (case try_send m ch of
     Inr ch \<Rightarrow> Inr ch
   | Inl (Full m) \<Rightarrow> send_unwrap m ch
   | Inl (Closed m) \<Rightarrow> send_unwrap m ch)"

lemma try_send_or_wait_eq: "try_send_or_wait m ch = send_unwrap m ch"
  by (simp add: try_send_or_wait_def try_send_def send_unwrap_def)

end
