(* ===== verification/Persistence.thy ===== *)
theory Persistence
  imports Database Lookup Message_Queue
begin

text \<open>
src/persistence.rs: the rows written for a gossip message, the insert statements with their conflict
  clauses, and the persister with its permits, connections and tasks as a step relation. Only the
  release build is modelled, in which the database stamps each row; log lines are left out. Sequence
  values are unbounded. The build aborts the process on every panic (src/Cargo.toml), so a statement
  that fails for any reason is the end of the persister.
\<close>

section \<open>Rows\<close>

text \<open>LDK's encodings of whole messages, of a feature vector and of a list of addresses.\<close>

record message_writer =
  mw_node_announcement :: "node_announcement \<Rightarrow> bytes"
  mw_channel_announcement :: "channel_announcement \<Rightarrow> bytes"
  mw_channel_update :: "channel_update \<Rightarrow> bytes"
  mw_node_features :: "node_features \<Rightarrow> bytes"
  mw_addresses :: "socket_address list \<Rightarrow> bytes"

text \<open>The rows that are inserted; \<open>seen\<close> is the database's \<open>NOW()\<close> and the id its sequence.\<close>

definition node_row :: "message_writer \<Rightarrow> node_announcement \<Rightarrow> int \<Rightarrow> node_announcement_row" where
  "node_row W announcement now = \<lparr>
     nar_public_key = node_id_hex (na_node_id (contents announcement)),
     nar_features = mw_node_features W (na_features (contents announcement)),
     nar_socket_addresses = mw_addresses W (na_addresses (contents announcement)),
     nar_timestamp = uint (na_timestamp (contents announcement)),
     nar_announcement_signed = mw_node_announcement W announcement,
     nar_seen = now\<rparr>"

definition announcement_row :: "message_writer \<Rightarrow> channel_announcement \<Rightarrow> u64 \<Rightarrow> int \<Rightarrow> channel_announcement_row" where
  "announcement_row W announcement funding_value now = \<lparr>
     car_short_channel_id = ca_short_channel_id (contents announcement),
     car_funding_amount_sats = funding_value,
     car_announcement_signed = mw_channel_announcement W announcement,
     car_seen = now\<rparr>"

definition update_row :: "message_writer \<Rightarrow> channel_update \<Rightarrow> int \<Rightarrow> int \<Rightarrow> channel_update_row" where
  "update_row W update row_id now =
     (let c = contents update in \<lparr>
     cur_id = row_id,
     cur_short_channel_id = cu_short_channel_id c,
     cur_timestamp = uint (cu_timestamp c),
     cur_channel_flags = uint (cu_channel_flags c),
     cur_direction = (cu_channel_flags c AND 1 = 1),
     cur_disable = (cu_channel_flags c AND 2 > 0),
     cur_cltv_expiry_delta = ucast (cu_cltv_expiry_delta c),
     cur_htlc_minimum_msat = cu_htlc_minimum_msat c,
     cur_fee_base_msat = cu_fee_base_msat c,
     cur_fee_proportional_millionths = cu_fee_proportional_millionths c,
     cur_htlc_maximum_msat = cu_htlc_maximum_msat c,
     cur_blob_signed = mw_channel_update W update,
     cur_seen = now\<rparr>)"

section \<open>Inserts\<close>

text \<open>The database with the next value of the sequence of \<open>channel_updates.id\<close>, which a conflicting insert consumes too.\<close>

record store =
  st_db :: database
  st_next_id :: int

definition update_key :: "channel_update_row \<Rightarrow> u64 \<times> bool \<times> int" where
  "update_key r = (cur_short_channel_id r, cur_direction r, cur_timestamp r)"

definition insert_node :: "message_writer \<Rightarrow> node_announcement \<Rightarrow> int \<Rightarrow> store \<Rightarrow> store" where
  "insert_node W announcement now st =
     st\<lparr>st_db := (st_db st)\<lparr>db_node_announcements := db_node_announcements (st_db st) @ [node_row W announcement now]\<rparr>\<rparr>"

definition insert_announcement :: "message_writer \<Rightarrow> channel_announcement \<Rightarrow> u64 \<Rightarrow> int \<Rightarrow> store \<Rightarrow> store" where
  "insert_announcement W announcement funding_value now st =
     (let row = announcement_row W announcement funding_value now; rows = db_channel_announcements (st_db st)
      in if list_ex (\<lambda>r. car_short_channel_id r = car_short_channel_id row) rows then st
         else st\<lparr>st_db := (st_db st)\<lparr>db_channel_announcements := rows @ [row]\<rparr>\<rparr>)"

definition insert_update :: "message_writer \<Rightarrow> channel_update \<Rightarrow> int \<Rightarrow> store \<Rightarrow> store" where
  "insert_update W update now st =
     (let row = update_row W update (st_next_id st) now; rows = db_channel_updates (st_db st);
          st = st\<lparr>st_next_id := st_next_id st + 1\<rparr>
      in if list_ex (\<lambda>r. update_key r = update_key row) rows then st
         else st\<lparr>st_db := (st_db st)\<lparr>db_channel_updates := rows @ [row]\<rparr>\<rparr>)"

definition execute_insert :: "message_writer \<Rightarrow> gossip_message \<Rightarrow> int \<Rightarrow> store \<Rightarrow> store" where
  "execute_insert W m now st = (case m of
     NodeAnnouncement announcement _ \<Rightarrow> insert_node W announcement now st
   | ChannelAnnouncement announcement funding_value _ \<Rightarrow> insert_announcement W announcement funding_value now st
   | ChannelUpdate update _ \<Rightarrow> insert_update W update now st)"

section \<open>The persister\<close>

definition INSERT_PARALELLISM :: nat where
  "INSERT_PARALELLISM = 16"

text \<open>
  The message in hand has been received and waits for a permit. A running task holds a connection;
  the connections that are not in use are counted.
\<close>

record gossip_persister =
  gp_receiver :: "gossip_message mpsc"
  gp_in_hand :: "gossip_message option"
  gp_count :: u32
  gp_permits :: nat
  gp_connections :: nat
  gp_tasks :: "gossip_message list"
  gp_store :: store
  gp_graph :: network_graph
  gp_graph_file :: "network_graph option"
  gp_aborted :: bool

definition persist_gossip_start :: "gossip_message mpsc \<Rightarrow> store \<Rightarrow> network_graph \<Rightarrow> network_graph option \<Rightarrow> gossip_persister" where
  "persist_gossip_start receiver st graph file = \<lparr>gp_receiver = receiver, gp_in_hand = None, gp_count = 0,
     gp_permits = INSERT_PARALELLISM, gp_connections = 0, gp_tasks = [], gp_store = st, gp_graph = graph, gp_graph_file = file,
     gp_aborted = False\<rparr>"

text \<open>
  The graph is pruned and written. The program waits for the lock on the graph in between; that wait is
  modelled in the theory Startup, whose runs are runs of the steps below.
\<close>

definition persist_network_graph :: "(network_graph \<Rightarrow> network_graph) \<Rightarrow> gossip_persister \<Rightarrow> gossip_persister" where
  "persist_network_graph prune p = p\<lparr>gp_graph := prune (gp_graph p), gp_graph_file := Some (prune (gp_graph p))\<rparr>"

text \<open>One message is taken; every ten minutes the graph is cached first.\<close>

definition take_message :: "(network_graph \<Rightarrow> network_graph) \<Rightarrow> bool \<Rightarrow> gossip_persister \<Rightarrow> gossip_persister option" where
  "take_message prune cache_due p = (case (gp_in_hand p, recv (gp_receiver p)) of
     (None, Some (m, ch)) \<Rightarrow>
       let p = p\<lparr>gp_receiver := ch, gp_in_hand := Some m, gp_count := gp_count p + 1\<rparr>
       in Some (if cache_due then persist_network_graph prune p else p)
   | _ \<Rightarrow> None)"

text \<open>With a permit the insert is spawned, on a cached connection or a new one.\<close>

definition spawn_insert :: "gossip_persister \<Rightarrow> gossip_persister option" where
  "spawn_insert p = (case gp_in_hand p of
     None \<Rightarrow> None
   | Some m \<Rightarrow>
       if gp_permits p = 0 then None
       else Some (p\<lparr>gp_in_hand := None, gp_permits := gp_permits p - 1, gp_connections := gp_connections p - 1,
              gp_tasks := gp_tasks p @ [m]\<rparr>))"

text \<open>A task that ends puts its connection back and adds a permit.\<close>

definition remove_nth :: "nat \<Rightarrow> 'a list \<Rightarrow> 'a list" where
  "remove_nth i xs = take i xs @ drop (Suc i) xs"

definition finish_insert :: "message_writer \<Rightarrow> nat \<Rightarrow> int \<Rightarrow> gossip_persister \<Rightarrow> gossip_persister option" where
  "finish_insert W i now p =
     (if i < length (gp_tasks p)
      then Some (p\<lparr>gp_store := execute_insert W (gp_tasks p ! i) now (gp_store p), gp_tasks := remove_nth i (gp_tasks p),
             gp_connections := gp_connections p + 1, gp_permits := gp_permits p + 1\<rparr>)
      else None)"

text \<open>
  A panic ends the process. The statements of the running tasks have been sent to the database, which
  may execute some of them, in any order: their tasks and times are given.
\<close>

definition abort_process :: "message_writer \<Rightarrow> (nat \<times> int) list \<Rightarrow> gossip_persister \<Rightarrow> gossip_persister option" where
  "abort_process W executed p =
     (if distinct (map fst executed) \<and> list_all (\<lambda>(j, _). j < length (gp_tasks p)) executed
      then Some (p\<lparr>gp_store := fold (\<lambda>(j, now). execute_insert W (gp_tasks p ! j) now) executed (gp_store p), gp_aborted := True\<rparr>)
      else None)"

text \<open>A task whose statement fails or takes longer than the timeout panics.\<close>

definition fail_insert :: "message_writer \<Rightarrow> nat \<Rightarrow> (nat \<times> int) list \<Rightarrow> gossip_persister \<Rightarrow> gossip_persister option" where
  "fail_insert W i executed p = (if i < length (gp_tasks p) then abort_process W executed p else None)"

text \<open>
  The steps of the persister, with the sender and the tasks in any order. A panic anywhere else in the
  process, such as one for a connection that cannot be opened or a graph file that cannot be written,
  is the event \<open>Abort\<close>.
\<close>

datatype persister_event =
    Send gossip_message
  | Take gossip_message bool
  | Spawn
  | Finish gossip_message int
  | Fail gossip_message "(nat \<times> int) list"
  | Abort "(nat \<times> int) list"

inductive persister_step ::
  "message_writer \<Rightarrow> (network_graph \<Rightarrow> network_graph) \<Rightarrow> gossip_persister \<Rightarrow> persister_event \<Rightarrow> gossip_persister \<Rightarrow> bool" for W prune where
  send: "\<not> gp_aborted p \<Longrightarrow> send_unwrap m (gp_receiver p) = Inr ch \<Longrightarrow> persister_step W prune p (Send m) (p\<lparr>gp_receiver := ch\<rparr>)"
| take: "\<not> gp_aborted p \<Longrightarrow> take_message prune cache_due p = Some p' \<Longrightarrow> gp_in_hand p' = Some m \<Longrightarrow> persister_step W prune p (Take m cache_due) p'"
| spawn: "\<not> gp_aborted p \<Longrightarrow> spawn_insert p = Some p' \<Longrightarrow> persister_step W prune p Spawn p'"
| finish: "\<not> gp_aborted p \<Longrightarrow> finish_insert W i now p = Some p' \<Longrightarrow> persister_step W prune p (Finish (gp_tasks p ! i) now) p'"
| fail: "\<not> gp_aborted p \<Longrightarrow> fail_insert W i executed p = Some p' \<Longrightarrow> persister_step W prune p (Fail (gp_tasks p ! i) executed) p'"
| abort: "\<not> gp_aborted p \<Longrightarrow> abort_process W executed p = Some p' \<Longrightarrow> persister_step W prune p (Abort executed) p'"

inductive persister_run ::
  "message_writer \<Rightarrow> (network_graph \<Rightarrow> network_graph) \<Rightarrow> gossip_persister \<Rightarrow> persister_event list \<Rightarrow> gossip_persister \<Rightarrow> bool" for W prune where
  start: "persister_run W prune p [] p"
| step: "persister_run W prune p evs p' \<Longrightarrow> persister_step W prune p' ev p'' \<Longrightarrow> persister_run W prune p (evs @ [ev]) p''"

end
