(* ===== verification/Persistence_Runs.thy ===== *)
theory Persistence_Runs
  imports Persistence Client_Sync
begin

text \<open>
Runs of the persister of src/persistence.rs: no message is lost or duplicated, the permits and
  connections stay within bounds, the tables keep their constraints and are what the lookups expect.
\<close>

section \<open>What the tables hold\<close>

text \<open>Every row was written from one of the given messages, and the uniqueness constraints hold.\<close>

definition written :: "message_writer \<Rightarrow> gossip_message set \<Rightarrow> store \<Rightarrow> bool" where
  "written W M st \<longleftrightarrow>
     (\<forall>r \<in> set (db_channel_announcements (st_db st)). \<exists>m f s now. ChannelAnnouncement m f s \<in> M \<and> r = announcement_row W m f now) \<and>
     distinct (map car_short_channel_id (db_channel_announcements (st_db st))) \<and>
     (\<forall>r \<in> set (db_channel_updates (st_db st)). (\<exists>m s now. ChannelUpdate m s \<in> M \<and> r = update_row W m (cur_id r) now) \<and> cur_id r < st_next_id st) \<and>
     distinct (map cur_id (db_channel_updates (st_db st))) \<and> distinct (map update_key (db_channel_updates (st_db st))) \<and>
     (\<forall>r \<in> set (db_node_announcements (st_db st)). \<exists>m s now. NodeAnnouncement m s \<in> M \<and> r = node_row W m now)"

lemma update_row_id [simp]: "cur_id (update_row W m i now) = i"
  by (simp add: update_row_def Let_def)

lemma written_insert:
  assumes "written W M st" and "m \<in> M"
  shows "written W M (execute_insert W m now st)"
proof (cases m)
  case (NodeAnnouncement a s)
  then show ?thesis using assms by (auto simp: written_def execute_insert_def insert_node_def)
next
  case (ChannelAnnouncement a f s)
  then show ?thesis using assms
    by (auto simp: written_def execute_insert_def insert_announcement_def Let_def list_ex_iff)
next
  case (ChannelUpdate u s)
  then show ?thesis using assms
    by (auto simp: written_def execute_insert_def insert_update_def Let_def list_ex_iff image_iff)
qed

text \<open>The tables only grow at the end, and a message that has been inserted is in its table.\<close>

definition extends :: "store \<Rightarrow> store \<Rightarrow> bool" where
  "extends st st' \<longleftrightarrow> prefix (db_channel_announcements (st_db st)) (db_channel_announcements (st_db st')) \<and>
     prefix (db_channel_updates (st_db st)) (db_channel_updates (st_db st')) \<and>
     prefix (db_node_announcements (st_db st)) (db_node_announcements (st_db st'))"

definition message_key :: "channel_update \<Rightarrow> u64 \<times> bool \<times> int" where
  "message_key u = (cu_short_channel_id (contents u), cu_channel_flags (contents u) AND 1 = 1, uint (cu_timestamp (contents u)))"

definition stored :: "message_writer \<Rightarrow> gossip_message \<Rightarrow> store \<Rightarrow> bool" where
  "stored W m st = (case m of
     NodeAnnouncement a _ \<Rightarrow> \<exists>now. node_row W a now \<in> set (db_node_announcements (st_db st))
   | ChannelAnnouncement a _ _ \<Rightarrow> \<exists>r \<in> set (db_channel_announcements (st_db st)). car_short_channel_id r = ca_short_channel_id (contents a)
   | ChannelUpdate u _ \<Rightarrow> \<exists>r \<in> set (db_channel_updates (st_db st)). update_key r = message_key u)"

lemma extends_refl [simp]: "extends st st"
  by (simp add: extends_def)

lemma extends_trans: "extends a b \<Longrightarrow> extends b c \<Longrightarrow> extends a c"
  by (auto simp: extends_def intro: prefix_order.trans)

lemma extends_insert: "extends st (execute_insert W m now st)"
  by (cases m) (auto simp: extends_def execute_insert_def insert_node_def insert_announcement_def insert_update_def Let_def)

lemma stored_extends:
  assumes "extends st st'" and "stored W m st"
  shows "stored W m st'"
proof -
  have "set (db_channel_announcements (st_db st)) \<subseteq> set (db_channel_announcements (st_db st'))"
    "set (db_channel_updates (st_db st)) \<subseteq> set (db_channel_updates (st_db st'))"
    "set (db_node_announcements (st_db st)) \<subseteq> set (db_node_announcements (st_db st'))"
    using assms(1) by (auto simp: extends_def dest: set_mono_prefix)
  then show ?thesis using assms(2) by (cases m) (fastforce simp: stored_def)+
qed

lemma update_key_row [simp]: "update_key (update_row W u i now) = message_key u"
  by (simp add: update_key_def update_row_def message_key_def Let_def)

lemma stored_insert: "stored W m (execute_insert W m now st)"
  by (cases m)
    (auto simp: stored_def execute_insert_def insert_node_def insert_announcement_def insert_update_def Let_def list_ex_iff announcement_row_def)

section \<open>Runs\<close>

text \<open>The messages sent, taken and inserted in a run.\<close>

definition sent_of :: "persister_event list \<Rightarrow> gossip_message list" where
  "sent_of evs = concat (map (\<lambda>ev. case ev of Send m \<Rightarrow> [m] | _ \<Rightarrow> []) evs)"

definition taken_of :: "persister_event list \<Rightarrow> gossip_message list" where
  "taken_of evs = concat (map (\<lambda>ev. case ev of Take m _ \<Rightarrow> [m] | _ \<Rightarrow> []) evs)"

definition finished_of :: "persister_event list \<Rightarrow> gossip_message list" where
  "finished_of evs = concat (map (\<lambda>ev. case ev of Finish m _ \<Rightarrow> [m] | _ \<Rightarrow> []) evs)"

lemma event_lists_append [simp]:
  "sent_of (xs @ ys) = sent_of xs @ sent_of ys" "taken_of (xs @ ys) = taken_of xs @ taken_of ys"
  "finished_of (xs @ ys) = finished_of xs @ finished_of ys"
  by (simp_all add: sent_of_def taken_of_def finished_of_def)

lemma event_lists_simps [simp]:
  "sent_of [] = []" "taken_of [] = []" "finished_of [] = []"
  "sent_of [Send m] = [m]" "taken_of [Send m] = []" "finished_of [Send m] = []"
  "sent_of [Take m b] = []" "taken_of [Take m b] = [m]" "finished_of [Take m b] = []"
  "sent_of [Spawn] = []" "taken_of [Spawn] = []" "finished_of [Spawn] = []"
  "sent_of [Finish m n] = []" "taken_of [Finish m n] = []" "finished_of [Finish m n] = [m]"
  "sent_of [Fail m x] = []" "taken_of [Fail m x] = []" "finished_of [Fail m x] = []"
  "sent_of [Abort x] = []" "taken_of [Abort x] = []" "finished_of [Abort x] = []"
  by (simp_all add: sent_of_def taken_of_def finished_of_def)

definition persister_inv :: "message_writer \<Rightarrow> store \<Rightarrow> gossip_persister \<Rightarrow> persister_event list \<Rightarrow> bool" where
  "persister_inv W st0 p evs \<longleftrightarrow>
     mpsc_ok (gp_receiver p) \<and> taken_of evs @ in_channel (gp_receiver p) = sent_of evs \<and>
     gp_count p = word_of_nat (length (taken_of evs)) \<and>
     mset (taken_of evs) = mset (case gp_in_hand p of None \<Rightarrow> [] | Some m \<Rightarrow> [m]) + mset (gp_tasks p) + mset (finished_of evs) \<and>
     gp_permits p + length (gp_tasks p) = INSERT_PARALELLISM \<and>
     gp_connections p + length (gp_tasks p) \<le> INSERT_PARALELLISM \<and>
     extends st0 (gp_store p) \<and> (\<forall>m \<in> set (finished_of evs). stored W m (gp_store p))"

lemma mset_remove_nth: "i < length xs \<Longrightarrow> mset xs = add_mset (xs ! i) (mset (remove_nth i xs))"
  unfolding remove_nth_def by (metis id_take_nth_drop mset_append mset.simps(2) union_mset_add_mset_right)

lemma length_remove_nth: "i < length xs \<Longrightarrow> length xs = Suc (length (remove_nth i xs))"
  by (simp add: remove_nth_def)

lemma persister_inv_start:
  assumes "mpsc_ok ch" and "in_channel ch = []"
  shows "persister_inv W st (persist_gossip_start ch st graph file) []"
  using assms by (simp add: persister_inv_def persist_gossip_start_def)

lemma extends_inserts: "extends st (fold (\<lambda>(j, now). execute_insert W (ms ! j) now) xs st)"
proof (induction xs arbitrary: st)
  case (Cons x xs)
  obtain j now where "x = (j, now)" by (cases x)
  with extends_trans [OF extends_insert Cons.IH, of st W "ms ! j" now] show ?case by simp
qed simp

lemma persister_inv_abort:
  assumes "abort_process W executed p = Some p'" and inv: "persister_inv W st0 p evs"
  shows "persister_inv W st0 p' evs"
proof -
  from assms(1) have p': "p' = p\<lparr>gp_store := fold (\<lambda>(j, now). execute_insert W (gp_tasks p ! j) now) executed (gp_store p), gp_aborted := True\<rparr>"
    by (simp add: abort_process_def split: if_splits)
  have ext: "extends (gp_store p) (gp_store p')" unfolding p' by (simp add: extends_inserts)
  then have "extends st0 (gp_store p')" and "\<forall>m \<in> set (finished_of evs). stored W m (gp_store p')"
    using inv extends_trans stored_extends unfolding persister_inv_def by blast+
  with inv show ?thesis by (simp add: persister_inv_def p')
qed

lemma written_inserts:
  assumes "written W M st" and "set ms \<subseteq> M" and "list_all (\<lambda>(j, _). j < length ms) xs"
  shows "written W M (fold (\<lambda>(j, now). execute_insert W (ms ! j) now) xs st)"
  using assms(1,3)
proof (induction xs arbitrary: st)
  case (Cons x xs)
  then obtain j now where x: "x = (j, now)" "j < length ms" by (cases x) auto
  then have "ms ! j \<in> M" using assms(2) nth_mem by blast
  from Cons.IH [OF written_insert [OF Cons.prems(1) this, of now]] Cons.prems(2) x(1) show ?case by simp
qed simp

lemma written_abort:
  assumes "abort_process W executed p = Some p'" and "written W M (gp_store p)" and "set (gp_tasks p) \<subseteq> M"
  shows "written W M (gp_store p')"
  using assms written_inserts by (auto simp: abort_process_def split: if_splits)

lemma persister_inv_step:
  assumes "persister_step W prune p ev p'" and inv: "persister_inv W st0 p evs"
  shows "persister_inv W st0 p' (evs @ [ev])"
  using assms(1)
proof cases
  case (send m ch)
  with inv mpsc.put_under_way [of "gp_receiver p" m ch] show ?thesis by (auto simp: persister_inv_def)
next
  case (take cache_due m)
  then obtain ch where "recv (gp_receiver p) = Some (m, ch)" "gp_in_hand p = None"
    "p' = (let q = p\<lparr>gp_receiver := ch, gp_in_hand := Some m, gp_count := gp_count p + 1\<rparr> in if cache_due then persist_network_graph prune q else q)"
    by (auto simp: take_message_def persist_network_graph_def Let_def split: option.splits if_splits)
  with inv mpsc.take_under_way [of "gp_receiver p" m ch] take(1) show ?thesis
    by (auto simp: persister_inv_def persist_network_graph_def Let_def)
next
  case spawn
  then show ?thesis using inv
    by (auto simp: spawn_insert_def persister_inv_def split: option.splits if_splits)
next
  case (finish i now)
  then have i: "i < length (gp_tasks p)" by (auto simp: finish_insert_def split: if_splits)
  define st1 where "st1 = execute_insert W (gp_tasks p ! i) now (gp_store p)"
  have "extends st0 st1" and "\<forall>m \<in> set (finished_of evs). stored W m st1" and "stored W (gp_tasks p ! i) st1"
    using inv extends_insert [of "gp_store p" W "gp_tasks p ! i" now] extends_trans stored_extends stored_insert
    unfolding persister_inv_def st1_def by blast+
  with inv finish i mset_remove_nth [OF i] length_remove_nth [OF i] show ?thesis
    by (auto simp: finish_insert_def persister_inv_def st1_def)
next
  case (fail i executed)
  then have "abort_process W executed p = Some p'" by (simp add: fail_insert_def split: if_splits)
  from persister_inv_abort [OF this inv] fail(1) show ?thesis by (simp add: persister_inv_def)
next
  case (abort executed)
  from persister_inv_abort [OF abort(3) inv] abort(1) show ?thesis by (simp add: persister_inv_def)
qed

lemma persister_inv_run:
  assumes "persister_run W prune p evs p'" and "persister_inv W st0 p evs0"
  shows "persister_inv W st0 p' (evs0 @ evs)"
  using assms
proof (induction rule: persister_run.induct)
  case (step p evs p' ev p'')
  from persister_inv_step [OF step.hyps(2) step.IH [OF step.prems]] show ?case by simp
qed simp

lemma written_step:
  assumes "persister_step W prune p ev p'" and "written W M (gp_store p)" and "set (gp_tasks p) \<subseteq> M"
  shows "written W M (gp_store p')"
  using assms(1)
proof cases
  case (take cache_due m)
  then show ?thesis using assms(2)
    by (auto simp: take_message_def persist_network_graph_def Let_def split: option.splits if_splits)
next
  case (finish i now)
  then have "gp_tasks p ! i \<in> M" using assms(3) by (auto simp: finish_insert_def split: if_splits)
  then show ?thesis using finish assms(2) written_insert by (auto simp: finish_insert_def split: if_splits)
next
  case (fail i executed)
  then show ?thesis using assms(2,3) written_abort by (auto simp: fail_insert_def split: if_splits)
next
  case (abort executed)
  then show ?thesis using assms(2,3) written_abort by blast
qed (use assms(2) in \<open>auto simp: spawn_insert_def split: option.splits if_splits\<close>)

lemma tasks_sent:
  assumes "persister_inv W st0 p evs"
  shows "set (gp_tasks p) \<subseteq> set (sent_of evs)"
proof
  fix m assume "m \<in> set (gp_tasks p)"
  then have "m \<in># mset (taken_of evs)" using assms by (simp add: persister_inv_def)
  then show "m \<in> set (sent_of evs)" using assms by (auto simp: persister_inv_def dest!: arg_cong [where f = set])
qed

lemma written_run:
  assumes "persister_run W prune p evs p'" and "persister_inv W st0 p evs0" and "written W M (gp_store p)" and "set (sent_of (evs0 @ evs)) \<subseteq> M"
  shows "written W M (gp_store p')"
  using assms
proof (induction rule: persister_run.induct)
  case (step p evs p' ev p'')
  have "set (sent_of (evs0 @ evs)) \<subseteq> M" using step.prems(3) by auto
  with step have "written W M (gp_store p')" by blast
  moreover have "set (gp_tasks p') \<subseteq> M"
    using tasks_sent [OF persister_inv_run [OF step.hyps(1) step.prems(1)]] step.prems(3) by auto
  ultimately show ?case by (rule written_step [OF step.hyps(2)])
qed

section \<open>The readers find what was written\<close>

definition reads_back :: "message_writer \<Rightarrow> lookup_env \<Rightarrow> gossip_message set \<Rightarrow> bool" where
  "reads_back W E M \<longleftrightarrow>
     (\<forall>m f s. ChannelAnnouncement m f s \<in> M \<longrightarrow> le_read_channel_announcement E (mw_channel_announcement W m) = Some m) \<and>
     (\<forall>m s. ChannelUpdate m s \<in> M \<longrightarrow> le_read_channel_update E (mw_channel_update W m) = Some m) \<and>
     (\<forall>m s. NodeAnnouncement m s \<in> M \<longrightarrow> le_read_node_announcement E (mw_node_announcement W m) = Some m)"

definition scans_ok :: "lookup_env \<Rightarrow> bool" where
  "scans_ok E \<longleftrightarrow> reorders (le_scan_announcements E) \<and> reorders (le_scan_oldest E) \<and> reorders (le_scan_newer_oldest E) \<and>
     reorders (le_scan_window E) \<and> reorders (le_scan_mutated E) \<and> reorders (le_scan_reference_ids E) \<and> reorders (le_scan_reference E) \<and>
     reorders (le_scan_intermediate E) \<and> reorders (le_scan_node_reference E) \<and> reorders (le_scan_node_intermediate E)"

lemma written_row:
  assumes "reads_back W E M"
  shows "ChannelUpdate m s \<in> M \<Longrightarrow> update_of E (update_row W m i now) = contents m"
    and "ChannelAnnouncement a f s \<in> M \<Longrightarrow> announcement_of E (announcement_row W a f now) = contents a"
    and "ChannelUpdate m s \<in> M \<Longrightarrow> update_row_ok E (update_row W m i now)"
    and "ChannelAnnouncement a f s \<in> M \<Longrightarrow> announcement_row_ok E (announcement_row W a f now)"
    and "NodeAnnouncement n s \<in> M \<Longrightarrow> node_row_ok E (node_row W n now)"
proof -
  have read: "ChannelAnnouncement a f s \<in> M \<Longrightarrow> le_read_channel_announcement E (mw_channel_announcement W a) = Some a"
    "ChannelUpdate m s \<in> M \<Longrightarrow> le_read_channel_update E (mw_channel_update W m) = Some m"
    "NodeAnnouncement n s \<in> M \<Longrightarrow> le_read_node_announcement E (mw_node_announcement W n) = Some n"
    using assms unfolding reads_back_def by blast+
  show "ChannelUpdate m s \<in> M \<Longrightarrow> update_of E (update_row W m i now) = contents m"
    "ChannelUpdate m s \<in> M \<Longrightarrow> update_row_ok E (update_row W m i now)"
    by (simp_all add: read(2) update_of_def update_row_def update_row_ok_def Let_def)
  show "ChannelAnnouncement a f s \<in> M \<Longrightarrow> announcement_of E (announcement_row W a f now) = contents a"
    "ChannelAnnouncement a f s \<in> M \<Longrightarrow> announcement_row_ok E (announcement_row W a f now)"
    by (simp_all add: read(1) announcement_of_def announcement_row_def announcement_row_ok_def)
  show "NodeAnnouncement n s \<in> M \<Longrightarrow> node_row_ok E (node_row W n now)"
    by (simp add: read(3) node_row_def node_row_ok_def node_of_def)
qed

lemma update_row_direction [simp]: "cur_direction (update_row W m i now) = bit (cu_channel_flags (contents m)) 0"
  by (simp add: update_row_def Let_def and_one_eq bit_0 mod_2_eq_odd)

lemma written_updateE:
  assumes "written W M st" and "reads_back W E M" and "r \<in> set (db_channel_updates (st_db st))"
  obtains m s now where "ChannelUpdate m s \<in> M" and "r = update_row W m (cur_id r) now" and "update_of E r = contents m" and "update_row_ok E r"
proof -
  from assms(1,3) obtain m s now where m: "ChannelUpdate m s \<in> M" "r = update_row W m (cur_id r) now" unfolding written_def by blast
  from written_row(1,3) [OF assms(2) m(1), of "cur_id r" now, folded m(2)] that [OF m] show thesis by blast
qed

lemma written_lookup_ok:
  assumes "written W M st" and "reads_back W E M" and "scans_ok E"
  shows "lookup_ok E (st_db st)" and "nodes_table_ok E (st_db st)" and "rows_directed E (st_db st)"
proof -
  note row = written_row [OF assms(2)]
  have upd: "update_row_ok E r \<and> cur_direction r = bit (cu_channel_flags (update_of E r)) 0" if "r \<in> set (db_channel_updates (st_db st))" for r
  proof -
    from assms(1,2) that obtain m s now where "r = update_row W m (cur_id r) now" "update_of E r = contents m" "update_row_ok E r"
      by (rule written_updateE)
    with update_row_direction [of W m "cur_id r" now] show ?thesis by simp
  qed
  have ann: "announcement_row_ok E r" if "r \<in> set (db_channel_announcements (st_db st))" for r
    using assms(1) that row(4) unfolding written_def by metis
  have node: "node_row_ok E r" if "r \<in> set (db_node_announcements (st_db st))" for r
    using assms(1) that row(5) unfolding written_def by metis
  show "lookup_ok E (st_db st)" "nodes_table_ok E (st_db st)" "rows_directed E (st_db st)"
    using assms(1,3) upd ann node
    by (simp_all add: lookup_ok_def announcements_table_ok_def updates_table_ok_def nodes_table_ok_def rows_directed_def scans_ok_def written_def)
qed

text \<open>Messages whose flags and features fit the snapshot format.\<close>

definition gossip_fits :: "wire \<Rightarrow> gossip_message \<Rightarrow> bool" where
  "gossip_fits V m = (case m of
     NodeAnnouncement _ _ \<Rightarrow> True
   | ChannelAnnouncement a _ _ \<Rightarrow> channel_features_fit (ca_features (contents a)) \<and> node_id_prefixed V (ca_node_id_1 (contents a)) \<and>
       node_id_prefixed V (ca_node_id_2 (contents a))
   | ChannelUpdate u _ \<Rightarrow> cu_channel_flags (contents u) AND 252 = 0)"

lemma written_gossip_ok:
  assumes "written W M st" and "reads_back W E M" and "\<forall>m \<in> M. gossip_fits V m"
    and "\<forall>(n, info) \<in> set (graph_nodes g). node_id_prefixed V n \<and> (\<forall>i. info = Some i \<longrightarrow> node_features_fit (nai_features i))"
    and "2 * length (db_channel_announcements (st_db st)) + length (graph_nodes g) < 2 ^ 32"
  shows "stored_gossip_ok V E (st_db st) g"
proof -
  have "cu_channel_flags (update_of E r) AND 252 = 0" if "r \<in> set (db_channel_updates (st_db st))" for r
  proof -
    from assms(1,2) that obtain m s where "ChannelUpdate m s \<in> M" "update_of E r = contents m" by (rule written_updateE)
    with assms(3) show ?thesis by (auto simp: gossip_fits_def)
  qed
  moreover have "channel_features_fit (ca_features (announcement_of E r)) \<and> node_id_prefixed V (ca_node_id_1 (announcement_of E r)) \<and>
      node_id_prefixed V (ca_node_id_2 (announcement_of E r))" if "r \<in> set (db_channel_announcements (st_db st))" for r
  proof -
    from assms(1) that obtain m f s now where m: "ChannelAnnouncement m f s \<in> M" "r = announcement_row W m f now" unfolding written_def by blast
    with written_row(2) [OF assms(2) m(1)] assms(3) show ?thesis by (auto simp: gossip_fits_def)
  qed
  ultimately show ?thesis using assms(4,5) by (simp add: stored_gossip_ok_def)
qed

end
