(* ===== verification/Persistence_Properties.thy ===== *)
theory Persistence_Properties
  imports Persistence_Runs Sync_Properties
begin

text \<open>
The properties of src/persistence.rs, with a sample run on which they are evaluated.
\<close>

section \<open>Progress\<close>

definition drained :: "gossip_persister \<Rightarrow> bool" where
  "drained p \<longleftrightarrow> in_channel (gp_receiver p) = [] \<and> gp_in_hand p = None \<and> gp_tasks p = []"

definition work_left :: "gossip_persister \<Rightarrow> nat" where
  "work_left p = 3 * length (in_channel (gp_receiver p)) + (if gp_in_hand p = None then 0 else 2) + length (gp_tasks p)"

lemma run_append:
  assumes "persister_run W prune p evs p1" and "persister_run W prune p1 evs' p2"
  shows "persister_run W prune p (evs @ evs') p2"
  using assms(2,1)
proof (induction rule: persister_run.induct)
  case (step p1 evs' p' ev p'')
  from persister_run.step [OF step.IH [OF step.prems] step.hyps(2)] show ?case by simp
qed simp

lemma run_prepend:
  assumes "persister_step W prune p ev p1" and "persister_run W prune p1 evs p2"
  shows "persister_run W prune p (ev # evs) p2"
  using run_append [OF persister_run.step [OF persister_run.start assms(1)] assms(2)] by simp

text \<open>Until the process aborts, one of the steps take, spawn and finish is possible and less work is left.\<close>

lemma persister_progress:
  assumes inv: "persister_inv W st0 p evs" and alive: "\<not> gp_aborted p" and "\<not> drained p"
  shows "\<exists>ev p'. persister_step W prune p ev p' \<and> sent_of [ev] = [] \<and> \<not> gp_aborted p' \<and> work_left p' < work_left p"
proof -
  have finish: ?thesis if tasks: "gp_tasks p \<noteq> []"
  proof -
    let ?p' = "p\<lparr>gp_store := execute_insert W (gp_tasks p ! 0) 0 (gp_store p), gp_tasks := remove_nth 0 (gp_tasks p),
        gp_connections := gp_connections p + 1, gp_permits := gp_permits p + 1\<rparr>"
    have "finish_insert W 0 0 p = Some ?p'" using tasks by (simp add: finish_insert_def)
    moreover have "work_left ?p' < work_left p" using tasks length_remove_nth [of 0 "gp_tasks p"] by (simp add: work_left_def)
    ultimately show ?thesis using persister_step.finish [OF alive, of W 0 0 ?p' prune] alive
      by (intro exI [of _ "Finish (gp_tasks p ! 0) 0"] exI [of _ ?p']) simp
  qed
  show ?thesis
  proof (cases "gp_in_hand p")
    case None
    show ?thesis
    proof (cases "recv (gp_receiver p)")
      case r: None
      then have "in_channel (gp_receiver p) = []" using inv mpsc.take_none by (auto simp: persister_inv_def)
      with None assms(3) show ?thesis by (intro finish) (simp add: drained_def)
    next
      case (Some x)
      obtain m ch where x: "x = (m, ch)" by (cases x)
      let ?p' = "p\<lparr>gp_receiver := ch, gp_in_hand := Some m, gp_count := gp_count p + 1\<rparr>"
      have t: "take_message prune False p = Some ?p'" using None Some x by (simp add: take_message_def)
      have "in_channel (gp_receiver p) = m # in_channel ch" using inv Some x mpsc.take_under_way by (fastforce simp: persister_inv_def)
      then have "work_left ?p' < work_left p" using None by (simp add: work_left_def)
      moreover have "persister_step W prune p (Take m False) ?p'" by (rule persister_step.take [OF alive t]) simp
      ultimately show ?thesis using alive by (intro exI [of _ "Take m False"] exI [of _ ?p']) simp
    qed
  next
    case (Some m)
    show ?thesis
    proof (cases "gp_permits p = 0")
      case True
      then show ?thesis using inv by (intro finish) (auto simp: persister_inv_def INSERT_PARALELLISM_def)
    next
      case False
      let ?p' = "p\<lparr>gp_in_hand := None, gp_permits := gp_permits p - 1, gp_connections := gp_connections p - 1, gp_tasks := gp_tasks p @ [m]\<rparr>"
      have "spawn_insert p = Some ?p'" using Some False by (simp add: spawn_insert_def)
      from persister_step.spawn [OF alive this] have "persister_step W prune p Spawn ?p'" .
      moreover have "work_left ?p' < work_left p" using Some by (simp add: work_left_def)
      ultimately show ?thesis using alive by (intro exI [of _ Spawn] exI [of _ ?p']) simp
    qed
  qed
qed

text \<open>The messages that have been sent and not inserted.\<close>

definition pending_messages :: "gossip_persister \<Rightarrow> gossip_message list" where
  "pending_messages p = gp_tasks p @ (case gp_in_hand p of None \<Rightarrow> [] | Some m \<Rightarrow> [m]) @ in_channel (gp_receiver p)"

lemma sent_accounted:
  assumes "persister_inv W st0 p evs"
  shows "mset (sent_of evs) = mset (finished_of evs) + mset (pending_messages p)"
proof -
  have "mset (sent_of evs) = mset (taken_of evs) + mset (in_channel (gp_receiver p))"
    using assms unfolding persister_inv_def by (metis mset_append)
  then show ?thesis using assms by (simp add: persister_inv_def pending_messages_def)
qed

section \<open>A sample run\<close>

text \<open>The events of a run, executed: a finished task is the first one.\<close>

fun exec_event :: "message_writer \<Rightarrow> persister_event \<Rightarrow> gossip_persister \<Rightarrow> gossip_persister option" where
  "exec_event W (Send m) p = (if gp_aborted p then None else case send_unwrap m (gp_receiver p) of Inr ch \<Rightarrow> Some (p\<lparr>gp_receiver := ch\<rparr>) | Inl _ \<Rightarrow> None)"
| "exec_event W (Take m cache_due) p = (if gp_aborted p then None else case take_message (\<lambda>g. g) cache_due p of
     Some p' \<Rightarrow> if gp_in_hand p' = Some m then Some p' else None | None \<Rightarrow> None)"
| "exec_event W Spawn p = (if gp_aborted p then None else spawn_insert p)"
| "exec_event W (Finish m now) p = (if \<not> gp_aborted p \<and> gp_tasks p ! 0 = m then finish_insert W 0 now p else None)"
| "exec_event W (Fail m executed) p = (if \<not> gp_aborted p \<and> gp_tasks p ! 0 = m then fail_insert W 0 executed p else None)"
| "exec_event W (Abort executed) p = (if gp_aborted p then None else abort_process W executed p)"

fun exec_events :: "message_writer \<Rightarrow> persister_event list \<Rightarrow> gossip_persister \<Rightarrow> gossip_persister option" where
  "exec_events W [] p = Some p"
| "exec_events W (ev # evs) p = (case exec_event W ev p of Some p' \<Rightarrow> exec_events W evs p' | None \<Rightarrow> None)"

lemma exec_events_append:
  "exec_events W (xs @ ys) p = (case exec_events W xs p of Some p' \<Rightarrow> exec_events W ys p' | None \<Rightarrow> None)"
  by (induction xs arbitrary: p) (auto split: option.split)

lemma exec_event_step: "exec_event W ev p = Some p' \<Longrightarrow> persister_step W (\<lambda>g. g) p ev p'"
  by (cases ev) (auto intro: persister_step.intros split: sum.splits option.splits if_splits)

lemma exec_events_run: "exec_events W evs p = Some p' \<Longrightarrow> persister_run W (\<lambda>g. g) p evs p'"
proof (induction evs arbitrary: p)
  case (Cons ev evs)
  then obtain p1 where "exec_event W ev p = Some p1" "exec_events W evs p1 = Some p'" by (auto split: option.splits)
  with Cons.IH [of p1] exec_event_step show ?case by (blast intro: run_prepend)
qed (auto intro: persister_run.start)

definition sample_writer :: message_writer where
  "sample_writer = \<lparr>mw_node_announcement = (\<lambda>m. []), mw_channel_announcement = (\<lambda>m. [ucast (ca_short_channel_id (contents m))]),
     mw_channel_update = (\<lambda>m. [ucast (cu_short_channel_id (contents m)), cu_channel_flags (contents m), ucast (cu_fee_base_msat (contents m))]),
     mw_node_features = bytes_of_node_features, mw_addresses = (\<lambda>as. concat (map bytes_of_address as))\<rparr>"

definition empty_store :: store where
  "empty_store = \<lparr>st_db = \<lparr>db_schema = Some 15, db_channel_announcements = [], db_channel_updates = [], db_node_announcements = []\<rparr>, st_next_id = 1\<rparr>"

lemma written_empty: "written W M empty_store"
  by (simp add: written_def empty_store_def)

definition sample_start :: gossip_persister where
  "sample_start = persist_gossip_start (mpsc_channel 100) empty_store sample_graph None"

definition sample_gossip_announcement :: gossip_message where
  "sample_gossip_announcement = ChannelAnnouncement (Signed (sample_announcement 100) []) 1000 None"

definition sample_gossip_update :: gossip_message where
  "sample_gossip_update = ChannelUpdate (Signed (sample_update 100 0 7) []) None"

definition sample_events :: "persister_event list" where
  "sample_events = [Send sample_gossip_announcement, Take sample_gossip_announcement False, Send sample_gossip_update, Spawn,
     Take sample_gossip_update True, Finish sample_gossip_announcement (seconds 1700000000), Spawn, Send sample_gossip_update,
     Finish sample_gossip_update (seconds 1700000010), Take sample_gossip_update False, Spawn, Finish sample_gossip_update (seconds 1700000020)]"

text \<open>The announcement and the update are stored once; the repeated update is a conflict that uses up an id.\<close>

definition sample_end :: gossip_persister where
  "sample_end = sample_start\<lparr>gp_count := 3, gp_permits := 16, gp_connections := 1, gp_graph_file := Some sample_graph,
     gp_store := \<lparr>st_db = \<lparr>db_schema = Some 15,
        db_channel_announcements = [announcement_row sample_writer (Signed (sample_announcement 100) []) 1000 (seconds 1700000000)],
        db_channel_updates = [update_row sample_writer (Signed (sample_update 100 0 7) []) 1 (seconds 1700000010)],
        db_node_announcements = []\<rparr>, st_next_id = 3\<rparr>\<rparr>"

lemma sample_run: "persister_run sample_writer (\<lambda>g. g) sample_start sample_events sample_end"
proof (rule exec_events_run)
  have neq: "sample_gossip_announcement \<noteq> sample_gossip_update" by (simp add: sample_gossip_announcement_def sample_gossip_update_def)
  have ann: "execute_insert sample_writer sample_gossip_announcement now st =
      insert_announcement sample_writer (Signed (sample_announcement 100) []) 1000 now st" for now st
    by (simp add: execute_insert_def sample_gossip_announcement_def)
  have upd: "execute_insert sample_writer sample_gossip_update now st = insert_update sample_writer (Signed (sample_update 100 0 7) []) now st" for now st
    by (simp add: execute_insert_def sample_gossip_update_def)
  show "exec_events sample_writer sample_events sample_start = Some sample_end"
    by (simp add: sample_events_def sample_start_def sample_end_def persist_gossip_start_def mpsc_channel_def send_unwrap_def has_room_def
        take_message_def recv_def spawn_insert_def finish_insert_def remove_nth_def persist_network_graph_def INSERT_PARALELLISM_def
        ann upd insert_announcement_def insert_update_def empty_store_def Let_def)
qed

lemma start_inv: "persister_inv W st (persist_gossip_start (mpsc_channel 100) st graph file) []"
  by (rule persister_inv_start) (simp_all add: mpsc_channel_ok)

lemmas run_inv = persister_inv_run [OF _ start_inv, simplified]

lemma drained_stored:
  assumes inv: "persister_inv W st p evs" and "drained p" and "m \<in> set (sent_of evs)"
  shows "stored W m (gp_store p)"
proof -
  have "m \<in># mset (finished_of evs)" using sent_accounted [OF inv] assms(2,3) by (simp add: pending_messages_def drained_def flip: set_mset_mset)
  with inv show ?thesis by (simp add: persister_inv_def)
qed

section \<open>Properties\<close>

text \<open>
  C16. The persister loses and duplicates nothing: the messages it has taken, followed by those in the
  channel, are the messages sent, in order; each message taken is in hand, in a task or inserted;
  every inserted message is in its table, and the tables only grow. Once everything is done, every
  message sent is stored. After a panic the same holds of what was in hand, in a task or inserted then.
\<close>

theorem persister_keeps_every_message:
  assumes "persister_run W prune (persist_gossip_start (mpsc_channel 100) st graph file) evs p"
  shows "taken_of evs @ in_channel (gp_receiver p) = sent_of evs \<and>
    mset (taken_of evs) = mset (case gp_in_hand p of None \<Rightarrow> [] | Some m \<Rightarrow> [m]) + mset (gp_tasks p) + mset (finished_of evs) \<and>
    (\<forall>m \<in> set (finished_of evs). stored W m (gp_store p)) \<and> extends st (gp_store p) \<and>
    (drained p \<longrightarrow> (\<forall>m \<in> set (sent_of evs). stored W m (gp_store p)))"
proof -
  have inv: "persister_inv W st p evs" by (rule run_inv [OF assms])
  with drained_stored [OF inv] show ?thesis by (simp add: persister_inv_def)
qed

theorem persister_keeps_every_message_witness:
  "stored sample_writer sample_gossip_update (gp_store sample_end) \<and> stored sample_writer sample_gossip_announcement (gp_store sample_end)"
proof -
  have d: "drained sample_end" by (simp add: drained_def sample_end_def sample_start_def persist_gossip_start_def mpsc_channel_ok)
  have "set (sent_of sample_events) = {sample_gossip_announcement, sample_gossip_update}" by (auto simp: sample_events_def sent_of_def)
  with persister_keeps_every_message [OF sample_run [unfolded sample_start_def]] d show ?thesis by simp
qed

text \<open>
  C18. At most sixteen inserts run at a time and at most sixteen connections are open: in every run the
  free permits and the running tasks add up to sixteen, and the cached connections and those of the
  running tasks are at most sixteen. The number of messages logged
  is the number taken, modulo the width of its counter.
\<close>

theorem persister_parallelism_bounded:
  assumes "persister_run W prune (persist_gossip_start (mpsc_channel 100) st graph file) evs p"
  shows "gp_permits p + length (gp_tasks p) = INSERT_PARALELLISM \<and>
    gp_connections p + length (gp_tasks p) \<le> INSERT_PARALELLISM \<and>
    gp_count p = word_of_nat (length (taken_of evs))"
  using run_inv [OF assms] by (simp add: persister_inv_def)

theorem persister_parallelism_bounded_witness: "gp_permits sample_end = INSERT_PARALELLISM \<and> gp_connections sample_end \<le> INSERT_PARALELLISM"
proof -
  have "gp_tasks sample_end = []" by (simp add: sample_end_def sample_start_def persist_gossip_start_def)
  with persister_parallelism_bounded [OF sample_run [unfolded sample_start_def]] show ?thesis by simp
qed

end
