(* ===== verification/Start_Sync.thy ===== *)
theory Start_Sync
  imports Persistence_Properties Config
begin

text \<open>
The start of src/lib.rs: loading the cached graph, the backfill of its gossip into the channel of the
  persister and the order of start_sync up to the snapshot job. Connecting to the database is left out.
\<close>

section \<open>Starting\<close>

text \<open>The graph is read from the cache file when there is one that can be read; LDK's reader and the empty graph are given.\<close>

definition rapid_sync_processor_new :: "(bytes \<Rightarrow> network_graph option) \<Rightarrow> (network \<Rightarrow> network_graph) \<Rightarrow> env \<Rightarrow> bytes option \<Rightarrow> network_graph res" where
  "rapid_sync_processor_new read_graph new_graph e cache_file =
     bind_res (config_network e) (\<lambda>network.
     Inr (case cache_file of
            Some file \<Rightarrow> (case read_graph file of Some network_graph \<Rightarrow> network_graph | None \<Rightarrow> new_graph network)
          | None \<Rightarrow> new_graph network))"

text \<open>The messages of one channel of the graph, and of all channels in the order the graph yields them.\<close>

definition last_update_message :: "channel_update_info option \<Rightarrow> channel_update option" where
  "last_update_message direction = (case direction of None \<Rightarrow> None | Some i \<Rightarrow> cui_last_update_message i)"

definition backfill_channel :: "channel_info \<Rightarrow> gossip_message list" where
  "backfill_channel chan =
     (case ci_announcement_message chan of
        Some announcement \<Rightarrow>
          (case ci_capacity_sats chan of Some funding \<Rightarrow> [ChannelAnnouncement announcement funding None] | None \<Rightarrow> [])
      | None \<Rightarrow> []) @
     (case last_update_message (ci_one_to_two chan) of Some update \<Rightarrow> [ChannelUpdate update None] | None \<Rightarrow> []) @
     (case last_update_message (ci_two_to_one chan) of Some update \<Rightarrow> [ChannelUpdate update None] | None \<Rightarrow> [])"

definition backfill_messages :: "(u64 \<times> channel_info) order \<Rightarrow> network_graph \<Rightarrow> gossip_message list" where
  "backfill_messages unordered_iter graph = concat (map (\<lambda>(_, chan). backfill_channel chan) (unordered_iter (graph_channels graph)))"

definition backfill :: "(u64 \<times> channel_info) order \<Rightarrow> network_graph \<Rightarrow> gossip_message mpsc \<Rightarrow> gossip_message mpsc res" where
  "backfill unordered_iter graph persistence_sender = fold_res send_unwrap (backfill_messages unordered_iter graph) persistence_sender"

text \<open>
  The order of \<open>start_sync\<close>: backfill, then downloading, then waiting for the first completion message.
  \<open>None\<close> means that every sender of the completion channel was dropped.
\<close>

definition start_sync_before_snapshots ::
  "(u64 \<times> channel_info) order \<Rightarrow> env \<Rightarrow> network_graph \<Rightarrow> unit option \<Rightarrow> gossip_message mpsc \<Rightarrow> gossip_message mpsc res" where
  "start_sync_before_snapshots unordered_iter e graph sync_completion persistence_sender =
     bind_res (snapshot_generation_interval e) (\<lambda>_.
     bind_res (if DOWNLOAD_NEW_GOSSIP then backfill unordered_iter graph persistence_sender else Inr persistence_sender) (\<lambda>ch.
     case (if DOWNLOAD_NEW_GOSSIP then sync_completion else Some ()) of
       None \<Rightarrow> Inl Assertion_Failed
     | Some _ \<Rightarrow> Inr ch))"

section \<open>The backfill\<close>

lemma backfill_sends:
  assumes "mpsc_ok ch" and "backfill iter graph ch = Inr ch'"
  shows "in_channel ch' = in_channel ch @ backfill_messages iter graph" and "mpsc_ok ch'"
  using mpsc.put_all_under_way [OF assms(1) assms(2) [unfolded backfill_def]] by blast+

lemma backfill_messages_of_channel:
  assumes "reorders iter" and "(scid, chan) \<in> set (graph_channels graph)"
  shows "set (backfill_channel chan) \<subseteq> set (backfill_messages iter graph)"
proof -
  have "(scid, chan) \<in> set (iter (graph_channels graph))" using assms by (metis reorders_def set_mset_mset)
  then show ?thesis by (auto simp: backfill_messages_def)
qed

text \<open>The rows that the messages of a channel leave in the tables.\<close>

definition backfilled :: "channel_info \<Rightarrow> database \<Rightarrow> bool" where
  "backfilled chan db \<longleftrightarrow>
     (\<forall>a f. ci_announcement_message chan = Some a \<and> ci_capacity_sats chan = Some f \<longrightarrow>
       (\<exists>r \<in> set (db_channel_announcements db). car_short_channel_id r = ca_short_channel_id (contents a))) \<and>
     (\<forall>d u. d \<in> {ci_one_to_two chan, ci_two_to_one chan} \<and> last_update_message d = Some u \<longrightarrow>
       (\<exists>r \<in> set (db_channel_updates db). update_key r = message_key u))"

lemma stored_backfilled:
  assumes "\<forall>m \<in> set (backfill_messages iter graph). stored W m st" and "reorders iter" and "(scid, chan) \<in> set (graph_channels graph)"
  shows "backfilled chan (st_db st)"
proof -
  have stored: "stored W m st" if "m \<in> set (backfill_channel chan)" for m
    using backfill_messages_of_channel [OF assms(2,3)] assms(1) that by blast
  have "\<exists>r \<in> set (db_channel_announcements (st_db st)). car_short_channel_id r = ca_short_channel_id (contents a)"
    if "ci_announcement_message chan = Some a" "ci_capacity_sats chan = Some f" for a f
    using stored [of "ChannelAnnouncement a f None"] that by (simp add: backfill_channel_def stored_def)
  moreover have "\<exists>r \<in> set (db_channel_updates (st_db st)). update_key r = message_key u"
    if "d \<in> {ci_one_to_two chan, ci_two_to_one chan}" "last_update_message d = Some u" for d u
    using stored [of "ChannelUpdate u None"] that by (auto simp: backfill_channel_def stored_def)
  ultimately show ?thesis unfolding backfilled_def by blast
qed

end
