(* ===== verification/Startup.thy ===== *)
theory Startup
  imports Start_Sync
begin

text \<open>
The start of the server with the lock on the graph: \<open>start_sync\<close> of src/lib.rs sends the backfill while
  it holds a read-only view of the graph, and the persister of src/persistence.rs, already running,
  prunes the graph before it caches it, for which it waits until no view is held. LDK's graph is
  behind a reader-writer lock: a view that \<open>read_only\<close> returned keeps writers out until it is dropped.
  The router, which sends to the persister too, is started after the backfill.
\<close>

section \<open>Steps\<close>

text \<open>
  The messages that are still to be sent, whether the view is held, and whether the persister is in the
  middle of \<open>persist_network_graph\<close>: the file has been opened and truncated, the graph not been pruned.
\<close>

record startup =
  su_persister :: gossip_persister
  su_backfill :: "gossip_message list"
  su_reading :: bool
  su_caching :: bool

abbreviation su_channel :: "startup \<Rightarrow> gossip_message mpsc" where
  "su_channel s \<equiv> gp_receiver (su_persister s)"

definition startup_start :: "(u64 \<times> channel_info) order \<Rightarrow> store \<Rightarrow> network_graph \<Rightarrow> network_graph option \<Rightarrow> startup" where
  "startup_start unordered_iter st graph file = \<lparr>su_persister = persist_gossip_start (mpsc_channel 100) st graph file,
     su_backfill = backfill_messages unordered_iter graph, su_reading = True, su_caching = False\<rparr>"

text \<open>The backfill goes on when its last send has returned; after the last message the view is dropped.\<close>

definition backfill_next :: "startup \<Rightarrow> startup option" where
  "backfill_next s =
     (if \<not> su_reading s \<or> ch_waiting (su_channel s) \<noteq> [] then None
      else case su_backfill s of
        [] \<Rightarrow> Some (s\<lparr>su_reading := False\<rparr>)
      | gossip_msg # rest \<Rightarrow> (case send_unwrap gossip_msg (su_channel s) of
          Inr ch \<Rightarrow> Some (s\<lparr>su_persister := (su_persister s)\<lparr>gp_receiver := ch\<rparr>, su_backfill := rest\<rparr>)
        | Inl _ \<Rightarrow> None))"

definition take_next :: "bool \<Rightarrow> startup \<Rightarrow> startup option" where
  "take_next cache_due s =
     (if su_caching s then None
      else case take_message id False (su_persister s) of
        None \<Rightarrow> None
      | Some p \<Rightarrow> Some (if cache_due then s\<lparr>su_persister := p\<lparr>gp_graph_file := None\<rparr>, su_caching := True\<rparr> else s\<lparr>su_persister := p\<rparr>))"

definition cache_graph :: "(network_graph \<Rightarrow> network_graph) \<Rightarrow> startup \<Rightarrow> startup option" where
  "cache_graph prune s =
     (if su_caching s \<and> \<not> su_reading s
      then Some (s\<lparr>su_persister := persist_network_graph prune (su_persister s), su_caching := False\<rparr>) else None)"

definition spawn_next :: "startup \<Rightarrow> startup option" where
  "spawn_next s = (if su_caching s then None else map_option (\<lambda>p. s\<lparr>su_persister := p\<rparr>) (spawn_insert (su_persister s)))"

text \<open>A step is labelled with the message that the router sends in it, if it is one of the router.\<close>

inductive startup_step :: "message_writer \<Rightarrow> (network_graph \<Rightarrow> network_graph) \<Rightarrow> startup \<Rightarrow> gossip_message option \<Rightarrow> startup \<Rightarrow> bool" for W prune where
  backfill: "\<not> gp_aborted (su_persister s) \<Longrightarrow> backfill_next s = Some s' \<Longrightarrow> startup_step W prune s None s'"
| router: "\<not> gp_aborted (su_persister s) \<Longrightarrow> \<not> su_reading s \<Longrightarrow> send_unwrap m (su_channel s) = Inr ch \<Longrightarrow>
    startup_step W prune s (Some m) (s\<lparr>su_persister := (su_persister s)\<lparr>gp_receiver := ch\<rparr>\<rparr>)"
| take: "\<not> gp_aborted (su_persister s) \<Longrightarrow> take_next cache_due s = Some s' \<Longrightarrow> startup_step W prune s None s'"
| cache: "\<not> gp_aborted (su_persister s) \<Longrightarrow> cache_graph prune s = Some s' \<Longrightarrow> startup_step W prune s None s'"
| spawn: "\<not> gp_aborted (su_persister s) \<Longrightarrow> spawn_next s = Some s' \<Longrightarrow> startup_step W prune s None s'"
| finish: "\<not> gp_aborted (su_persister s) \<Longrightarrow> finish_insert W i now (su_persister s) = Some p \<Longrightarrow> startup_step W prune s None (s\<lparr>su_persister := p\<rparr>)"
| abort: "\<not> gp_aborted (su_persister s) \<Longrightarrow> abort_process W executed (su_persister s) = Some p \<Longrightarrow> startup_step W prune s None (s\<lparr>su_persister := p\<rparr>)"

abbreviation startup_run :: "message_writer \<Rightarrow> (network_graph \<Rightarrow> network_graph) \<Rightarrow> startup \<Rightarrow> startup \<Rightarrow> bool" where
  "startup_run W prune \<equiv> (\<lambda>s s'. \<exists>m. startup_step W prune s m s')\<^sup>*\<^sup>*"

text \<open>A run with the messages that the router sends in it.\<close>

inductive startup_sends ::
  "message_writer \<Rightarrow> (network_graph \<Rightarrow> network_graph) \<Rightarrow> startup \<Rightarrow> gossip_message list \<Rightarrow> startup \<Rightarrow> bool" for W prune where
  start: "startup_sends W prune s [] s"
| step: "startup_sends W prune s ms s' \<Longrightarrow> startup_step W prune s' label s'' \<Longrightarrow> startup_sends W prune s (ms @ (case label of None \<Rightarrow> [] | Some m \<Rightarrow> [m])) s''"

lemma startup_run_sends: "startup_run W prune s s' \<Longrightarrow> \<exists>ms. startup_sends W prune s ms s'"
  by (induction rule: rtranclp_induct) (auto intro: startup_sends.intros)

lemma startup_sends_run: "startup_sends W prune s ms s' \<Longrightarrow> startup_run W prune s s'"
  by (induction rule: startup_sends.induct) (auto intro: rtranclp.rtrancl_into_rtrancl)

section \<open>The persister of the startup\<close>

text \<open>
  Seen from the persister the steps are steps of \<open>persister_step\<close>: there the graph is cached at once
  when it is due.
\<close>

definition cached_view :: "(network_graph \<Rightarrow> network_graph) \<Rightarrow> startup \<Rightarrow> gossip_persister" where
  "cached_view prune s = (if su_caching s then persist_network_graph prune (su_persister s) else su_persister s)"

definition backfill_due :: "persister_event list \<Rightarrow> startup \<Rightarrow> gossip_message multiset \<Rightarrow> bool" where
  "backfill_due evs s ms \<longleftrightarrow> mset (sent_of evs) + mset (su_backfill s) = ms \<and> (su_backfill s = [] \<or> su_reading s)"

lemma cached_view_fields [simp]:
  "gp_aborted (cached_view prune s) = gp_aborted (su_persister s)" "gp_receiver (cached_view prune s) = su_channel s"
  "gp_store (cached_view prune s) = gp_store (su_persister s)" "gp_tasks (cached_view prune s) = gp_tasks (su_persister s)"
  "gp_in_hand (cached_view prune s) = gp_in_hand (su_persister s)"
  by (simp_all add: cached_view_def persist_network_graph_def)

lemma startup_step_refines:
  assumes "startup_step W prune s label s'" and "backfill_due evs s ms"
  shows "cached_view prune s' = cached_view prune s \<and> label = None \<and> backfill_due evs s' ms \<or>
    (\<exists>ev. persister_step W prune (cached_view prune s) ev (cached_view prune s') \<and> backfill_due (evs @ [ev]) s' (ms + mset_set (set_option label)))"
  using assms(1)
proof cases
  case backfill
  show ?thesis
  proof (cases "su_backfill s")
    case Nil
    with backfill assms(2) show ?thesis by (auto simp: backfill_next_def cached_view_def backfill_due_def split: if_splits)
  next
    case (Cons m rest)
    with backfill obtain ch where ch: "send_unwrap m (gp_receiver (cached_view prune s)) = Inr ch"
      and s': "s' = s\<lparr>su_persister := (su_persister s)\<lparr>gp_receiver := ch\<rparr>, su_backfill := rest\<rparr>" "su_reading s"
      by (auto simp: backfill_next_def split: if_splits sum.splits)
    have "cached_view prune s' = (cached_view prune s)\<lparr>gp_receiver := ch\<rparr>" by (simp add: s' cached_view_def persist_network_graph_def)
    with persister_step.send [OF _ ch, of W prune] backfill(2) have "persister_step W prune (cached_view prune s) (Send m) (cached_view prune s')"
      by simp
    then show ?thesis using assms(2) Cons s' backfill(1) by (intro disjI2 exI [of _ "Send m"]) (auto simp: backfill_due_def)
  qed
next
  case (router m ch)
  have "cached_view prune s' = (cached_view prune s)\<lparr>gp_receiver := ch\<rparr>"
    using router by (simp add: cached_view_def persist_network_graph_def)
  with persister_step.send [of "cached_view prune s" m ch W prune] router
  have "persister_step W prune (cached_view prune s) (Send m) (cached_view prune s')" by simp
  then show ?thesis using assms(2) router by (intro disjI2 exI [of _ "Send m"]) (auto simp: backfill_due_def)
next
  case (take cache_due)
  then obtain p m where p: "take_message id False (su_persister s) = Some p" "gp_in_hand p = Some m" "\<not> su_caching s"
    and s': "s' = (if cache_due then s\<lparr>su_persister := p\<lparr>gp_graph_file := None\<rparr>, su_caching := True\<rparr> else s\<lparr>su_persister := p\<rparr>)"
    by (auto simp: take_next_def take_message_def split: if_splits option.splits)
  then have "take_message prune cache_due (cached_view prune s) = Some (cached_view prune s')" "gp_in_hand (cached_view prune s') = Some m"
    by (auto simp: cached_view_def take_message_def persist_network_graph_def Let_def split: option.splits)
  from persister_step.take [OF _ this] take(2) have "persister_step W prune (cached_view prune s) (Take m cache_due) (cached_view prune s')" by simp
  moreover have "backfill_due (evs @ [Take m cache_due]) s' (ms + mset_set (set_option label))" using assms(2) s' take(1) by (auto simp: backfill_due_def)
  ultimately show ?thesis by blast
next
  case cache
  with assms(2) show ?thesis by (auto simp: cache_graph_def cached_view_def backfill_due_def split: if_splits)
next
  case spawn
  then have "spawn_insert (cached_view prune s) = Some (cached_view prune s')" and s': "su_backfill s' = su_backfill s" "su_reading s' = su_reading s"
    by (auto simp: spawn_next_def cached_view_def split: if_splits)
  from persister_step.spawn [OF _ this(1)] spawn(2) have "persister_step W prune (cached_view prune s) Spawn (cached_view prune s')" by simp
  moreover have "backfill_due (evs @ [Spawn]) s' (ms + mset_set (set_option label))" using assms(2) s' spawn(1) by (auto simp: backfill_due_def)
  ultimately show ?thesis by blast
next
  case (finish i now p)
  then have "finish_insert W i now (cached_view prune s) = Some (cached_view prune s')"
    by (auto simp: finish_insert_def cached_view_def persist_network_graph_def split: if_splits)
  from persister_step.finish [OF _ this] finish(3)
  have "persister_step W prune (cached_view prune s) (Finish (gp_tasks (cached_view prune s) ! i) now) (cached_view prune s')" by simp
  moreover have "backfill_due (evs @ [Finish (gp_tasks (cached_view prune s) ! i) now]) s' (ms + mset_set (set_option label))" using assms(2) finish(1,2) by (auto simp: backfill_due_def)
  ultimately show ?thesis by blast
next
  case (abort executed p)
  then have "abort_process W executed (cached_view prune s) = Some (cached_view prune s')"
    by (auto simp: abort_process_def cached_view_def persist_network_graph_def split: if_splits)
  from persister_step.abort [OF _ this] abort(3) have "persister_step W prune (cached_view prune s) (Abort executed) (cached_view prune s')" by simp
  moreover have "backfill_due (evs @ [Abort executed]) s' (ms + mset_set (set_option label))" using assms(2) abort(1,2) by (auto simp: backfill_due_def)
  ultimately show ?thesis by blast
qed

lemma startup_sends_refines:
  assumes "startup_sends W prune s0 ms s" and "s0 = startup_start iter st graph file"
  shows "\<exists>evs. persister_run W prune (persist_gossip_start (mpsc_channel 100) st graph file) evs (cached_view prune s) \<and>
    backfill_due evs s (mset (backfill_messages iter graph) + mset ms)"
  using assms
proof (induction rule: startup_sends.induct)
  case (start s)
  then show ?case
    by (intro exI [of _ "[]"]) (simp add: startup_start_def cached_view_def backfill_due_def persister_run.start)
next
  case (step s0 ms s label s')
  then obtain evs where evs: "persister_run W prune (persist_gossip_start (mpsc_channel 100) st graph file) evs (cached_view prune s)"
    "backfill_due evs s (mset (backfill_messages iter graph) + mset ms)" by blast
  have "mset (ms @ (case label of None \<Rightarrow> [] | Some m \<Rightarrow> [m])) = mset ms + mset_set (set_option label)" by (cases label) simp_all
  with startup_step_refines [OF step.hyps(2) evs(2)] evs(1) show ?case by (auto simp: add.assoc intro: persister_run.step)
qed

section \<open>Progress and deadlock\<close>

text \<open>
  The channel stays open and well-formed. The backfill is stuck when the persister waits for the graph
  and more messages are left than the channel can hold.
\<close>

definition channel_usable :: "startup \<Rightarrow> bool" where
  "channel_usable s \<longleftrightarrow> mpsc_ok (su_channel s) \<and> \<not> ch_closed (su_channel s)"

definition backfill_stuck :: "startup \<Rightarrow> bool" where
  "backfill_stuck s \<longleftrightarrow> su_reading s \<and> su_caching s \<and>
     ch_capacity (su_channel s) < length (in_channel (su_channel s)) + length (su_backfill s)"

lemma send_unwrap_open: "send_unwrap m ch = Inr ch' \<Longrightarrow> ch_closed ch' = ch_closed ch \<and> ch_capacity ch' = ch_capacity ch"
  by (auto simp: send_unwrap_def split: if_splits)

lemma take_message_channel:
  assumes "take_message prune cache_due p = Some p'" and "mpsc_ok (gp_receiver p)"
  shows "mpsc_ok (gp_receiver p')" and "ch_closed (gp_receiver p') = ch_closed (gp_receiver p)"
proof -
  from assms(1) obtain m ch where "recv (gp_receiver p) = Some (m, ch)" "gp_receiver p' = ch"
    by (auto simp: take_message_def persist_network_graph_def Let_def split: option.splits if_splits)
  moreover from this(1) have "ch_closed ch = ch_closed (gp_receiver p)" by (auto simp: recv_def split: list.splits)
  ultimately show "mpsc_ok (gp_receiver p')" "ch_closed (gp_receiver p') = ch_closed (gp_receiver p)"
    using recv_ok [OF assms(2), of m ch] by simp_all
qed

lemma channel_usable_step:
  assumes "startup_step W prune s label s'" and "channel_usable s"
  shows "channel_usable s'"
  using assms
proof cases
  case backfill
  with assms(2) send_unwrap_ok send_unwrap_open show ?thesis
    by (fastforce simp: channel_usable_def backfill_next_def split: if_splits list.splits sum.splits)
next
  case (router m ch)
  with assms(2) send_unwrap_ok send_unwrap_open show ?thesis by (fastforce simp: channel_usable_def)
next
  case (take cache_due)
  then obtain p where "take_message id False (su_persister s) = Some p" "su_channel s' = gp_receiver p"
    by (auto simp: take_next_def split: if_splits option.splits)
  with take_message_channel [of id False "su_persister s" p] assms(2) show ?thesis by (simp add: channel_usable_def)
qed (auto simp: channel_usable_def cache_graph_def spawn_next_def persist_network_graph_def spawn_insert_def finish_insert_def abort_process_def
    split: if_splits option.splits)

lemma channel_usable_run: "startup_run W prune s s' \<Longrightarrow> channel_usable s \<Longrightarrow> channel_usable s'"
  by (induction rule: rtranclp_induct) (auto intro: channel_usable_step)

lemma channel_usable_start: "channel_usable (startup_start iter st graph file)"
  by (simp add: channel_usable_def startup_start_def persist_gossip_start_def mpsc_channel_ok mpsc_channel_def mpsc_ok_def)

text \<open>A stuck backfill stays stuck: the last message never leaves the sender, so the view is never dropped.\<close>

lemma stuck_step:
  assumes "startup_step W prune s label s'" and "backfill_stuck s" and "channel_usable s" and "gp_graph_file (su_persister s) = None"
  shows "backfill_stuck s' \<and> gp_count (su_persister s') = gp_count (su_persister s) \<and> gp_graph_file (su_persister s') = None"
  using assms(1)
proof cases
  case backfill
  show ?thesis
  proof (cases "su_backfill s")
    case Nil
    then have "length (in_channel (su_channel s)) \<le> ch_capacity (su_channel s)"
      using backfill assms(3) by (auto simp: backfill_next_def channel_usable_def mpsc_ok_def in_channel_def split: if_splits)
    with Nil assms(2) show ?thesis by (simp add: backfill_stuck_def)
  next
    case (Cons m rest)
    with backfill obtain ch where ch: "send_unwrap m (su_channel s) = Inr ch"
      and s': "s' = s\<lparr>su_persister := (su_persister s)\<lparr>gp_receiver := ch\<rparr>, su_backfill := rest\<rparr>"
      by (auto simp: backfill_next_def split: if_splits sum.splits)
    from send_unwrap_ok [OF _ ch] send_unwrap_open [OF ch] assms(2-4) Cons show ?thesis
      by (simp add: s' backfill_stuck_def channel_usable_def)
  qed
qed (use assms(2,4) in \<open>auto simp: backfill_stuck_def take_next_def cache_graph_def spawn_next_def finish_insert_def abort_process_def
    split: if_splits\<close>)

lemma stuck_run:
  assumes "startup_run W prune s s'" and "backfill_stuck s" and "channel_usable s" and "gp_graph_file (su_persister s) = None"
  shows "backfill_stuck s' \<and> gp_count (su_persister s') = gp_count (su_persister s) \<and> gp_graph_file (su_persister s') = None"
  using assms
proof (induction rule: rtranclp_induct)
  case (step s' s'')
  then obtain label where "startup_step W prune s' label s''" by blast
  with step stuck_step [of W prune s' label s''] channel_usable_run [OF step.hyps(1)] show ?case by metis
qed simp

text \<open>While the persister is in the middle of caching, the file is truncated.\<close>

lemma caching_truncated:
  "startup_step W prune s label s' \<Longrightarrow> su_caching s \<longrightarrow> gp_graph_file (su_persister s) = None \<Longrightarrow>
    su_caching s' \<longrightarrow> gp_graph_file (su_persister s') = None"
  by (erule startup_step.cases)
    (auto simp: backfill_next_def take_next_def cache_graph_def spawn_next_def spawn_insert_def finish_insert_def abort_process_def
      take_message_def Let_def split: if_splits list.splits sum.splits option.splits)

lemma caching_truncated_run:
  "startup_run W prune s s' \<Longrightarrow> su_caching s \<longrightarrow> gp_graph_file (su_persister s) = None \<Longrightarrow>
    su_caching s' \<longrightarrow> gp_graph_file (su_persister s') = None"
  by (induction rule: rtranclp_induct) (auto dest: caching_truncated)

text \<open>What is left to do shrinks with a step that is possible until everything is done.\<close>

definition startup_done :: "startup \<Rightarrow> bool" where
  "startup_done s \<longleftrightarrow> \<not> su_reading s \<and> \<not> su_caching s \<and> drained (su_persister s)"

definition startup_work :: "startup \<Rightarrow> nat" where
  "startup_work s = 4 * length (su_backfill s) + work_left (su_persister s) + (if su_reading s then 1 else 0) + (if su_caching s then 1 else 0)"

definition alive :: "startup \<Rightarrow> bool" where
  "alive s \<longleftrightarrow> \<not> gp_aborted (su_persister s) \<and> \<not> backfill_stuck s"

lemma backfill_progress:
  assumes "channel_usable s" and "alive s" and "su_reading s" and "ch_waiting (su_channel s) = []" and "su_caching s \<or> drained (su_persister s)"
  shows "\<exists>s'. startup_step W prune s None s' \<and> alive s' \<and> startup_work s' < startup_work s"
proof (cases "su_backfill s")
  case Nil
  let ?s' = "s\<lparr>su_reading := False\<rparr>"
  have "backfill_next s = Some ?s'" using assms(3,4) Nil by (simp add: backfill_next_def)
  with assms(2) have "startup_step W prune s None ?s'" by (auto simp: alive_def intro: startup_step.backfill)
  with assms(2,3) show ?thesis by (intro exI [of _ ?s']) (simp add: alive_def backfill_stuck_def startup_work_def)
next
  case (Cons m rest)
  obtain ch where ch: "send_unwrap m (su_channel s) = Inr ch" using assms(1) by (cases "has_room (su_channel s)") (simp_all add: channel_usable_def send_unwrap_def)
  let ?s' = "s\<lparr>su_persister := (su_persister s)\<lparr>gp_receiver := ch\<rparr>, su_backfill := rest\<rparr>"
  have len: "length (in_channel ch) = Suc (length (in_channel (su_channel s)))" "ch_capacity ch = ch_capacity (su_channel s)"
    using send_unwrap_ok [OF _ ch] send_unwrap_open [OF ch] assms(1) by (simp_all add: channel_usable_def)
  have "backfill_next s = Some ?s'" using assms(3,4) Cons ch by (simp add: backfill_next_def)
  with assms(2) have "startup_step W prune s None ?s'" by (auto simp: alive_def intro: startup_step.backfill)
  with assms(2,3) Cons len show ?thesis
    by (intro exI [of _ ?s']) (auto simp: alive_def backfill_stuck_def startup_work_def work_left_def)
qed

lemma persister_progress_lifted:
  assumes "persister_inv W st0 (su_persister s) evs" and "alive s" and "\<not> su_caching s" and "\<not> drained (su_persister s)"
  shows "\<exists>s'. startup_step W prune s None s' \<and> alive s' \<and> startup_work s' < startup_work s"
proof -
  from persister_progress [OF assms(1) _ assms(4), of id] assms(2) obtain ev p where
    p: "persister_step W id (su_persister s) ev p" "sent_of [ev] = []" "\<not> gp_aborted p" "work_left p < work_left (su_persister s)"
    by (auto simp: alive_def)
  let ?s' = "s\<lparr>su_persister := p\<rparr>"
  have less: "alive ?s'" "startup_work ?s' < startup_work s" using assms(3) p(3,4) by (simp_all add: alive_def backfill_stuck_def startup_work_def)
  have up: "\<not> gp_aborted (su_persister s)" using assms(2) by (simp add: alive_def)
  from p(1) show ?thesis
  proof cases
    case (take cache_due m)
    then obtain q where q: "take_message id False (su_persister s) = Some q" "work_left q = work_left p" "gp_aborted q = gp_aborted p"
      by (auto simp: take_message_def persist_network_graph_def work_left_def Let_def split: option.splits if_splits)
    then have "take_next False s = Some (s\<lparr>su_persister := q\<rparr>)" using assms(3) by (simp add: take_next_def)
    with up have "startup_step W prune s None (s\<lparr>su_persister := q\<rparr>)" by (rule startup_step.take)
    with q(2,3) assms(3) p(3,4) show ?thesis
      by (intro exI [of _ "s\<lparr>su_persister := q\<rparr>"]) (simp add: alive_def backfill_stuck_def startup_work_def)
  next
    case spawn
    then have "spawn_next s = Some ?s'" using assms(3) by (simp add: spawn_next_def)
    with up less show ?thesis by (blast intro: startup_step.spawn)
  next
    case (finish i now)
    with up less show ?thesis by (blast intro: startup_step.finish)
  qed (use p(2,3) in \<open>auto simp: fail_insert_def abort_process_def split: if_splits\<close>)
qed

lemma startup_progress:
  assumes "persister_inv W st0 (su_persister s) evs" and "channel_usable s" and "alive s" and "\<not> startup_done s"
  shows "\<exists>s'. startup_step W prune s None s' \<and> alive s' \<and> startup_work s' < startup_work s"
proof (cases "su_caching s")
  case True
  show ?thesis
  proof (cases "su_reading s")
    case reading: True
    then have "length (in_channel (su_channel s)) + length (su_backfill s) \<le> ch_capacity (su_channel s)"
      using True assms(3) by (simp add: alive_def backfill_stuck_def)
    then have "ch_waiting (su_channel s) = []" using assms(2)
      by (cases "ch_waiting (su_channel s)") (auto simp: channel_usable_def mpsc_ok_def in_channel_def)
    with backfill_progress [OF assms(2,3) reading] True show ?thesis by blast
  next
    case False
    let ?s' = "s\<lparr>su_persister := persist_network_graph prune (su_persister s), su_caching := False\<rparr>"
    have "cache_graph prune s = Some ?s'" using True False by (simp add: cache_graph_def)
    with assms(3) have "startup_step W prune s None ?s'" by (auto simp: alive_def intro: startup_step.cache)
    with assms(3) True show ?thesis
      by (intro exI [of _ ?s']) (simp add: alive_def backfill_stuck_def startup_work_def work_left_def persist_network_graph_def)
  qed
next
  case False
  show ?thesis
  proof (cases "drained (su_persister s)")
    case True
    then have "su_reading s" "ch_waiting (su_channel s) = []" using assms(4) False by (auto simp: startup_done_def drained_def in_channel_def)
    with backfill_progress [OF assms(2,3)] True show ?thesis by blast
  qed (use persister_progress_lifted [OF assms(1,3) False] in blast)
qed

lemma cached_view_inv: "persister_inv W st0 (cached_view prune s) evs \<longleftrightarrow> persister_inv W st0 (su_persister s) evs"
  by (simp add: persister_inv_def cached_view_def persist_network_graph_def)

lemma startup_sends_inv:
  assumes "startup_sends W prune (startup_start iter st graph file) ms s"
  shows "\<exists>evs. persister_inv W st (su_persister s) evs \<and> backfill_due evs s (mset (backfill_messages iter graph) + mset ms)"
proof -
  from startup_sends_refines [OF assms refl] obtain evs where
    "persister_run W prune (persist_gossip_start (mpsc_channel 100) st graph file) evs (cached_view prune s)"
    "backfill_due evs s (mset (backfill_messages iter graph) + mset ms)" by blast
  then show ?thesis using run_inv by (metis cached_view_inv)
qed

text \<open>Once the view is dropped and nothing is under way, everything sent is stored.\<close>

lemma startup_done_stored:
  assumes "startup_sends W prune (startup_start iter st graph file) ms s" and "startup_done s"
    and "m \<in> set (backfill_messages iter graph) \<union> set ms"
  shows "stored W m (gp_store (su_persister s))"
proof -
  from startup_sends_inv [OF assms(1)] obtain evs where
    evs: "persister_inv W st (su_persister s) evs" "backfill_due evs s (mset (backfill_messages iter graph) + mset ms)" by blast
  have d: "drained (su_persister s)" "\<not> su_reading s" using assms(2) by (simp_all add: startup_done_def)
  then have "mset (sent_of evs) = mset (backfill_messages iter graph) + mset ms" using evs(2) by (auto simp: backfill_due_def)
  then have "set (sent_of evs) = set (backfill_messages iter graph) \<union> set ms" by (metis set_mset_mset set_mset_union)
  with drained_stored [OF evs(1) d(1)] assms(3) show ?thesis by blast
qed

lemma startup_completes:
  assumes "startup_run W prune (startup_start iter st graph file) s" and "alive s"
  shows "\<exists>s'. startup_run W prune s s' \<and> startup_done s' \<and> alive s'"
  using assms
proof (induction "startup_work s" arbitrary: s rule: less_induct)
  case less
  show ?case
  proof (cases "startup_done s")
    case False
    from startup_run_sends [OF less.prems(1)] startup_sends_inv obtain evs where "persister_inv W st (su_persister s) evs" by blast
    from startup_progress [OF this channel_usable_run [OF less.prems(1) channel_usable_start] less.prems(2) False, of prune]
    obtain s1 where s1: "startup_step W prune s None s1" "alive s1" "startup_work s1 < startup_work s" by blast
    have run: "startup_run W prune (startup_start iter st graph file) s1"
      by (rule rtranclp.rtrancl_into_rtrancl [OF less.prems(1)]) (use s1(1) in blast)
    have "startup_run W prune s s1" using s1(1) by blast
    with less.hyps [OF s1(3) run s1(2)] show ?thesis by (meson rtranclp_trans)
  qed (use less.prems in blast)
qed

text \<open>
  The steps of the persister alone: nothing is sent and the process does not abort. After the backfill
  each of them leaves less work.
\<close>

definition quiet_step :: "message_writer \<Rightarrow> (network_graph \<Rightarrow> network_graph) \<Rightarrow> startup \<Rightarrow> startup \<Rightarrow> bool" where
  "quiet_step W prune s s' \<longleftrightarrow> startup_step W prune s None s' \<and> \<not> gp_aborted (su_persister s')"

definition drain_work :: "startup \<Rightarrow> nat" where
  "drain_work s = 4 * length (in_channel (su_channel s)) + (if gp_in_hand (su_persister s) = None then 0 else 2) +
     length (gp_tasks (su_persister s)) + (if su_caching s then 1 else 0)"

lemma quiet_step_drains:
  assumes "quiet_step W prune s s'" and "\<not> su_reading s" and "channel_usable s"
  shows "\<not> su_reading s' \<and> drain_work s' < drain_work s"
proof -
  have q: "startup_step W prune s None s'" "\<not> gp_aborted (su_persister s')" using assms(1) by (simp_all add: quiet_step_def)
  from q(1) show ?thesis
  proof cases
    case (take cache_due)
    then obtain p where p: "take_message id False (su_persister s) = Some p" "\<not> su_caching s"
      and s': "s' = (if cache_due then s\<lparr>su_persister := p\<lparr>gp_graph_file := None\<rparr>, su_caching := True\<rparr> else s\<lparr>su_persister := p\<rparr>)"
      by (auto simp: take_next_def split: if_splits option.splits)
    from p(1) obtain m ch where ch: "gp_in_hand (su_persister s) = None" "recv (su_channel s) = Some (m, ch)"
      "p = (su_persister s)\<lparr>gp_receiver := ch, gp_in_hand := Some m, gp_count := gp_count (su_persister s) + 1\<rparr>"
      by (auto simp: take_message_def Let_def split: option.splits)
    have "in_channel (su_channel s) = m # in_channel ch" using mpsc.take_under_way ch(2) assms(3) by (fastforce simp: channel_usable_def)
    with p(2) s' ch assms(2) show ?thesis by (auto simp: drain_work_def)
  next
    case (finish i now p)
    then show ?thesis using assms(2) length_remove_nth [of i "gp_tasks (su_persister s)"]
      by (auto simp: drain_work_def finish_insert_def split: if_splits)
  qed (use assms(2) q(2) in \<open>auto simp: drain_work_def backfill_next_def cache_graph_def persist_network_graph_def spawn_next_def spawn_insert_def
      abort_process_def split: if_splits option.splits\<close>)
qed

lemma quiet_steps_bounded:
  assumes "(quiet_step W prune ^^ n) s s'" and "\<not> su_reading s" and "channel_usable s"
  shows "n + drain_work s' \<le> drain_work s \<and> \<not> su_reading s'"
  using assms(1)
proof (induction n arbitrary: s')
  case (Suc n)
  then obtain s1 where s1: "(quiet_step W prune ^^ n) s s1" "quiet_step W prune s1 s'" by auto
  have "startup_run W prune s s1" using relpowp_imp_rtranclp [OF s1(1)] by (rule rtranclp_mono [THEN predicate2D, rotated]) (auto simp: quiet_step_def)
  from quiet_step_drains [OF s1(2) _ channel_usable_run [OF this assms(3)]] Suc.IH [OF s1(1)] show ?case by simp
qed (use assms(2) in simp)

lemma quiet_steps_sends: "(quiet_step W prune ^^ n) s s' \<Longrightarrow> startup_sends W prune s0 ms s \<Longrightarrow> startup_sends W prune s0 ms s'"
proof (induction n arbitrary: s')
  case (Suc n)
  then obtain s1 where "startup_sends W prune s0 ms s1" "startup_step W prune s1 None s'" by (auto simp: quiet_step_def)
  from startup_sends.step [OF this] show ?case by simp
qed simp

lemma quiet_steps_alive: "(quiet_step W prune ^^ n) s s' \<Longrightarrow> \<not> gp_aborted (su_persister s) \<Longrightarrow> \<not> gp_aborted (su_persister s')"
  by (induction n arbitrary: s') (auto simp: quiet_step_def)

section \<open>Properties\<close>

text \<open>
  C19. Once the backfill is over and the view of the graph dropped, the persister always drains: from any
  state a run of the start can reach then without a panic, whatever the persister does next, taking,
  caching, spawning and finishing inserts in any order, as long as nothing more is sent and nothing
  fails, it has at most a number of steps left that is given by the messages under way, and it only
  comes to rest when the channel is empty, no message is in hand or in a task, and every message that
  the backfill or the router has sent is stored. While the view is held this need not be so: the
  persister and the backfill may then wait for each other.
\<close>

theorem persister_drains:
  assumes "startup_sends W prune (startup_start iter st graph file) ms s"
    and "\<not> gp_aborted (su_persister s)" and "\<not> su_reading s"
    and "(quiet_step W prune ^^ n) s s'"
  shows "n \<le> drain_work s \<and>
    ((\<forall>s''. \<not> quiet_step W prune s' s'') \<longrightarrow> startup_done s' \<and>
      (\<forall>m \<in> set (backfill_messages iter graph) \<union> set ms. stored W m (gp_store (su_persister s'))))"
proof -
  have usable: "channel_usable s" by (rule channel_usable_run [OF startup_sends_run [OF assms(1)] channel_usable_start])
  note bounded = quiet_steps_bounded [OF assms(4,3) usable]
  have sends: "startup_sends W prune (startup_start iter st graph file) ms s'" by (rule quiet_steps_sends [OF assms(4,1)])
  have "startup_done s'" if rest: "\<forall>s''. \<not> quiet_step W prune s' s''"
  proof (rule ccontr)
    assume "\<not> startup_done s'"
    from startup_sends_inv [OF sends] obtain evs where inv: "persister_inv W st (su_persister s') evs" by blast
    have "alive s'" using quiet_steps_alive [OF assms(4,2)] bounded by (simp add: alive_def backfill_stuck_def)
    from startup_progress [OF inv channel_usable_run [OF startup_sends_run [OF sends] channel_usable_start] this \<open>\<not> startup_done s'\<close>, of prune] rest
    show False by (auto simp: quiet_step_def alive_def)
  qed
  with bounded startup_done_stored [OF sends] show ?thesis by auto
qed

text \<open>
  C25. The start completes: unless the process aborts, or the persister begins to cache the graph while
  more messages of the backfill are left than the channel can hold, every state the start can reach
  leads to one in which the view is dropped, so that downloading begins, no message is under way, and
  the gossip of the cached graph is in the tables again: a row for every channel with an announcement
  and a known capacity, and for the last update of every direction.
\<close>

theorem backfill_completes:
  assumes "reorders iter" and "startup_run W prune (startup_start iter st graph file) s"
    and "\<not> gp_aborted (su_persister s)" and "\<not> backfill_stuck s"
  shows "\<exists>s'. startup_run W prune s s' \<and> startup_done s' \<and>
    (\<forall>(scid, chan) \<in> set (graph_channels graph). backfilled chan (st_db (gp_store (su_persister s'))))"
proof -
  have "alive s" using assms(3,4) by (simp add: alive_def)
  from startup_completes [OF assms(2) this] obtain s' where s': "startup_run W prune s s'" "startup_done s'" by blast
  have run: "startup_run W prune (startup_start iter st graph file) s'" using assms(2) s'(1) by (rule rtranclp_trans)
  then obtain ms where "startup_sends W prune (startup_start iter st graph file) ms s'" using startup_run_sends by blast
  from startup_done_stored [OF this s'(2)] have "\<forall>m \<in> set (backfill_messages iter graph). stored W m (gp_store (su_persister s'))" by simp
  from stored_backfilled [OF this assms(1)] s' show ?thesis by blast
qed

definition sample_restart_channel :: channel_info where
  "sample_restart_channel = \<lparr>ci_announcement_message = Some (Signed (sample_announcement 100) []),
     ci_one_to_two = Some \<lparr>cui_enabled = True, cui_last_update_message = Some (Signed (sample_update 100 0 7) [])\<rparr>,
     ci_two_to_one = None, ci_capacity_sats = Some 1000\<rparr>"

definition sample_restart_graph :: "nat \<Rightarrow> network_graph" where
  "sample_restart_graph n = \<lparr>graph_channels = replicate n (100, sample_restart_channel), graph_nodes = []\<rparr>"

lemma sample_restart_messages:
  "backfill_messages rev (sample_restart_graph n) = concat (replicate n [sample_gossip_announcement, sample_gossip_update])"
  by (simp add: backfill_messages_def sample_restart_graph_def sample_restart_channel_def backfill_channel_def last_update_message_def
      sample_gossip_announcement_def sample_gossip_update_def)

text \<open>The first message is sent and taken; whether the graph is to be cached then is given.\<close>

definition sample_started :: "nat \<Rightarrow> bool \<Rightarrow> startup" where
  "sample_started n cache_due = (startup_start rev empty_store (sample_restart_graph n) None)
     \<lparr>su_persister := (persist_gossip_start (mpsc_channel 100) empty_store (sample_restart_graph n) None)
        \<lparr>gp_in_hand := Some sample_gossip_announcement, gp_count := 1\<rparr>,
      su_backfill := tl (backfill_messages rev (sample_restart_graph n)), su_caching := cache_due\<rparr>"

lemma sample_started_run:
  assumes "0 < n"
  shows "startup_run sample_writer (\<lambda>g. g) (startup_start rev empty_store (sample_restart_graph n) None) (sample_started n cache_due)"
proof -
  let ?s0 = "startup_start rev empty_store (sample_restart_graph n) None"
  let ?s1 = "?s0\<lparr>su_persister := (su_persister ?s0)\<lparr>gp_receiver := (mpsc_channel 100)\<lparr>ch_buffer := [sample_gossip_announcement]\<rparr>\<rparr>,
    su_backfill := tl (backfill_messages rev (sample_restart_graph n))\<rparr>"
  obtain k where n: "n = Suc k" using assms by (cases n) auto
  have "backfill_next ?s0 = Some ?s1"
    by (simp add: backfill_next_def startup_start_def sample_restart_messages n persist_gossip_start_def mpsc_channel_def send_unwrap_def has_room_def)
  moreover have "take_next cache_due ?s1 = Some (sample_started n cache_due)"
    by (simp add: take_next_def startup_start_def sample_started_def take_message_def recv_def persist_gossip_start_def mpsc_channel_def)
  ultimately show ?thesis
    using startup_step.backfill [of ?s0 ?s1 sample_writer "\<lambda>g. g"] startup_step.take [of ?s1 cache_due "sample_started n cache_due" sample_writer "\<lambda>g. g"]
    by (auto simp: startup_start_def persist_gossip_start_def intro: rtranclp_trans)
qed

text \<open>No channels to backfill; the router sends one update, which is taken, spawned and inserted.\<close>

definition sample_idle :: startup where
  "sample_idle = (startup_start rev empty_store (sample_restart_graph 0) None)\<lparr>su_reading := False\<rparr>"

definition sample_sent :: startup where
  "sample_sent = sample_idle\<lparr>su_persister := (su_persister sample_idle)\<lparr>gp_receiver := (mpsc_channel 100)\<lparr>ch_buffer := [sample_gossip_update]\<rparr>\<rparr>\<rparr>"

definition sample_drained :: startup where
  "sample_drained = sample_idle\<lparr>su_persister := (su_persister sample_idle)\<lparr>gp_count := 1, gp_connections := 1,
     gp_store := execute_insert sample_writer sample_gossip_update 0 empty_store\<rparr>\<rparr>"

lemmas sample_drain_simps = sample_idle_def sample_sent_def sample_drained_def startup_start_def persist_gossip_start_def mpsc_channel_def
  take_next_def take_message_def recv_def spawn_next_def spawn_insert_def finish_insert_def remove_nth_def INSERT_PARALELLISM_def

lemma sample_sent_run: "startup_sends sample_writer (\<lambda>g. g) (startup_start rev empty_store (sample_restart_graph 0) None) [sample_gossip_update] sample_sent"
proof -
  let ?s0 = "startup_start rev empty_store (sample_restart_graph 0) None"
  have "startup_step sample_writer (\<lambda>g. g) ?s0 None sample_idle"
    by (rule startup_step.backfill) (simp_all add: backfill_next_def sample_restart_messages sample_drain_simps)
  from startup_sends.step [OF startup_sends.start this] have idle: "startup_sends sample_writer (\<lambda>g. g) ?s0 [] sample_idle" by simp
  have "send_unwrap sample_gossip_update (su_channel sample_idle) = Inr ((mpsc_channel 100)\<lparr>ch_buffer := [sample_gossip_update]\<rparr>)"
    by (simp add: send_unwrap_def has_room_def sample_drain_simps)
  from startup_step.router [OF _ _ this] have "startup_step sample_writer (\<lambda>g. g) sample_idle (Some sample_gossip_update) sample_sent"
    by (simp add: sample_drain_simps)
  from startup_sends.step [OF idle this] show ?thesis by simp
qed

lemma sample_sent_drains: "(quiet_step sample_writer (\<lambda>g. g) ^^ 3) sample_sent sample_drained"
proof -
  let ?p = "su_persister sample_idle"
  let ?s1 = "sample_idle\<lparr>su_persister := ?p\<lparr>gp_in_hand := Some sample_gossip_update, gp_count := 1\<rparr>\<rparr>"
  let ?s2 = "sample_idle\<lparr>su_persister := ?p\<lparr>gp_count := 1, gp_permits := 15, gp_tasks := [sample_gossip_update]\<rparr>\<rparr>"
  have 1: "quiet_step sample_writer (\<lambda>g. g) sample_sent ?s1"
    unfolding quiet_step_def by (intro conjI startup_step.take [of _ False]) (simp_all add: sample_drain_simps)
  have 2: "quiet_step sample_writer (\<lambda>g. g) ?s1 ?s2"
    unfolding quiet_step_def by (intro conjI startup_step.spawn) (simp_all add: sample_drain_simps)
  have "finish_insert sample_writer 0 0 (su_persister ?s2) = Some (su_persister sample_drained)" by (simp add: sample_drain_simps)
  from startup_step.finish [OF _ this, of "\<lambda>g. g"] have 3: "quiet_step sample_writer (\<lambda>g. g) ?s2 sample_drained"
    by (simp add: quiet_step_def) (simp add: sample_drain_simps)
  from 1 2 3 show ?thesis by (auto simp: numeral_3_eq_3 intro: relcomppI)
qed

lemma sample_drained_rests: "\<not> quiet_step sample_writer (\<lambda>g. g) sample_drained s"
  by (auto simp: quiet_step_def elim!: startup_step.cases)
    (auto simp: backfill_next_def cache_graph_def abort_process_def sample_drain_simps split: if_splits)

theorem persister_drains_witness:
  "(quiet_step sample_writer (\<lambda>g. g) ^^ 3) sample_sent sample_drained \<and> 3 \<le> drain_work sample_sent \<and>
    startup_done sample_drained \<and> stored sample_writer sample_gossip_update (gp_store (su_persister sample_drained))"
proof -
  have "\<not> gp_aborted (su_persister sample_sent)" "\<not> su_reading sample_sent" by (simp_all add: sample_drain_simps)
  from persister_drains [OF sample_sent_run this sample_sent_drains] sample_drained_rests sample_sent_drains show ?thesis by auto
qed

theorem backfill_completes_witness:
  "\<exists>s'. startup_run sample_writer (\<lambda>g. g) (sample_started 1 True) s' \<and> startup_done s' \<and>
    backfilled sample_restart_channel (st_db (gp_store (su_persister s')))"
proof -
  have "\<not> gp_aborted (su_persister (sample_started 1 True))" "\<not> backfill_stuck (sample_started 1 True)"
    by (simp_all add: sample_started_def backfill_stuck_def persist_gossip_start_def mpsc_channel_ok sample_restart_messages)
      (simp add: mpsc_channel_def)
  moreover have "reorders (rev :: (u64 \<times> channel_info) order)" by (simp add: reorders_def)
  ultimately show ?thesis using backfill_completes [OF _ sample_started_run [of 1 True]] by (auto simp: sample_restart_graph_def)
qed

text \<open>
  C26. The start can deadlock: when ten minutes have passed before the backfill is over, the persister
  prunes the graph and waits for the view to be dropped, while the backfill, which holds the view, waits
  for the persister to take messages. If more messages are left than the channel can hold, this stays so
  whatever happens: the view is not dropped, so downloading never begins, no further message is taken,
  and the file of the cached graph, truncated already, stays empty.
\<close>

theorem backfill_deadlocks:
  assumes "startup_run W prune (startup_start iter st graph file) s" and "backfill_stuck s" and "startup_run W prune s s'"
  shows "su_reading s' \<and> backfill_stuck s' \<and> gp_count (su_persister s') = gp_count (su_persister s) \<and> gp_graph_file (su_persister s') = None"
proof -
  have "gp_graph_file (su_persister s) = None"
    using caching_truncated_run [OF assms(1)] assms(2) by (simp add: startup_start_def backfill_stuck_def)
  from stuck_run [OF assms(3,2) channel_usable_run [OF assms(1) channel_usable_start] this] show ?thesis
    by (simp add: backfill_stuck_def)
qed

theorem backfill_deadlocks_witness:
  "\<exists>s. startup_run sample_writer (\<lambda>g. g) (startup_start rev empty_store (sample_restart_graph 51) None) s \<and>
    (\<forall>s'. startup_run sample_writer (\<lambda>g. g) s s' \<longrightarrow> su_reading s' \<and> gp_count (su_persister s') = 1)"
proof -
  have "length (concat (replicate n [sample_gossip_announcement, sample_gossip_update])) = 2 * n" for n by (induction n) simp_all
  then have "backfill_stuck (sample_started 51 True)"
    by (simp add: sample_started_def backfill_stuck_def startup_start_def persist_gossip_start_def mpsc_channel_ok sample_restart_messages)
      (simp add: mpsc_channel_def)
  from backfill_deadlocks [OF sample_started_run this] sample_started_run show ?thesis
    by (intro exI [of _ "sample_started 51 True"]) (simp add: sample_started_def persist_gossip_start_def)
qed

end
