(* ===== verification/Gossip_To_Client.thy ===== *)
theory Gossip_To_Client
  imports Persistence_Properties
begin

text \<open>
From the gossip that is sent to the persister of src/persistence.rs to a client of the snapshots: the
  tables the persister writes satisfy the hypotheses of the lookups, and the client arrives at the
  newest update of every direction.
\<close>

lemma persisted_written:
  assumes "persister_run W prune (persist_gossip_start (mpsc_channel 100) empty_store graph file) evs p"
  shows "written W (set (sent_of evs)) (gp_store p)"
  using written_run [OF assms start_inv] written_empty by (simp add: persist_gossip_start_def)

lemma sample_scans: "scans_ok sample_lookup"
  by (simp add: scans_ok_def sample_lookup_def reorders_def)

lemma sample_sent: "set (sent_of sample_events) = {sample_gossip_announcement, sample_gossip_update}"
  by (auto simp: sample_events_def sent_of_def)

lemma sample_reads_back: "reads_back sample_writer sample_lookup (set (sent_of sample_events))"
  unfolding sample_sent
  by (simp add: reads_back_def sample_gossip_announcement_def sample_gossip_update_def sample_writer_def sample_lookup_def
      sample_read_announcement_def sample_read_update_def sample_announcement_def sample_update_def)

text \<open>
  C17. What the persister writes is what the lookups rely on: starting from empty tables, whatever the
  order of the inserts and whatever fails, a channel has at most one announcement and a direction at
  most one update per timestamp, every blob can be read back and belongs to the key of its row, and
  the direction column is the lowest flag bit. These are the hypotheses of the properties of the
  lookups, for any order in which the database delivers rows.
\<close>

theorem persisted_tables_ready_for_lookup:
  assumes "persister_run W prune (persist_gossip_start (mpsc_channel 100) empty_store graph file) evs p"
    and "reads_back W E (set (sent_of evs))" and "scans_ok E"
  shows "lookup_ok E (st_db (gp_store p)) \<and> nodes_table_ok E (st_db (gp_store p)) \<and> rows_directed E (st_db (gp_store p)) \<and>
    distinct (map update_key (db_channel_updates (st_db (gp_store p))))"
proof -
  note w = persisted_written [OF assms(1)]
  have "distinct (map update_key (db_channel_updates (st_db (gp_store p))))" using w by (simp add: written_def)
  with written_lookup_ok [OF w assms(2,3)] show ?thesis by blast
qed

theorem persisted_tables_ready_for_lookup_witness:
  "lookup_ok sample_lookup (st_db (gp_store sample_end)) \<and> length (db_channel_updates (st_db (gp_store sample_end))) = 1"
  using persisted_tables_ready_for_lookup [OF sample_run [unfolded sample_start_def] sample_reads_back sample_scans]
  by (simp add: sample_end_def)

section \<open>From a peer's gossip to a client\<close>

text \<open>The update with the highest timestamp of a direction among the messages.\<close>

definition newest_update :: "gossip_message set \<Rightarrow> u64 \<Rightarrow> bool \<Rightarrow> channel_update \<Rightarrow> bool" where
  "newest_update M scid b u \<longleftrightarrow> (\<exists>s. ChannelUpdate u s \<in> M) \<and> cu_short_channel_id (contents u) = scid \<and> bit (cu_channel_flags (contents u)) 0 = b \<and>
     (\<forall>w s. ChannelUpdate w s \<in> M \<and> cu_short_channel_id (contents w) = scid \<and> bit (cu_channel_flags (contents w)) 0 = b \<longrightarrow>
       cu_timestamp (contents w) \<le> cu_timestamp (contents u))"

lemma message_key_direction: "message_key u = (cu_short_channel_id (contents u), bit (cu_channel_flags (contents u)) 0, uint (cu_timestamp (contents u)))"
  by (simp add: message_key_def and_one_eq bit_0 mod_2_eq_odd)

lemma latest_row_newest:
  assumes w: "written W M st" and rb: "reads_back W E M" and all: "\<And>m. m \<in> M \<Longrightarrow> stored W m st"
    and after: "\<forall>r \<in> set (db_channel_updates (st_db st)). after_sync last_sync r"
    and l: "is_latest E (st_db st) last_sync scid b (Some l)"
  shows "\<exists>u. newest_update M scid b u \<and> ud_update l = contents u"
proof -
  from l obtain r where r: "r \<in> rows_of (st_db st) scid b" "l = delta_of_row E r"
    "\<And>r'. r' \<in> rows_of (st_db st) scid b \<Longrightarrow> cur_timestamp r' \<le> cur_timestamp r"
    using after by (auto simp: is_latest_def rows_of_def)
  then have "r \<in> set (db_channel_updates (st_db st))" by (simp add: rows_of_def)
  with w rb obtain u s now where u: "ChannelUpdate u s \<in> M" "r = update_row W u (cur_id r) now" "update_of E r = contents u" by (rule written_updateE)
  have key: "update_key r = message_key u" by (subst u(2)) simp
  have max: "cu_timestamp (contents w') \<le> cu_timestamp (contents u)"
    if m: "ChannelUpdate w' s' \<in> M" "cu_short_channel_id (contents w') = scid" "bit (cu_channel_flags (contents w')) 0 = b" for w' s'
  proof -
    from all [OF m(1)] obtain r' where r': "r' \<in> set (db_channel_updates (st_db st))" "update_key r' = message_key w'" by (auto simp: stored_def)
    then have "r' \<in> rows_of (st_db st) scid b" using m(2,3) by (simp add: rows_of_def message_key_direction update_key_def)
    from r(3) [OF this] have "uint (cu_timestamp (contents w')) \<le> uint (cu_timestamp (contents u))"
      using r'(2) key by (simp add: message_key_def update_key_def)
    then show ?thesis by (simp add: word_le_def)
  qed
  have "cu_short_channel_id (contents u) = scid" "bit (cu_channel_flags (contents u)) 0 = b"
    using r(1) key by (simp_all add: rows_of_def message_key_direction update_key_def)
  with max u(1,3) r(2) show ?thesis by (auto simp: newest_update_def delta_of_row_def)
qed

text \<open>
  From the persister to the client: messages sent to the persister from empty tables and all inserted, in
  any order, give a database from which a delta can be calculated, serialized and decoded without a
  panic; and for every update among them whose channel was announced to the persister and is in the
  graph, a client that has nothing yet and whose last sync was before the gossip was seen arrives at the
  policy of the update with the highest timestamp in that direction, up to the flags when a reminder is
  due. The theory Server lifts this to the gossip the router accepts.
\<close>

lemma persisted_reaches_client:
  assumes "wire_ok V R" and "hash_orders_ok ho" and "snapshot_generation_interval e = Inr interval"
    and "config_network e = Inr net" and "checked_sub now_3 CHANNEL_REMINDER_AGE = Some t"
    and run: "persister_run W prune' (persist_gossip_start (mpsc_channel 100) empty_store graph file) evs p"
    and fin: "drained p" and rb: "reads_back W E (set (sent_of evs))" "scans_ok E"
    and fits: "\<forall>m \<in> set (sent_of evs). gossip_fits V m" and "hm_inv (graph_node_deltas (prune g))"
    and nodes: "\<forall>(n, info) \<in> set (graph_nodes (prune g)). node_id_prefixed V n \<and> (\<forall>i. info = Some i \<longrightarrow> node_features_fit (nai_features i))"
    and db: "db = st_db (gp_store p)" and size: "2 * length (db_channel_announcements db) + length (graph_nodes (prune g)) < 2 ^ 32"
    and "PRUNE_INTERVAL \<le> reference_or reference now_1" and "PRUNE_INTERVAL \<le> reference_or reference now_2"
    and after: "\<forall>r \<in> set (db_channel_updates db). after_sync last_sync r"
  shows "\<exists>s resp snap. calculate_delta e genesis ho E prune now_1 now_2 now_3 db g last_sync reference = Inr (s, prune g) \<and>
    serialize_delta V e ho s version = Inr resp \<and> decode_snapshot R (sr_data resp) = Some (snap, []) \<and>
    (\<forall>u s a f s'. ChannelUpdate u s \<in> set (sent_of evs) \<and> ChannelAnnouncement a f s' \<in> set (sent_of evs) \<and>
       ca_short_channel_id (contents a) = cu_short_channel_id (contents u) \<and> cu_short_channel_id (contents u) \<in> set (graph_channel_ids (prune g)) \<longrightarrow>
       (\<exists>u' pol. newest_update (set (sent_of evs)) (cu_short_channel_id (contents u)) (bit (cu_channel_flags (contents u)) 0) u' \<and>
         client_direction (ws_updates snap) (cu_short_channel_id (contents u)) (bit (cu_channel_flags (contents u)) 0) None = Some pol \<and>
         same_but_flags pol (policy_of (contents u')) \<and>
         (\<not> reminder_due E db (graph_channel_ids (prune g)) last_sync (reference_or reference now_1) (cu_short_channel_id (contents u)) \<longrightarrow>
           pol = policy_of (contents u'))))"
proof -
  note w = persisted_written [OF run]
  note ok = written_lookup_ok [OF w rb, folded db]
  have gossip: "stored_gossip_ok V E db (prune g)"
    unfolding db by (rule written_gossip_ok [OF w rb(1) fits nodes size [unfolded db]])
  have all: "stored W m (gp_store p)" if "m \<in> set (sent_of evs)" for m
    by (rule drained_stored [OF run_inv [OF run] fin that])
  obtain ds s resp snap where c: "collected E db (prune g) last_sync (reference_or reference now_1) ds" "delta_set_ok ds"
    and r: "calculate_delta e genesis ho E prune now_1 now_2 now_3 db g last_sync reference = Inr (s, prune g)"
      "serialize_delta V e ho s version = Inr resp" "decode_snapshot R (sr_data resp) = Some (snap, [])"
    and u: "ws_updates snap = map update_view (concat (map (\<lambda>(scid, d). channel_updates_of last_sync (ucast t) scid d) ds))"
    by (rule calculated_snapshot [where prune = prune and g = g, OF assms(1-5) ok(1,2) assms(11) gossip assms(15,16)])
  have "\<exists>u' pol. newest_update (set (sent_of evs)) (cu_short_channel_id (contents u)) (bit (cu_channel_flags (contents u)) 0) u' \<and>
      client_direction (ws_updates snap) (cu_short_channel_id (contents u)) (bit (cu_channel_flags (contents u)) 0) None = Some pol \<and>
      same_but_flags pol (policy_of (contents u')) \<and>
      (\<not> reminder_due E db (graph_channel_ids (prune g)) last_sync (reference_or reference now_1) (cu_short_channel_id (contents u)) \<longrightarrow>
        pol = policy_of (contents u'))"
    if m: "ChannelUpdate u su \<in> set (sent_of evs)" "ChannelAnnouncement a f sa \<in> set (sent_of evs)"
      "ca_short_channel_id (contents a) = cu_short_channel_id (contents u)" "cu_short_channel_id (contents u) \<in> set (graph_channel_ids (prune g))"
    for u su a f sa
  proof -
    let ?scid = "cu_short_channel_id (contents u)" and ?b = "bit (cu_channel_flags (contents u)) 0"
    from all [OF m(1)] obtain row where row: "row \<in> set (db_channel_updates db)" "update_key row = message_key u"
      by (auto simp: stored_def db)
    then have rows: "row \<in> rows_of db ?scid ?b" by (simp add: rows_of_def message_key_direction update_key_def)
    have ann: "announcement_entry E db (graph_channel_ids (prune g)) ?scid \<noteq> None"
      using all [OF m(2)] m(3,4) by (auto simp: announcement_entry_def stored_def db find_None_iff)
    have "after_sync last_sync row" using after row(1) by blast
    from collected_catches_up [OF c ok(3) ann rows this, of "ucast t", folded u] obtain x l pol where
      x: "is_reference E db last_sync ?scid ?b x" "is_latest E db last_sync ?scid ?b (Some l)"
        "client_direction (ws_updates snap) ?scid ?b (map_option (\<lambda>y. policy_of (ud_update y)) x) = Some pol"
        "same_but_flags pol (policy_of (ud_update l))"
        "\<not> reminder_due E db (graph_channel_ids (prune g)) last_sync (reference_or reference now_1) ?scid \<longrightarrow> pol = policy_of (ud_update l)" by blast
    have "x = None" using x(1) after by (auto simp: is_reference_def rows_of_def split: option.splits)
    moreover from latest_row_newest [OF w rb(1) all after [unfolded db] x(2) [unfolded db]] obtain u' where
      "newest_update (set (sent_of evs)) ?scid ?b u'" "ud_update l = contents u'" by blast
    ultimately show ?thesis using x(3-5) by (intro exI [of _ u'] exI [of _ pol]) simp
  qed
  then show ?thesis using r by (intro exI [of _ s] exI [of _ resp] exI [of _ snap] conjI allI impI) blast+
qed

end
