(* ===== verification/Verifier.thy ===== *)
theory Verifier
  imports Rapid_Sync
begin

text \<open>
src/verifier.rs: how a short channel id is taken apart, the lookup of the output it names through the
  REST interface of a Bitcoin node, and the cache of funding amounts. The node's answers are a
  parameter. The tasks it spawns are modelled by what they do; a panic in one of them
  aborts the process like any other (src/Cargo.toml), and is a value here.
\<close>

section \<open>Blocks and the REST client\<close>

text \<open>
  The part of rust-bitcoin's blocks that is read, and the answers of the REST client: the hash of a
  block by the resource path, and a block by its hash. \<open>None\<close> is an error of the request.
\<close>

record tx_out =
  txo_value :: u64
  txo_script_pubkey :: bytes

type_synonym transaction_outputs = "tx_out list"
type_synonym block = "transaction_outputs list"

datatype block_data = FullBlock block | HeaderOnly

record rest_client =
  rc_block_hash :: "string \<Rightarrow> bytes option"
  rc_block :: "bytes \<Rightarrow> block_data option"

datatype utxo_lookup_error = UnknownChain | UnknownTx

section \<open>The verifier\<close>

text \<open>The state behind the mutexes: the cache of funding amounts and whether a peer manager has been set.\<close>

record chain_verifier =
  cv_channel_funding_amounts :: "(u64 \<times> u64) list"
  cv_peer_handler :: bool

definition chain_verifier_new :: chain_verifier where
  "chain_verifier_new = \<lparr>cv_channel_funding_amounts = [], cv_peer_handler = False\<rparr>"

definition set_ph :: "chain_verifier \<Rightarrow> chain_verifier" where
  "set_ph cv = cv\<lparr>cv_peer_handler := True\<rparr>"

definition get_cached_funding_value :: "u64 \<Rightarrow> chain_verifier \<Rightarrow> u64 option" where
  "get_cached_funding_value scid cv = hm_get (cv_channel_funding_amounts cv) scid"

definition block_height :: "u64 \<Rightarrow> u32" where
  "block_height short_channel_id = ucast (drop_bit (5 * 8) short_channel_id)"

definition transaction_index :: "u64 \<Rightarrow> u32" where
  "transaction_index short_channel_id = ucast (drop_bit (2 * 8) short_channel_id AND 0xffffff)"

definition output_index :: "u64 \<Rightarrow> u16" where
  "output_index short_channel_id = ucast (short_channel_id AND 0xffff)"

definition block_hash_uri :: "u32 \<Rightarrow> string" where
  "block_hash_uri height = ''blockhashbyheight/'' @ dec_string (unat height) @ ''.bin''"

definition retrieve_block :: "rest_client \<Rightarrow> u32 \<Rightarrow> (utxo_lookup_error + block) res" where
  "retrieve_block client height =
     (case rc_block_hash client (block_hash_uri height) of
        None \<Rightarrow> Inr (Inl UnknownChain)
      | Some block_hash \<Rightarrow>
          if length block_hash \<noteq> 32 then Inl Unwrap_None
          else (case rc_block client block_hash of
             Some (FullBlock block) \<Rightarrow> Inr (Inr block)
           | Some HeaderOnly \<Rightarrow> Inl Unreachable
           | None \<Rightarrow> Inr (Inl UnknownChain)))"

definition retrieve_cache_txo ::
  "rest_client \<Rightarrow> (u64 \<times> u64) list option \<Rightarrow> u64 \<Rightarrow> ((utxo_lookup_error + tx_out) \<times> (u64 \<times> u64) list option) res" where
  "retrieve_cache_txo client channel_funding_amounts short_channel_id =
     bind_res (retrieve_block client (block_height short_channel_id)) (\<lambda>result.
       case result of
         Inl e \<Rightarrow> Inr (Inl e, channel_funding_amounts)
       | Inr block \<Rightarrow>
           if length block \<le> unat (transaction_index short_channel_id) then Inr (Inl UnknownTx, channel_funding_amounts)
           else let transaction = block ! unat (transaction_index short_channel_id)
                in if length transaction \<le> unat (output_index short_channel_id) then Inr (Inl UnknownTx, channel_funding_amounts)
                   else let txo = transaction ! unat (output_index short_channel_id)
                        in Inr (Inr txo, map_option (hm_insert short_channel_id (txo_value txo)) channel_funding_amounts))"

definition retrieve_txo :: "rest_client \<Rightarrow> u64 \<Rightarrow> (utxo_lookup_error + tx_out) res" where
  "retrieve_txo client short_channel_id = bind_res (retrieve_cache_txo client None short_channel_id) (\<lambda>(r, _). Inr r)"

text \<open>A lookup through the shared cache, as \<open>retrieve_funding_value\<close> and \<open>get_utxo\<close> start it.\<close>

definition lookup_txo :: "rest_client \<Rightarrow> u64 \<Rightarrow> chain_verifier \<Rightarrow> ((utxo_lookup_error + tx_out) \<times> chain_verifier) res" where
  "lookup_txo client scid cv =
     bind_res (retrieve_cache_txo client (Some (cv_channel_funding_amounts cv)) scid) (\<lambda>(r, cache).
       Inr (r, cv\<lparr>cv_channel_funding_amounts := (case cache of Some c \<Rightarrow> c | None \<Rightarrow> cv_channel_funding_amounts cv)\<rparr>))"

definition retrieve_funding_value :: "rest_client \<Rightarrow> u64 \<Rightarrow> chain_verifier \<Rightarrow> ((utxo_lookup_error + u64) \<times> chain_verifier) res" where
  "retrieve_funding_value client scid cv =
     bind_res (lookup_txo client scid cv) (\<lambda>(r, cv). Inr (map_sum id txo_value r, cv))"

text \<open>
  The task that \<open>get_utxo\<close> spawns: what it resolves the future with, and whether it then lets the
  peer manager process events. The peer manager is the one set when \<open>get_utxo\<close> was called.
\<close>

definition get_utxo :: "rest_client \<Rightarrow> u64 \<Rightarrow> bool \<Rightarrow> chain_verifier \<Rightarrow> ((utxo_lookup_error + tx_out) \<times> bool \<times> chain_verifier) res" where
  "get_utxo client short_channel_id peer_handler_at_call cv =
     bind_res (lookup_txo client short_channel_id cv) (\<lambda>(r, cv). Inr (r, peer_handler_at_call, cv))"

section \<open>The output a short channel id names\<close>

definition chain_output :: "rest_client \<Rightarrow> u64 \<Rightarrow> utxo_lookup_error + tx_out" where
  "chain_output client scid =
     (case rc_block_hash client (block_hash_uri (block_height scid)) of
        None \<Rightarrow> Inl UnknownChain
      | Some h \<Rightarrow> (case rc_block client h of
          Some (FullBlock b) \<Rightarrow>
            if unat (transaction_index scid) < length b \<and> unat (output_index scid) < length (b ! unat (transaction_index scid))
            then Inr (b ! unat (transaction_index scid) ! unat (output_index scid)) else Inl UnknownTx
        | _ \<Rightarrow> Inl UnknownChain))"

text \<open>The node answers with 32-byte hashes and whole blocks.\<close>

definition rest_client_ok :: "rest_client \<Rightarrow> bool" where
  "rest_client_ok client \<longleftrightarrow> (\<forall>uri h. rc_block_hash client uri = Some h \<longrightarrow> length h = 32) \<and>
     (\<forall>h. rc_block client h \<noteq> Some HeaderOnly)"

lemma retrieve_cache_txo_spec:
  assumes "rest_client_ok client"
  shows "retrieve_cache_txo client cache scid = Inr (chain_output client scid,
    case chain_output client scid of Inl _ \<Rightarrow> cache | Inr txo \<Rightarrow> map_option (hm_insert scid (txo_value txo)) cache)"
proof -
  have "length h = 32" if "rc_block_hash client uri = Some h" for uri h using assms that by (auto simp: rest_client_ok_def)
  moreover have "rc_block client h \<noteq> Some HeaderOnly" for h using assms by (simp add: rest_client_ok_def)
  ultimately show ?thesis
    by (auto simp: retrieve_cache_txo_def retrieve_block_def chain_output_def Let_def split: option.split block_data.split)
qed

text \<open>Whatever is cached is the value of the output on chain.\<close>

definition funding_cache_ok :: "rest_client \<Rightarrow> chain_verifier \<Rightarrow> bool" where
  "funding_cache_ok client cv \<longleftrightarrow> hm_inv (cv_channel_funding_amounts cv) \<and>
     (\<forall>scid v. get_cached_funding_value scid cv = Some v \<longrightarrow> (\<exists>txo. chain_output client scid = Inr txo \<and> txo_value txo = v))"

lemma lookup_txo_spec:
  assumes "rest_client_ok client" and "funding_cache_ok client cv"
  shows "\<exists>cv'. lookup_txo client scid cv = Inr (chain_output client scid, cv') \<and> funding_cache_ok client cv' \<and>
    cv_peer_handler cv' = cv_peer_handler cv \<and>
    (\<forall>txo. chain_output client scid = Inr txo \<longrightarrow> get_cached_funding_value scid cv' = Some (txo_value txo)) \<and>
    (\<forall>s. s \<noteq> scid \<longrightarrow> get_cached_funding_value s cv' = get_cached_funding_value s cv)"
  using assms(2)
  by (cases "chain_output client scid")
    (auto simp: lookup_txo_def retrieve_cache_txo_spec [OF assms(1)] funding_cache_ok_def get_cached_funding_value_def hm_get_insert hm_inv_insert)

text \<open>A short channel id packed from its parts.\<close>

definition pack_scid :: "nat \<Rightarrow> nat \<Rightarrow> nat \<Rightarrow> u64" where
  "pack_scid height tx vout = word_of_nat (height * 2 ^ 40 + tx * 2 ^ 16 + vout)"

lemma pack_scid_parts:
  assumes "h < 2 ^ 24" and "t < 2 ^ 24" and "v < 2 ^ 16"
  shows "unat (block_height (pack_scid h t v)) = h" and "unat (transaction_index (pack_scid h t v)) = t"
    and "unat (output_index (pack_scid h t v)) = v"
proof -
  let ?n = "h * 2 ^ 40 + t * 2 ^ 16 + v"
  have lt: "?n < 2 ^ 64" using assms by simp
  then have u: "unat (pack_scid h t v) = ?n" unfolding pack_scid_def unat_of_nat by simp
  have m24: "x AND 0xffffff = take_bit 24 x" and m16: "x AND 0xffff = take_bit 16 x" for x :: u64
    by (simp_all add: take_bit_eq_mask mask_eq_exp_minus_1)
  have "?n div 2 ^ 40 = h" using assms by simp
  then show "unat (block_height (pack_scid h t v)) = h"
    using assms(1) by (simp add: block_height_def unsigned_ucast_eq unsigned_drop_bit_eq u unat_div unat_mod drop_bit_eq_div take_bit_eq_mod)
  have n: "?n = v + (t + h * 2 ^ 24) * 2 ^ 16" by simp
  have "?n div 2 ^ 16 = t + h * 2 ^ 24"
  proof -
    from n have "?n div 2 ^ 16 = t + h * 2 ^ 24 + v div 2 ^ 16" by (simp only: div_mult_self1 [OF power_not_zero] numeral_neq_zero) simp
    then show ?thesis using assms(3) by simp
  qed
  then have "?n div 2 ^ 16 mod 2 ^ 24 = t" using assms(2) by simp
  then show "unat (transaction_index (pack_scid h t v)) = t"
    by (simp add: transaction_index_def m24 unsigned_ucast_eq unsigned_take_bit_eq unsigned_drop_bit_eq u unat_div unat_mod drop_bit_eq_div take_bit_eq_mod mod_mod_cancel)
  have "?n mod 2 ^ 16 = v" unfolding n mod_mult_self1 using assms(3) by simp
  then show "unat (output_index (pack_scid h t v)) = v"
    by (simp add: output_index_def m16 unsigned_ucast_eq unsigned_take_bit_eq u unat_mod take_bit_eq_mod)
qed

end
