(* ===== verification/Downloader.thy ===== *)
theory Downloader
  imports Verifier Message_Queue
begin

text \<open>
src/downloader.rs: the counters, the router between LDK's gossip handlers and the persister, and the
  runs of the router with the chain lookups and the receptions of the persister in any order. What
  LDK's native router and outbound gossiper answer is given with each call; the methods that only pass
  a call on to the native router are left out.
\<close>

section \<open>Counters and router\<close>

record gossip_counter =
  gc_node_announcements :: u64
  gc_channel_announcements :: u64
  gc_channel_updates :: u64
  gc_channel_updates_without_htlc_max_msats :: u64
  gc_channel_announcements_with_mismatched_scripts :: u64

definition gossip_counter_new :: gossip_counter where
  "gossip_counter_new = \<lparr>gc_node_announcements = 0, gc_channel_announcements = 0, gc_channel_updates = 0,
     gc_channel_updates_without_htlc_max_msats = 0, gc_channel_announcements_with_mismatched_scripts = 0\<rparr>"

record gossip_router =
  gr_counter :: gossip_counter
  gr_sender :: "gossip_message mpsc"
  gr_verifier :: chain_verifier

definition gossip_router_new :: "gossip_message mpsc \<Rightarrow> gossip_router" where
  "gossip_router_new sender = \<lparr>gr_counter = gossip_counter_new, gr_sender = sender, gr_verifier = chain_verifier_new\<rparr>"

definition set_pm :: "gossip_router \<Rightarrow> gossip_router" where
  "set_pm r = r\<lparr>gr_verifier := set_ph (gr_verifier r)\<rparr>"

section \<open>New gossip\<close>

text \<open>The end of the three functions: the message goes to the persister, waiting for room when there is none.\<close>

definition forward :: "gossip_message \<Rightarrow> gossip_router \<Rightarrow> gossip_router res" where
  "forward m r = bind_res (try_send_or_wait m (gr_sender r)) (\<lambda>ch. Inr (r\<lparr>gr_sender := ch\<rparr>))"

text \<open>
  When the funding amount is not cached it is looked up, but inside a \<open>move\<close> closure: the closure
  assigns to its own copy of the variable, so that the variable that is unwrapped next is still \<open>None\<close>.
\<close>

definition new_channel_announcement :: "rest_client \<Rightarrow> channel_announcement \<Rightarrow> gossip_router \<Rightarrow> gossip_router res" where
  "new_channel_announcement client msg r =
     (let counter = gr_counter r;
          r = r\<lparr>gr_counter := counter\<lparr>gc_channel_announcements := gc_channel_announcements counter + 1\<rparr>\<rparr>;
          scid = ca_short_channel_id (contents msg);
          funding_amount_sats = get_cached_funding_value scid (gr_verifier r)
      in bind_res (if funding_amount_sats = None
           then bind_res (retrieve_funding_value client scid (gr_verifier r)) (\<lambda>(copied_funding_amount_sats, cv). Inr (r\<lparr>gr_verifier := cv\<rparr>))
           else Inr r) (\<lambda>r.
         bind_res (unwrap funding_amount_sats) (\<lambda>funding_amount_sats.
         forward (ChannelAnnouncement msg funding_amount_sats None) r)))"

definition new_node_announcement :: "node_announcement \<Rightarrow> gossip_router \<Rightarrow> gossip_router res" where
  "new_node_announcement msg r =
     (let counter = gr_counter r
      in forward (NodeAnnouncement msg None)
           (r\<lparr>gr_counter := counter\<lparr>gc_node_announcements := gc_node_announcements counter + 1\<rparr>\<rparr>))"

definition new_channel_update :: "channel_update \<Rightarrow> gossip_router \<Rightarrow> gossip_router res" where
  "new_channel_update msg r =
     (let counter = gr_counter r
      in forward (ChannelUpdate msg None)
           (r\<lparr>gr_counter := counter\<lparr>gc_channel_updates := gc_channel_updates counter + 1\<rparr>\<rparr>))"

section \<open>Handlers\<close>

text \<open>
  The events of LDK's outbound gossiper and the results of its native router are given; an error of
  the native router is passed on before anything else happens.
\<close>

datatype message_send_event =
    BroadcastChannelAnnouncement channel_announcement
  | BroadcastNodeAnnouncement node_announcement
  | BroadcastChannelUpdate channel_update
  | OtherEvent

definition broadcast_step :: "rest_client \<Rightarrow> message_send_event \<Rightarrow> gossip_router \<Rightarrow> gossip_router res" where
  "broadcast_step client ev r = (case ev of
     BroadcastChannelAnnouncement msg \<Rightarrow> new_channel_announcement client msg r
   | BroadcastNodeAnnouncement msg \<Rightarrow> new_node_announcement msg r
   | BroadcastChannelUpdate msg \<Rightarrow> new_channel_update msg r
   | OtherEvent \<Rightarrow> Inl Unreachable)"

definition get_and_clear_pending_msg_events ::
  "rest_client \<Rightarrow> message_send_event list \<Rightarrow> message_send_event list \<Rightarrow> gossip_router \<Rightarrow> (message_send_event list \<times> gossip_router) res" where
  "get_and_clear_pending_msg_events client gossip_evs native_evs r =
     bind_res (fold_res (broadcast_step client) gossip_evs r) (\<lambda>r. Inr (native_evs, r))"

type_synonym lightning_error = string

definition handle_node_announcement ::
  "lightning_error + bool \<Rightarrow> node_announcement \<Rightarrow> gossip_router \<Rightarrow> ((lightning_error + bool) \<times> gossip_router) res" where
  "handle_node_announcement native msg r = (case native of
     Inl e \<Rightarrow> Inr (Inl e, r)
   | Inr b \<Rightarrow> bind_res (new_node_announcement msg r) (\<lambda>r. Inr (Inr b, r)))"

definition handle_channel_announcement ::
  "rest_client \<Rightarrow> lightning_error + bool \<Rightarrow> channel_announcement \<Rightarrow> gossip_router \<Rightarrow> ((lightning_error + bool) \<times> gossip_router) res" where
  "handle_channel_announcement client native msg r = (case native of
     Inl e \<Rightarrow> Inr (Inl e, r)
   | Inr b \<Rightarrow> bind_res (new_channel_announcement client msg r) (\<lambda>r. Inr (Inr b, r)))"

definition handle_channel_update ::
  "lightning_error + bool \<Rightarrow> channel_update \<Rightarrow> gossip_router \<Rightarrow> ((lightning_error + bool) \<times> gossip_router) res" where
  "handle_channel_update native msg r = (case native of
     Inl e \<Rightarrow> Inr (Inl e, r)
   | Inr b \<Rightarrow> bind_res (new_channel_update msg r) (\<lambda>r. Inr (Inr b, r)))"

section \<open>Runs of the router\<close>

text \<open>
  The calls the peer manager makes, the lookups the graph starts and what the persister takes from the
  channel, in any order. Every accepted message is forwarded with the funding amount on chain.
\<close>

datatype router_event =
    Handle_Node "lightning_error + bool" node_announcement
  | Handle_Channel "lightning_error + bool" channel_announcement
  | Handle_Update "lightning_error + bool" channel_update
  | Pending_Events "message_send_event list" "message_send_event list"
  | Utxo_Lookup u64
  | Persister_Takes gossip_message

inductive router_step :: "rest_client \<Rightarrow> gossip_router \<Rightarrow> router_event \<Rightarrow> gossip_router \<Rightarrow> bool" for client where
  node: "handle_node_announcement native msg r = Inr (res, r') \<Longrightarrow> router_step client r (Handle_Node native msg) r'"
| channel: "handle_channel_announcement client native msg r = Inr (res, r') \<Longrightarrow> router_step client r (Handle_Channel native msg) r'"
| update: "handle_channel_update native msg r = Inr (res, r') \<Longrightarrow> router_step client r (Handle_Update native msg) r'"
| pending: "get_and_clear_pending_msg_events client evs native r = Inr (out, r') \<Longrightarrow> router_step client r (Pending_Events evs native) r'"
| utxo: "get_utxo client scid (cv_peer_handler (gr_verifier r)) (gr_verifier r) = Inr (res, pm, cv) \<Longrightarrow>
    router_step client r (Utxo_Lookup scid) (r\<lparr>gr_verifier := cv\<rparr>)"
| takes: "recv (gr_sender r) = Some (m, ch) \<Longrightarrow> router_step client r (Persister_Takes m) (r\<lparr>gr_sender := ch\<rparr>)"

inductive router_run :: "rest_client \<Rightarrow> gossip_router \<Rightarrow> router_event list \<Rightarrow> gossip_router \<Rightarrow> bool" for client where
  start: "router_run client r [] r"
| step: "router_run client r evs r' \<Longrightarrow> router_step client r' ev r'' \<Longrightarrow> router_run client r (evs @ [ev]) r''"

text \<open>What an event forwards and what it takes.\<close>

definition funding_of :: "rest_client \<Rightarrow> channel_announcement \<Rightarrow> u64" where
  "funding_of client msg = (case chain_output client (ca_short_channel_id (contents msg)) of Inr txo \<Rightarrow> txo_value txo | Inl _ \<Rightarrow> 0)"

definition event_message :: "rest_client \<Rightarrow> message_send_event \<Rightarrow> gossip_message list" where
  "event_message client ev = (case ev of
     BroadcastChannelAnnouncement msg \<Rightarrow> [ChannelAnnouncement msg (funding_of client msg) None]
   | BroadcastNodeAnnouncement msg \<Rightarrow> [NodeAnnouncement msg None]
   | BroadcastChannelUpdate msg \<Rightarrow> [ChannelUpdate msg None]
   | OtherEvent \<Rightarrow> [])"

definition forwarded :: "rest_client \<Rightarrow> router_event \<Rightarrow> gossip_message list" where
  "forwarded client ev = (case ev of
     Handle_Node (Inr _) msg \<Rightarrow> event_message client (BroadcastNodeAnnouncement msg)
   | Handle_Channel (Inr _) msg \<Rightarrow> event_message client (BroadcastChannelAnnouncement msg)
   | Handle_Update (Inr _) msg \<Rightarrow> event_message client (BroadcastChannelUpdate msg)
   | Pending_Events evs _ \<Rightarrow> concat (map (event_message client) evs)
   | _ \<Rightarrow> [])"

definition taken :: "router_event \<Rightarrow> gossip_message list" where
  "taken ev = (case ev of Persister_Takes m \<Rightarrow> [m] | _ \<Rightarrow> [])"

fun is_node_message :: "gossip_message \<Rightarrow> bool" where
  "is_node_message (NodeAnnouncement _ _) = True" | "is_node_message _ = False"

fun is_channel_message :: "gossip_message \<Rightarrow> bool" where
  "is_channel_message (ChannelAnnouncement _ _ _) = True" | "is_channel_message _ = False"

fun is_update_message :: "gossip_message \<Rightarrow> bool" where
  "is_update_message (ChannelUpdate _ _) = True" | "is_update_message _ = False"

text \<open>The counters agree with a list of messages.\<close>

definition counts :: "gossip_counter \<Rightarrow> gossip_message list \<Rightarrow> bool" where
  "counts c ms \<longleftrightarrow> gc_node_announcements c = word_of_nat (length (filter is_node_message ms)) \<and>
     gc_channel_announcements c = word_of_nat (length (filter is_channel_message ms)) \<and>
     gc_channel_updates c = word_of_nat (length (filter is_update_message ms)) \<and>
     gc_channel_updates_without_htlc_max_msats c = 0 \<and> gc_channel_announcements_with_mismatched_scripts c = 0"

definition router_ok :: "rest_client \<Rightarrow> gossip_message list \<Rightarrow> gossip_message list \<Rightarrow> gossip_router \<Rightarrow> bool" where
  "router_ok client sent got r \<longleftrightarrow> mpsc_ok (gr_sender r) \<and> got @ in_channel (gr_sender r) = sent \<and>
     counts (gr_counter r) sent \<and> funding_cache_ok client (gr_verifier r)"

lemma router_ok_new: "router_ok client [] [] (gossip_router_new (mpsc_channel 100))"
  by (simp add: router_ok_def gossip_router_new_def mpsc_channel_ok counts_def gossip_counter_new_def funding_cache_ok_def
      chain_verifier_new_def get_cached_funding_value_def)

lemma forward_ok:
  assumes "forward m r = Inr r'" and "mpsc_ok (gr_sender r)"
  shows "in_channel (gr_sender r') = in_channel (gr_sender r) @ [m]" and "mpsc_ok (gr_sender r')"
    and "gr_counter r' = gr_counter r" and "gr_verifier r' = gr_verifier r"
  using assms mpsc.put_under_way [OF assms(2), of m] by (auto simp: forward_def try_send_or_wait_eq bind_res_eq_Inr)

lemma uncached_panics:
  assumes "get_cached_funding_value (ca_short_channel_id (contents msg)) (gr_verifier r) = None"
  shows "\<exists>e. new_channel_announcement client msg r = Inl e"
    and "rest_client_ok client \<Longrightarrow> funding_cache_ok client (gr_verifier r) \<Longrightarrow> new_channel_announcement client msg r = Inl Unwrap_None"
proof -
  have run: "new_channel_announcement client msg r =
      bind_res (retrieve_funding_value client (ca_short_channel_id (contents msg)) (gr_verifier r)) (\<lambda>_. Inl Unwrap_None)"
    using assms by (auto simp: new_channel_announcement_def Let_def unwrap_def bind_res_def split: sum.split)
  then show "\<exists>e. new_channel_announcement client msg r = Inl e"
    by (cases "retrieve_funding_value client (ca_short_channel_id (contents msg)) (gr_verifier r)") auto
  assume "rest_client_ok client" and "funding_cache_ok client (gr_verifier r)"
  from lookup_txo_spec [OF this, of "ca_short_channel_id (contents msg)"]
  show "new_channel_announcement client msg r = Inl Unwrap_None" unfolding run by (auto simp: retrieve_funding_value_def)
qed

lemma cached_forwards:
  assumes "get_cached_funding_value (ca_short_channel_id (contents msg)) (gr_verifier r) = Some v"
  shows "new_channel_announcement client msg r = forward (ChannelAnnouncement msg v None)
    (r\<lparr>gr_counter := gr_counter r\<lparr>gc_channel_announcements := gc_channel_announcements (gr_counter r) + 1\<rparr>\<rparr>)"
  using assms by (simp add: new_channel_announcement_def Let_def)

lemma broadcast_ok:
  assumes ok: "router_ok client sent got r" and client: "rest_client_ok client" and step: "broadcast_step client ev r = Inr r'"
  shows "router_ok client (sent @ event_message client ev) got r'"
proof (cases ev)
  case (BroadcastChannelAnnouncement msg)
  let ?scid = "ca_short_channel_id (contents msg)"
  let ?r1 = "r\<lparr>gr_counter := gr_counter r\<lparr>gc_channel_announcements := gc_channel_announcements (gr_counter r) + 1\<rparr>\<rparr>"
  have cache: "funding_cache_ok client (gr_verifier r)" using ok by (simp add: router_ok_def)
  from step BroadcastChannelAnnouncement obtain v where v: "get_cached_funding_value ?scid (gr_verifier r) = Some v"
    using uncached_panics [of msg r client] by (cases "get_cached_funding_value ?scid (gr_verifier r)") (auto simp: broadcast_step_def)
  then have "funding_of client msg = v" using cache by (fastforce simp: funding_cache_ok_def funding_of_def)
  with step v BroadcastChannelAnnouncement have "forward (ChannelAnnouncement msg (funding_of client msg) None) ?r1 = Inr r'"
    by (simp add: broadcast_step_def cached_forwards)
  from forward_ok [OF this] ok BroadcastChannelAnnouncement show ?thesis by (auto simp: router_ok_def event_message_def counts_def)
next
  case (BroadcastNodeAnnouncement msg)
  with step have "forward (NodeAnnouncement msg None)
      (r\<lparr>gr_counter := gr_counter r\<lparr>gc_node_announcements := gc_node_announcements (gr_counter r) + 1\<rparr>\<rparr>) = Inr r'"
    by (simp add: broadcast_step_def new_node_announcement_def Let_def)
  from forward_ok [OF this] ok BroadcastNodeAnnouncement show ?thesis by (auto simp: router_ok_def event_message_def counts_def)
next
  case (BroadcastChannelUpdate msg)
  with step have "forward (ChannelUpdate msg None)
      (r\<lparr>gr_counter := gr_counter r\<lparr>gc_channel_updates := gc_channel_updates (gr_counter r) + 1\<rparr>\<rparr>) = Inr r'"
    by (simp add: broadcast_step_def new_channel_update_def Let_def)
  from forward_ok [OF this] ok BroadcastChannelUpdate show ?thesis by (auto simp: router_ok_def event_message_def counts_def)
qed (use step in \<open>simp add: broadcast_step_def\<close>)

lemma broadcasts_ok:
  assumes "fold_res (broadcast_step client) evs r = Inr r'" and "router_ok client sent got r" and "rest_client_ok client"
  shows "router_ok client (sent @ concat (map (event_message client) evs)) got r'"
  using assms
proof (induction evs arbitrary: r sent)
  case (Cons ev evs)
  from Cons.prems(1) obtain r1 where r1: "broadcast_step client ev r = Inr r1" "fold_res (broadcast_step client) evs r1 = Inr r'"
    by (auto simp: bind_res_eq_Inr)
  from Cons.IH [OF r1(2) broadcast_ok [OF Cons.prems(2,3) r1(1)] Cons.prems(3)] show ?case by simp
qed simp

lemma router_step_ok:
  assumes "router_step client r ev r'" and ok: "router_ok client sent got r" and client: "rest_client_ok client"
  shows "router_ok client (sent @ forwarded client ev) (got @ taken ev) r'"
  using assms(1)
proof cases
  case (node native msg res)
  then show ?thesis using ok broadcast_ok [OF ok client, of "BroadcastNodeAnnouncement msg"]
    by (cases native) (auto simp: handle_node_announcement_def forwarded_def taken_def broadcast_step_def bind_res_eq_Inr)
next
  case (channel native msg res)
  then show ?thesis using ok broadcast_ok [OF ok client, of "BroadcastChannelAnnouncement msg"]
    by (cases native) (auto simp: handle_channel_announcement_def forwarded_def taken_def broadcast_step_def bind_res_eq_Inr)
next
  case (update native msg res)
  then show ?thesis using ok broadcast_ok [OF ok client, of "BroadcastChannelUpdate msg"]
    by (cases native) (auto simp: handle_channel_update_def forwarded_def taken_def broadcast_step_def bind_res_eq_Inr)
next
  case (pending evs native out)
  then show ?thesis using broadcasts_ok [OF _ ok client, of evs]
    by (auto simp: get_and_clear_pending_msg_events_def forwarded_def taken_def bind_res_eq_Inr)
next
  case (utxo scid res pm cv)
  then show ?thesis using ok lookup_txo_spec [OF client, of "gr_verifier r" scid]
    by (auto simp: router_ok_def forwarded_def taken_def get_utxo_def bind_res_eq_Inr)
next
  case (takes m ch)
  then show ?thesis using ok mpsc.take_under_way [OF _ takes(3)] by (auto simp: router_ok_def forwarded_def taken_def)
qed

lemma router_run_ok:
  assumes "router_run client r evs r'" and "router_ok client sent got r" and "rest_client_ok client"
  shows "router_ok client (sent @ concat (map (forwarded client) evs)) (got @ concat (map taken evs)) r'"
  using assms
proof (induction rule: router_run.induct)
  case (step r evs r' ev r'')
  from router_step_ok [OF step.hyps(2) step.IH [OF step.prems] step.prems(2)] show ?case by simp
qed simp

text \<open>Only the lookups that the graph starts fill the cache: a handler returns only when it found its value there.\<close>

definition utxo_found :: "rest_client \<Rightarrow> router_event list \<Rightarrow> u64 \<Rightarrow> u64 option" where
  "utxo_found client evs scid =
     (if Utxo_Lookup scid \<in> set evs then (case chain_output client scid of Inr txo \<Rightarrow> Some (txo_value txo) | Inl _ \<Rightarrow> None) else None)"

lemma forward_open: "\<not> ch_closed (gr_sender r) \<Longrightarrow> \<exists>r'. forward m r = Inr r'"
  by (simp add: forward_def try_send_or_wait_eq send_unwrap_def)

lemma forward_keeps: "forward m r = Inr r' \<Longrightarrow> gr_verifier r' = gr_verifier r \<and> ch_closed (gr_sender r') = ch_closed (gr_sender r)"
  by (auto simp: forward_def try_send_or_wait_eq send_unwrap_def bind_res_eq_Inr split: if_splits)

lemma broadcast_keeps:
  assumes "broadcast_step client ev r = Inr r'"
  shows "gr_verifier r' = gr_verifier r \<and> ch_closed (gr_sender r') = ch_closed (gr_sender r)"
proof (cases ev)
  case (BroadcastChannelAnnouncement msg)
  with assms uncached_panics(1) [of msg r client] obtain v where
    "get_cached_funding_value (ca_short_channel_id (contents msg)) (gr_verifier r) = Some v"
    by (cases "get_cached_funding_value (ca_short_channel_id (contents msg)) (gr_verifier r)") (auto simp: broadcast_step_def)
  with assms BroadcastChannelAnnouncement show ?thesis by (auto simp: broadcast_step_def cached_forwards dest!: forward_keeps)
qed (use assms in \<open>auto simp: broadcast_step_def new_node_announcement_def new_channel_update_def Let_def dest!: forward_keeps\<close>)

lemma router_step_keeps:
  assumes "router_step client r ev r'"
  shows "ch_closed (gr_sender r') = ch_closed (gr_sender r)" and "(\<forall>scid. ev \<noteq> Utxo_Lookup scid) \<Longrightarrow> gr_verifier r' = gr_verifier r"
proof -
  have node: "new_node_announcement m r = broadcast_step client (BroadcastNodeAnnouncement m) r"
    and chan: "new_channel_announcement client a r = broadcast_step client (BroadcastChannelAnnouncement a) r"
    and upd: "new_channel_update u r = broadcast_step client (BroadcastChannelUpdate u) r" for m a u
    by (simp_all add: broadcast_step_def)
  have evs: "gr_verifier r' = gr_verifier r \<and> ch_closed (gr_sender r') = ch_closed (gr_sender r)"
    if "fold_res (broadcast_step client) evs r = Inr r'" for evs
    using fold_res_invariant [OF that, of "\<lambda>q. gr_verifier q = gr_verifier r \<and> ch_closed (gr_sender q) = ch_closed (gr_sender r)"]
      broadcast_keeps by fastforce
  show "ch_closed (gr_sender r') = ch_closed (gr_sender r)" "(\<forall>scid. ev \<noteq> Utxo_Lookup scid) \<Longrightarrow> gr_verifier r' = gr_verifier r"
    using assms
    by (auto elim!: router_step.cases split: sum.splits list.splits dest!: broadcast_keeps evs
        simp: handle_node_announcement_def handle_channel_announcement_def handle_channel_update_def get_and_clear_pending_msg_events_def
          node chan upd bind_res_eq_Inr recv_def)
qed

lemma router_run_cache:
  assumes "router_run client r0 evs r" and "rest_client_ok client" and "r0 = gossip_router_new (mpsc_channel 100)"
  shows "\<not> ch_closed (gr_sender r) \<and> funding_cache_ok client (gr_verifier r) \<and>
    (\<forall>scid. get_cached_funding_value scid (gr_verifier r) = utxo_found client evs scid)"
  using assms
proof (induction rule: router_run.induct)
  case (start r)
  then show ?case by (simp add: gossip_router_new_def mpsc_channel_def chain_verifier_new_def funding_cache_ok_def get_cached_funding_value_def utxo_found_def)
next
  case (step r0 evs r ev r')
  note IH = step.IH [OF step.prems]
  show ?case
  proof (cases "\<exists>scid. ev = Utxo_Lookup scid")
    case True
    then obtain scid where ev: "ev = Utxo_Lookup scid" by blast
    with step.hyps(2) obtain res pm cv where
      u: "get_utxo client scid (cv_peer_handler (gr_verifier r)) (gr_verifier r) = Inr (res, pm, cv)" "r' = r\<lparr>gr_verifier := cv\<rparr>"
      by (auto elim: router_step.cases)
    from lookup_txo_spec [OF step.prems(1) IH [THEN conjunct2, THEN conjunct1], of scid] u(1)
    have "funding_cache_ok client cv" "\<forall>s. s \<noteq> scid \<longrightarrow> get_cached_funding_value s cv = get_cached_funding_value s (gr_verifier r)"
      "\<forall>txo. chain_output client scid = Inr txo \<longrightarrow> get_cached_funding_value scid cv = Some (txo_value txo)"
      by (auto simp: get_utxo_def)
    moreover from this(1) have "get_cached_funding_value scid cv = None" if "chain_output client scid = Inl e" for e
      using that unfolding funding_cache_ok_def by (metis Inl_Inr_False option.exhaust)
    ultimately have "get_cached_funding_value s cv = utxo_found client (evs @ [ev]) s" for s
      using IH by (cases "s = scid") (auto simp: utxo_found_def ev split: sum.split)
    with IH \<open>funding_cache_ok client cv\<close> show ?thesis unfolding u(2) by simp
  next
    case False
    with step.hyps(2) IH router_step_keeps [OF step.hyps(2)] show ?thesis by (auto simp: utxo_found_def)
  qed
qed

section \<open>Properties\<close>

text \<open>A node with one block of one transaction.\<close>

definition sample_client :: rest_client where
  "sample_client = \<lparr>rc_block_hash = (\<lambda>uri. if uri = block_hash_uri 700000 then Some (replicate 32 1) else None),
     rc_block = (\<lambda>h. Some (FullBlock [[], [\<lparr>txo_value = 5000, txo_script_pubkey = []\<rparr>, \<lparr>txo_value = 20000, txo_script_pubkey = []\<rparr>]]))\<rparr>"

lemma sample_client_ok: "rest_client_ok sample_client"
  by (simp add: rest_client_ok_def sample_client_def)

text \<open>
  C20. The router forwards gossip faithfully: in every run, in any order of handler calls, chain
  lookups and receptions, the messages the persister has taken followed by those still in the
  channel are exactly the messages the native router accepted or the outbound gossiper broadcast,
  once each and in that order, with the channel's funding amount as it is on chain; the counters
  are the numbers of these messages of each kind; the channel's buffer never exceeds its capacity.
\<close>

theorem router_forwards_in_order:
  assumes "rest_client_ok client" and "router_run client (gossip_router_new (mpsc_channel 100)) evs r"
  shows "concat (map taken evs) @ in_channel (gr_sender r) = concat (map (forwarded client) evs) \<and>
    counts (gr_counter r) (concat (map (forwarded client) evs)) \<and> length (ch_buffer (gr_sender r)) \<le> ch_capacity (gr_sender r)"
  using router_run_ok [OF assms(2) router_ok_new assms(1)] by (simp add: router_ok_def mpsc_ok_def)

text \<open>A run: an update is accepted, another rejected, and the persister takes the first.\<close>

definition sample_run_update :: channel_update where
  "sample_run_update = Signed \<lparr>cu_short_channel_id = 7, cu_timestamp = 1, cu_channel_flags = 0, cu_cltv_expiry_delta = 40,
     cu_htlc_minimum_msat = 1, cu_htlc_maximum_msat = 10, cu_fee_base_msat = 1, cu_fee_proportional_millionths = 1\<rparr> []"

theorem router_forwards_in_order_witness:
  "\<exists>r. router_run sample_client (gossip_router_new (mpsc_channel 100))
      [Handle_Update (Inr True) sample_run_update, Handle_Update (Inl ''stale'') sample_run_update, Persister_Takes (ChannelUpdate sample_run_update None)] r \<and>
    in_channel (gr_sender r) = [] \<and> gc_channel_updates (gr_counter r) = 1"
proof -
  let ?u = "sample_run_update" and ?r0 = "gossip_router_new (mpsc_channel 100)"
  let ?r1 = "?r0\<lparr>gr_counter := gossip_counter_new\<lparr>gc_channel_updates := 1\<rparr>, gr_sender := (mpsc_channel 100)\<lparr>ch_buffer := [ChannelUpdate ?u None]\<rparr>\<rparr>"
  let ?r2 = "?r0\<lparr>gr_counter := gossip_counter_new\<lparr>gc_channel_updates := 1\<rparr>\<rparr>"
  have "handle_channel_update (Inr True) ?u ?r0 = Inr (Inr True, ?r1)"
    by (simp add: handle_channel_update_def new_channel_update_def Let_def forward_def try_send_or_wait_eq send_unwrap_def
        has_room_def gossip_router_new_def mpsc_channel_def gossip_counter_new_def)
  from router_run.step [OF router_run.start router_step.update [OF this]]
  have run1: "router_run sample_client ?r0 [Handle_Update (Inr True) ?u] ?r1" by simp
  have "handle_channel_update (Inl ''stale'') ?u ?r1 = Inr (Inl ''stale'', ?r1)" by (simp add: handle_channel_update_def)
  from router_run.step [OF run1 router_step.update [OF this]]
  have run2: "router_run sample_client ?r0 [Handle_Update (Inr True) ?u, Handle_Update (Inl ''stale'') ?u] ?r1" by simp
  have "recv (gr_sender ?r1) = Some (ChannelUpdate ?u None, mpsc_channel 100)" by (simp add: recv_def mpsc_channel_def)
  from router_run.step [OF run2 router_step.takes [OF this]]
  have run: "router_run sample_client ?r0 [Handle_Update (Inr True) ?u, Handle_Update (Inl ''stale'') ?u, Persister_Takes (ChannelUpdate ?u None)] ?r2"
    by (simp add: gossip_router_new_def)
  from router_forwards_in_order [OF sample_client_ok run] run show ?thesis
    by (intro exI [of _ ?r2]) (simp add: taken_def forwarded_def event_message_def counts_def gossip_counter_new_def)
qed

text \<open>
  C21. A channel announcement that the native router accepts is forwarded, with the funding amount on
  chain, exactly when an earlier lookup by the graph found its output. Otherwise the handler panics,
  also when the output is on chain and the handler's own lookup succeeds: its result is lost.
\<close>

theorem uncached_announcement_panics:
  assumes "rest_client_ok client" and "router_run client (gossip_router_new (mpsc_channel 100)) evs r"
  shows "case utxo_found client evs (ca_short_channel_id (contents msg)) of
      None \<Rightarrow> handle_channel_announcement client (Inr b) msg r = Inl Unwrap_None
    | Some v \<Rightarrow> \<exists>r'. handle_channel_announcement client (Inr b) msg r = Inr (Inr b, r') \<and>
        in_channel (gr_sender r') = in_channel (gr_sender r) @ [ChannelAnnouncement msg v None]"
proof -
  note cache = router_run_cache [OF assms(2,1) refl] and ok = router_run_ok [OF assms(2) router_ok_new assms(1)]
  show ?thesis
  proof (cases "utxo_found client evs (ca_short_channel_id (contents msg))")
    case None
    with cache uncached_panics(2) [OF _ assms(1), of msg r] show ?thesis by (simp add: handle_channel_announcement_def)
  next
    case (Some v)
    let ?r = "r\<lparr>gr_counter := gr_counter r\<lparr>gc_channel_announcements := gc_channel_announcements (gr_counter r) + 1\<rparr>\<rparr>"
    from cache Some have f: "new_channel_announcement client msg r = forward (ChannelAnnouncement msg v None) ?r"
      by (intro cached_forwards) simp
    obtain r' where r': "forward (ChannelAnnouncement msg v None) ?r = Inr r'" using cache forward_open [of ?r] by auto
    from forward_ok(1) [OF r'] ok f r' Some show ?thesis by (auto simp: handle_channel_announcement_def router_ok_def)
  qed
qed

text \<open>The channel of the sample block: its output is on chain, but without a lookup the handler panics.\<close>

definition sample_run_announcement :: channel_announcement where
  "sample_run_announcement = Signed \<lparr>ca_features = ChannelFeatures [], ca_short_channel_id = pack_scid 700000 1 1,
     ca_node_id_1 = NodeId 2, ca_node_id_2 = NodeId 3\<rparr> []"

theorem uncached_announcement_panics_witness:
  "(\<exists>txo. chain_output sample_client (pack_scid 700000 1 1) = Inr txo) \<and>
   handle_channel_announcement sample_client (Inr True) sample_run_announcement (gossip_router_new (mpsc_channel 100)) = Inl Unwrap_None"
proof -
  have "\<exists>txo. chain_output sample_client (pack_scid 700000 1 1) = Inr txo"
    by (simp add: chain_output_def sample_client_def pack_scid_def block_height_def transaction_index_def output_index_def)
  moreover have "utxo_found sample_client [] (ca_short_channel_id (contents sample_run_announcement)) = None" by (simp add: utxo_found_def)
  ultimately show ?thesis using uncached_announcement_panics [OF sample_client_ok router_run.start, of True sample_run_announcement] by simp
qed

text \<open>
  C22. A short channel id packed from a block height, the index of a transaction and the index of an
  output is taken apart again, and looking it up gives the value of that output of that transaction
  in that block; afterwards the cached funding amount is this value, and the cache still only holds
  values that are on chain. An index out of range is an unknown transaction, a missing block an
  unknown chain; nothing panics.
\<close>

theorem funding_value_on_chain:
  assumes "h < 2 ^ 24" and "t < 2 ^ 24" and "v < 2 ^ 16" and client: "rest_client_ok client" and cv: "funding_cache_ok client cv"
  shows "\<exists>cv'. retrieve_funding_value client (pack_scid h t v) cv =
      Inr (case rc_block_hash client (block_hash_uri (word_of_nat h)) of
             None \<Rightarrow> Inl UnknownChain
           | Some hash \<Rightarrow> (case rc_block client hash of
               Some (FullBlock txs) \<Rightarrow> if t < length txs \<and> v < length (txs ! t) then Inr (txo_value (txs ! t ! v)) else Inl UnknownTx
             | _ \<Rightarrow> Inl UnknownChain), cv') \<and>
    funding_cache_ok client cv' \<and>
    (\<forall>hash txs. rc_block_hash client (block_hash_uri (word_of_nat h)) = Some hash \<and> rc_block client hash = Some (FullBlock txs) \<and>
       t < length txs \<and> v < length (txs ! t) \<longrightarrow> get_cached_funding_value (pack_scid h t v) cv' = Some (txo_value (txs ! t ! v)))"
proof -
  note parts = pack_scid_parts [OF assms(1-3)]
  have bh: "block_height (pack_scid h t v) = word_of_nat h" using parts(1) by (metis of_nat_unat ucast_id)
  have out: "chain_output client (pack_scid h t v) = (case rc_block_hash client (block_hash_uri (word_of_nat h)) of
      None \<Rightarrow> Inl UnknownChain
    | Some hash \<Rightarrow> (case rc_block client hash of
        Some (FullBlock txs) \<Rightarrow> if t < length txs \<and> v < length (txs ! t) then Inr (txs ! t ! v) else Inl UnknownTx
      | _ \<Rightarrow> Inl UnknownChain))"
    unfolding chain_output_def bh parts(2,3) ..
  from lookup_txo_spec [OF client cv, of "pack_scid h t v"] obtain cv' where
    l: "lookup_txo client (pack_scid h t v) cv = Inr (chain_output client (pack_scid h t v), cv')" "funding_cache_ok client cv'"
      "\<And>txo. chain_output client (pack_scid h t v) = Inr txo \<Longrightarrow> get_cached_funding_value (pack_scid h t v) cv' = Some (txo_value txo)" by blast
  show ?thesis
    using l by (intro exI [of _ cv']) (auto simp: retrieve_funding_value_def out split: option.splits block_data.splits)
qed

theorem funding_value_on_chain_witness:
  "\<exists>cv'. retrieve_funding_value sample_client (pack_scid 700000 1 1) chain_verifier_new = Inr (Inr 20000, cv') \<and>
    get_cached_funding_value (pack_scid 700000 1 1) cv' = Some 20000"
proof -
  have "funding_cache_ok sample_client chain_verifier_new"
    by (simp add: funding_cache_ok_def chain_verifier_new_def get_cached_funding_value_def)
  with funding_value_on_chain [OF _ _ _ sample_client_ok, of 700000 1 1 chain_verifier_new] show ?thesis
    by (auto simp: sample_client_def)
qed

end
