(* ===== verification/Tracking.thy ===== *)
theory Tracking
  imports Downloader Config
begin

text \<open>
src/tracking.rs: connecting to the peers and the loop that watches the gossip counters and reports when
  the gossip has been caught up with. Setting up LDK's peer manager and the timer task are left out; the
  outcomes of connection attempts are given.
\<close>

section \<open>Connecting\<close>

text \<open>
  The task of one peer tries to connect again and again; the outcomes of its attempts are given. What
  it sends back are the messages of the first iteration only, and \<open>connect_peer\<close> returns the first.
\<close>

fun connect_loop :: "bool \<Rightarrow> bool list \<Rightarrow> bool list" where
  "connect_loop is_first_iteration [] = []"
| "connect_loop is_first_iteration (connected # attempts) =
     (if is_first_iteration then [connected] else []) @ connect_loop False attempts"

definition connect_peer :: "bool list \<Rightarrow> bool res" where
  "connect_peer attempts = unwrap (case connect_loop True attempts of [] \<Rightarrow> None | success # _ \<Rightarrow> Some success)"

text \<open>The results of the peers in the order in which they arrive; a result that is an error is \<open>None\<close>.\<close>

fun join_peers :: "bool option list \<Rightarrow> nat \<Rightarrow> nat" where
  "join_peers [] connected_peer_count = connected_peer_count"
| "join_peers (connection_result # results) connected_peer_count =
     (case connection_result of
        Some True \<Rightarrow>
          (let connected_peer_count = connected_peer_count + 1
           in if CONNECTED_PEER_ASSERTION_LIMIT \<le> connected_peer_count then connected_peer_count
              else join_peers results connected_peer_count)
      | _ \<Rightarrow> join_peers results connected_peer_count)"

definition connect_peers :: "bool option list \<Rightarrow> nat res" where
  "connect_peers results =
     (let connected_peer_count = join_peers results 0
      in if connected_peer_count < 1 then Inl Assertion_Failed else Inr connected_peer_count)"

section \<open>Monitoring\<close>

datatype log_line = Gossip_Count | Monitoring_For_Gossip | Caught_Up_With_Gossip | New_Messages_Since_Catching_Up | No_New_Gossip_Messages

record monitor =
  mo_previous_announcement_count :: u64
  mo_previous_update_count :: u64
  mo_is_caught_up_with_gossip :: bool
  mo_i :: u32
  mo_latest_new_gossip_time :: nat

definition monitor_start :: "nat \<Rightarrow> monitor" where
  "monitor_start now = \<lparr>mo_previous_announcement_count = 0, mo_previous_update_count = 0, mo_is_caught_up_with_gossip = False,
     mo_i = 0, mo_latest_new_gossip_time = now\<rparr>"

definition new_message_count :: "gossip_counter \<Rightarrow> monitor \<Rightarrow> u64" where
  "new_message_count counter mo =
     (let total_message_count = gc_channel_announcements counter + gc_channel_updates counter
      in total_message_count - mo_previous_announcement_count mo - mo_previous_update_count mo)"

text \<open>
  One turn of the loop: the new state, what is logged and whether the persister is to be notified. The
  clock is read as seconds; it is read once where the source reads it twice in a row.
\<close>

definition monitor_turn :: "gossip_counter \<Rightarrow> nat \<Rightarrow> monitor \<Rightarrow> monitor \<times> log_line list \<times> bool" where
  "monitor_turn counter now mo =
     (let new_message_count = new_message_count counter mo;
          was_previously_caught_up = mo_is_caught_up_with_gossip mo;
          is_caught_up = (new_message_count < 20 \<and> 0 < mo_previous_announcement_count mo \<and> 0 < mo_previous_update_count mo);
          latest = (if 0 < new_message_count then now else mo_latest_new_gossip_time mo);
          log = (if \<not> is_caught_up \<or> is_caught_up \<noteq> was_previously_caught_up then [Gossip_Count] else [Monitoring_For_Gossip]) @
            (if is_caught_up \<and> \<not> was_previously_caught_up then [Caught_Up_With_Gossip]
             else if \<not> is_caught_up \<and> was_previously_caught_up then [New_Messages_Since_Catching_Up] else []) @
            (if 600 < now - latest then [No_New_Gossip_Messages] else []);
          needs_to_notify_persister = (is_caught_up \<and> \<not> was_previously_caught_up)
      in (\<lparr>mo_previous_announcement_count = gc_channel_announcements counter, mo_previous_update_count = gc_channel_updates counter,
           mo_is_caught_up_with_gossip = is_caught_up, mo_i = mo_i mo + 1, mo_latest_new_gossip_time = latest\<rparr>,
          log, needs_to_notify_persister))"

text \<open>
  The loop with the completion channel of \<open>start_sync\<close>, which has room for one message and from which
  a single message is received. A send without room never returns, so no further turn happens.
\<close>

record tracker =
  tr_monitor :: monitor
  tr_completion :: "unit mpsc"
  tr_received :: bool
  tr_turns :: nat
  tr_log :: "log_line list"

definition tracker_start :: "nat \<Rightarrow> tracker" where
  "tracker_start now = \<lparr>tr_monitor = monitor_start now, tr_completion = mpsc_channel 1, tr_received = False, tr_turns = 0, tr_log = []\<rparr>"

definition tracker_turn :: "gossip_counter \<Rightarrow> nat \<Rightarrow> tracker \<Rightarrow> tracker option" where
  "tracker_turn counter now tr =
     (if ch_waiting (tr_completion tr) \<noteq> [] then None
      else case monitor_turn counter now (tr_monitor tr) of (mo, log, notify) \<Rightarrow>
        let tr = tr\<lparr>tr_monitor := mo, tr_turns := tr_turns tr + 1, tr_log := tr_log tr @ log\<rparr>
        in if \<not> notify then Some tr
           else case send_unwrap () (tr_completion tr) of
             Inr ch \<Rightarrow> Some (tr\<lparr>tr_completion := ch\<rparr>)
           | Inl _ \<Rightarrow> None)"

text \<open>\<open>start_sync\<close> receives once and then never again.\<close>

definition receive_completion :: "tracker \<Rightarrow> tracker option" where
  "receive_completion tr =
     (if tr_received tr then None
      else case recv (tr_completion tr) of
        Some (_, ch) \<Rightarrow> Some (tr\<lparr>tr_completion := ch, tr_received := True\<rparr>)
      | None \<Rightarrow> None)"

inductive tracker_step :: "tracker \<Rightarrow> tracker \<Rightarrow> bool" where
  turn: "tracker_turn counter now tr = Some tr' \<Longrightarrow> tracker_step tr tr'"
| receive: "receive_completion tr = Some tr' \<Longrightarrow> tracker_step tr tr'"

inductive tracker_reachable :: "nat \<Rightarrow> tracker \<Rightarrow> bool" for now where
  start: "tracker_reachable now (tracker_start now)"
| step: "tracker_reachable now tr \<Longrightarrow> tracker_step tr tr' \<Longrightarrow> tracker_reachable now tr'"

section \<open>Lemmas\<close>

lemma join_peers_count:
  assumes "n < CONNECTED_PEER_ASSERTION_LIMIT"
  shows "join_peers results n = min CONNECTED_PEER_ASSERTION_LIMIT (n + length (filter (\<lambda>r. r = Some True) results))"
  using assms
  by (induction results arbitrary: n) (auto simp: Let_def split: option.split bool.split)

lemma new_message_count_eq:
  "new_message_count counter mo = (gc_channel_announcements counter - mo_previous_announcement_count mo) +
     (gc_channel_updates counter - mo_previous_update_count mo)"
  by (simp add: new_message_count_def)

text \<open>How often the monitor has found itself caught up after it was not.\<close>

definition notifications :: "tracker \<Rightarrow> nat" where
  "notifications tr = length (filter (\<lambda>l. l = Caught_Up_With_Gossip) (tr_log tr))"

definition tracker_inv :: "tracker \<Rightarrow> bool" where
  "tracker_inv tr \<longleftrightarrow> mpsc_ok (tr_completion tr) \<and> ch_capacity (tr_completion tr) = 1 \<and> \<not> ch_closed (tr_completion tr) \<and>
     length (ch_waiting (tr_completion tr)) \<le> 1 \<and>
     notifications tr = length (in_channel (tr_completion tr)) + (if tr_received tr then 1 else 0)"

lemma tracker_inv_start: "tracker_inv (tracker_start now)"
  by (simp add: tracker_inv_def tracker_start_def mpsc_channel_ok notifications_def) (simp add: mpsc_channel_def)

lemma monitor_turn_log:
  assumes "monitor_turn counter now mo = (mo', log, notify)"
  shows "length (filter (\<lambda>l. l = Caught_Up_With_Gossip) log) = (if notify then 1 else 0)"
  using assms by (auto simp: monitor_turn_def Let_def split: if_splits)

lemma tracker_inv_step:
  assumes "tracker_step tr tr'" and inv: "tracker_inv tr"
  shows "tracker_inv tr'"
  using assms(1)
proof cases
  case (turn counter now)
  obtain mo log notify where m: "monitor_turn counter now (tr_monitor tr) = (mo, log, notify)" by (cases "monitor_turn counter now (tr_monitor tr)")
  note log = monitor_turn_log [OF m]
  show ?thesis
  proof (cases notify)
    case True
    from turn True m obtain ch where ch: "send_unwrap () (tr_completion tr) = Inr ch" "ch_waiting (tr_completion tr) = []"
      "tr' = tr\<lparr>tr_monitor := mo, tr_turns := tr_turns tr + 1, tr_log := tr_log tr @ log, tr_completion := ch\<rparr>"
      by (auto simp: tracker_turn_def Let_def split: if_splits sum.splits)
    have "ch_capacity ch = 1 \<and> \<not> ch_closed ch \<and> length (ch_waiting ch) \<le> 1"
      using ch(1,2) inv by (auto simp: tracker_inv_def send_unwrap_def split: if_splits)
    with mpsc.put_under_way [OF _ ch(1)] inv log True show ?thesis by (auto simp: tracker_inv_def ch(3) notifications_def)
  next
    case False
    with turn m have "tr' = tr\<lparr>tr_monitor := mo, tr_turns := tr_turns tr + 1, tr_log := tr_log tr @ log\<rparr>"
      by (auto simp: tracker_turn_def Let_def split: if_splits)
    with inv log False show ?thesis by (simp add: tracker_inv_def notifications_def)
  qed
next
  case receive
  then obtain ch where ch: "recv (tr_completion tr) = Some ((), ch)" "\<not> tr_received tr" "tr' = tr\<lparr>tr_completion := ch, tr_received := True\<rparr>"
    by (auto simp: receive_completion_def split: if_splits option.splits)
  have "ch_capacity ch = ch_capacity (tr_completion tr) \<and> ch_closed ch = ch_closed (tr_completion tr) \<and>
      length (ch_waiting ch) \<le> length (ch_waiting (tr_completion tr))"
    using ch(1) by (auto simp: recv_def split: list.splits)
  with mpsc.take_under_way [OF _ ch(1)] inv ch(2) show ?thesis by (auto simp: tracker_inv_def ch(3) notifications_def)
qed

lemma tracker_reachable_inv: "tracker_reachable now tr \<Longrightarrow> tracker_inv tr"
  by (induction rule: tracker_reachable.induct) (auto intro: tracker_inv_start tracker_inv_step)

section \<open>Properties\<close>

text \<open>Between two looks at the counters the gossip has calmed down.\<close>

definition calm_between :: "gossip_counter \<Rightarrow> gossip_counter \<Rightarrow> bool" where
  "calm_between c c' \<longleftrightarrow> 0 < gc_channel_announcements c \<and> 0 < gc_channel_updates c \<and>
     (gc_channel_announcements c' - gc_channel_announcements c) + (gc_channel_updates c' - gc_channel_updates c) < 20"

text \<open>The notifications of a sequence of turns.\<close>

fun monitor_run :: "(gossip_counter \<times> nat) list \<Rightarrow> monitor \<Rightarrow> bool list" where
  "monitor_run [] mo = []"
| "monitor_run ((counter, now) # turns) mo = (case monitor_turn counter now mo of (mo', log, notify) \<Rightarrow> notify # monitor_run turns mo')"

definition follows :: "gossip_counter \<Rightarrow> bool \<Rightarrow> monitor \<Rightarrow> bool" where
  "follows c calm mo \<longleftrightarrow> mo_previous_announcement_count mo = gc_channel_announcements c \<and>
     mo_previous_update_count mo = gc_channel_updates c \<and> mo_is_caught_up_with_gossip mo = calm"

lemma monitor_turn_follows:
  assumes "monitor_turn counter now mo = (mo', log, notify)" and "follows c calm mo"
  shows "follows counter (calm_between c counter) mo'" and "notify \<longleftrightarrow> calm_between c counter \<and> \<not> calm"
  using assms by (auto simp: monitor_turn_def Let_def follows_def calm_between_def new_message_count_eq)

lemma monitor_run_follows:
  assumes "follows c calm mo"
  shows "monitor_run turns mo = map (\<lambda>i. calm_between ((c # map fst turns) ! i) ((c # map fst turns) ! Suc i) \<and>
      \<not> (if i = 0 then calm else calm_between ((c # map fst turns) ! (i - 1)) ((c # map fst turns) ! i))) [0 ..< length turns]"
  using assms
proof (induction turns arbitrary: c calm mo)
  case (Cons t turns)
  obtain counter now where t: "t = (counter, now)" by (cases t)
  obtain mo' log notify where m: "monitor_turn counter now mo = (mo', log, notify)" by (cases "monitor_turn counter now mo")
  note f = monitor_turn_follows [OF m Cons.prems]
  have "monitor_run (t # turns) mo = notify # monitor_run turns mo'" by (simp add: t m)
  also note Cons.IH [OF f(1)]
  finally show ?case
    by (simp only: length_Cons upt_conv_Cons [OF zero_less_Suc] map_Suc_upt [symmetric] list.map map_map o_def t)
      (auto simp: f(2) nth_Cons' intro!: map_cong)
qed simp

text \<open>
  C23. The monitor declares the gossip caught up exactly when it calms down: in the turn after a look
  at the counters, a notification is sent if and only if by then at least one announcement and one
  update had been counted, fewer than twenty messages were counted since, and the same was not already
  true one turn earlier. So the first notification, which starts the snapshots, never comes before the
  second turn.
\<close>

theorem monitor_notifies_when_calm:
  "monitor_run turns (monitor_start now) =
     map (\<lambda>i. calm_between ((gossip_counter_new # map fst turns) ! i) ((gossip_counter_new # map fst turns) ! Suc i) \<and>
        \<not> (0 < i \<and> calm_between ((gossip_counter_new # map fst turns) ! (i - 1)) ((gossip_counter_new # map fst turns) ! i))) [0 ..< length turns]"
proof -
  have "follows gossip_counter_new False (monitor_start now)" by (simp add: follows_def gossip_counter_new_def monitor_start_def)
  from monitor_run_follows [OF this] show ?thesis by (auto intro!: map_cong)
qed

text \<open>
  C24. The third time the gossip is caught up, the monitor stops for good: the completion channel holds
  one message and is read once, so the first notification is received, the second stays in the
  channel and the third sender waits forever. There are at most three notifications, and after the
  third no turn of the monitor is possible any more.
\<close>

theorem monitor_stalls_at_third_notification:
  assumes "tracker_reachable now tr"
  shows "notifications tr \<le> 3 \<and> (notifications tr = 3 \<longrightarrow> (\<forall>tr'. \<not> tracker_step tr tr'))"
proof -
  let ?ch = "tr_completion tr"
  have inv: "tracker_inv tr" by (rule tracker_reachable_inv [OF assms])
  then have len: "length (in_channel ?ch) = length (ch_buffer ?ch) + length (ch_waiting ?ch)" "length (ch_buffer ?ch) \<le> 1" "length (ch_waiting ?ch) \<le> 1"
    by (simp_all add: tracker_inv_def mpsc_ok_def in_channel_def)
  with inv have "notifications tr \<le> 3" by (simp add: tracker_inv_def)
  moreover have "\<not> tracker_step tr tr'" if "notifications tr = 3" for tr'
  proof -
    have "ch_waiting ?ch \<noteq> []" "tr_received tr" using inv len that by (auto simp: tracker_inv_def split: if_splits)
    then show ?thesis by (auto simp: tracker_step.simps tracker_turn_def receive_completion_def)
  qed
  ultimately show ?thesis by blast
qed

definition sample_counter :: "u64 \<Rightarrow> gossip_counter" where
  "sample_counter n = gossip_counter_new\<lparr>gc_channel_announcements := n, gc_channel_updates := 1\<rparr>"

fun sample_tracker :: "u64 option list \<Rightarrow> tracker \<Rightarrow> tracker option" where
  "sample_tracker [] tr = Some tr"
| "sample_tracker (x # xs) tr = (case (case x of Some n \<Rightarrow> tracker_turn (sample_counter n) 0 tr | None \<Rightarrow> receive_completion tr) of
     Some tr' \<Rightarrow> sample_tracker xs tr' | None \<Rightarrow> None)"

lemma sample_tracker_reachable: "tracker_reachable now tr \<Longrightarrow> sample_tracker xs tr = Some tr' \<Longrightarrow> tracker_reachable now tr'"
proof (induction xs arbitrary: tr)
  case (Cons x xs)
  then obtain tr1 where tr1: "(case x of Some n \<Rightarrow> tracker_turn (sample_counter n) 0 tr | None \<Rightarrow> receive_completion tr) = Some tr1"
    "sample_tracker xs tr1 = Some tr'" by (auto split: option.splits)
  then have "tracker_step tr tr1" by (cases x) (auto intro: tracker_step.intros)
  then show ?case using Cons tr1(2) by (blast intro: tracker_reachable.step)
qed simp

theorem monitor_stalls_at_third_notification_witness:
  "\<exists>tr. tracker_reachable 0 tr \<and> notifications tr = 3 \<and> (\<forall>tr'. \<not> tracker_step tr tr')"
proof -
  let ?xs = "[Some 1, Some 1, None, Some 100, Some 100, Some 200, Some 200]"
  have "\<exists>tr. sample_tracker ?xs (tracker_start 0) = Some tr \<and> notifications tr = 3"
    by (simp add: tracker_start_def tracker_turn_def monitor_turn_def new_message_count_def monitor_start_def sample_counter_def gossip_counter_new_def
        send_unwrap_def has_room_def receive_completion_def recv_def mpsc_channel_def notifications_def Let_def)
  then obtain tr where tr: "sample_tracker ?xs (tracker_start 0) = Some tr" "notifications tr = 3" by blast
  have "tracker_reachable 0 tr" by (rule sample_tracker_reachable [OF tracker_reachable.start tr(1)])
  with monitor_stalls_at_third_notification [OF this] tr(2) show ?thesis by blast
qed

text \<open>
  The server goes on as soon as five peers are connected or all have answered, and stops when
  there is none: whatever the order of the answers and whichever are errors, the count is the number of
  successful connections but at most five, and there is a panic exactly when it is zero. The answer
  of a peer is the outcome of its first attempt, whatever happens later.
\<close>

lemma peers_counted:
  "connect_peers results = (let n = length (filter (\<lambda>r. r = Some True) results)
     in if n = 0 then Inl Assertion_Failed else Inr (min CONNECTED_PEER_ASSERTION_LIMIT n)) \<and>
   connect_peer (first # attempts) = Inr first"
proof -
  have "(0 :: nat) < CONNECTED_PEER_ASSERTION_LIMIT" by (simp add: CONNECTED_PEER_ASSERTION_LIMIT_def)
  from join_peers_count [OF this] this show ?thesis
    by (auto simp: connect_peers_def connect_peer_def Let_def min_def split: if_splits)
qed

end
