(* ===== verification/Schema.thy ===== *)
theory Schema
  imports Verifier Hex_Utils Config Wire_Format
begin

text \<open>
  src/config.rs, the table creation queries and \<open>upgrade_db\<close>, and the database part of
  \<open>GossipPersister::new\<close> in src/persistence.rs. The database is given by its tables with typed
  columns and rows of cells, its indexes and the recorded version; a migration is the list of the
  statements of its transaction. The queries that set the vacuum factor and the time zone change
  nothing of this and are left out. The values of a batch are read and written row by row; the
  statements of one batch run concurrently in the program, on different rows.
\<close>

section \<open>The database\<close>

definition SCHEMA_VERSION :: int where
  "SCHEMA_VERSION = 15"

datatype cell = Null | Int_Cell int | Bool_Cell bool | Text_Cell string | Bytes_Cell bytes

type_synonym db_row = "string \<Rightarrow> cell"

type_synonym column_values = "(string \<times> cell) list"

text \<open>A column has a data type and may be declared not null.\<close>

type_synonym column = "string \<times> (string \<times> bool)"

record db_table =
  tb_columns :: "column list"
  tb_rows :: "db_row list"

text \<open>
  The version in the row of the table \<open>config\<close> with id 1, the other tables, and the indexes: whether
  an index is unique, the table and the columns it is over.
\<close>

record layout =
  ly_schema :: "int option"
  ly_tables :: "(string \<times> db_table) list"
  ly_indexes :: "(string \<times> (bool \<times> string \<times> string list)) list"

abbreviation channel_updates :: string where "channel_updates \<equiv> ''channel_updates''"
abbreviation channel_announcements :: string where "channel_announcements \<equiv> ''channel_announcements''"
abbreviation node_announcements :: string where "node_announcements \<equiv> ''node_announcements''"

section \<open>Statements\<close>

datatype statement =
    Drop_Column string string
  | Add_Column string string string
  | Set_Not_Null string string
  | Drop_Default string string
  | Set_Data_Type string string string
  | Create_Unique_Index string string "string list"
  | Drop_Index string
  | Set_Schema int
  | Fill_Updates nat
  | Fill_Announcements nat

text \<open>
  A statement about a column of a table fails when there is no such column; otherwise the table is
  replaced.
\<close>

definition alter_column :: "string \<Rightarrow> string \<Rightarrow> (string \<times> bool \<Rightarrow> db_table \<Rightarrow> db_table res) \<Rightarrow> layout \<Rightarrow> layout res" where
  "alter_column table col f l =
     (case hm_get (ly_tables l) table of
        None \<Rightarrow> Inl Io_Error
      | Some t \<Rightarrow> (case hm_get (tb_columns t) col of
          None \<Rightarrow> Inl Io_Error
        | Some c \<Rightarrow> bind_res (f c t) (\<lambda>t'. Inr (l\<lparr>ly_tables := hm_insert table t' (ly_tables l)\<rparr>))))"

definition set_column :: "string \<Rightarrow> string \<times> bool \<Rightarrow> db_table \<Rightarrow> db_table" where
  "set_column col c t = t\<lparr>tb_columns := hm_insert col c (tb_columns t)\<rparr>"

definition has_null :: "string \<Rightarrow> db_table \<Rightarrow> bool" where
  "has_null col t = list_ex (\<lambda>r. r col = Null) (tb_rows t)"

text \<open>The rows collide when two of them agree in all columns and none of these is null.\<close>

definition has_duplicates :: "string list \<Rightarrow> db_table \<Rightarrow> bool" where
  "has_duplicates cols t = (\<not> distinct (filter (\<lambda>vs. Null \<notin> set vs) (map (\<lambda>r. map r cols) (tb_rows t))))"

text \<open>The conversions of the two changes of a data type: padding with spaces, and the range of a smallint.\<close>

definition convert_cell :: "string \<Rightarrow> cell \<Rightarrow> cell res" where
  "convert_cell type v =
     (case v of
        Text_Cell s \<Rightarrow>
          if type = ''character(29)'' then
            (if list_all (\<lambda>c. c = CHR '' '') (drop 29 s) then Inr (Text_Cell (take 29 s @ replicate (29 - length s) (CHR '' ''))) else Inl Io_Error)
          else Inl Io_Error
      | Int_Cell i \<Rightarrow> if type = ''smallint'' \<and> - 32768 \<le> i \<and> i \<le> 32767 then Inr v else Inl Io_Error
      | Null \<Rightarrow> Inr Null
      | _ \<Rightarrow> Inl Io_Error)"

text \<open>
  Filling the channel id and the direction of an update from its composite index: hexadecimal id,
  timestamp and direction, separated by colons.
\<close>

definition read_composite_index :: "string \<Rightarrow> (int \<times> bool) res" where
  "read_composite_index index =
     (case split_at_char (CHR '':'') index of
        scid_hex # _ # direction_str # _ \<Rightarrow>
          if direction_str \<noteq> ''1'' \<and> direction_str \<noteq> ''0'' then Inl Assertion_Failed
          else bind_res (unwrap (to_vec (map of_char scid_hex))) (\<lambda>scid_be_bytes.
               if length scid_be_bytes \<noteq> 8 then Inl Unwrap_None
               else case be_read 8 scid_be_bytes of
                 Some (scid :: u64, _) \<Rightarrow> if as_i64 scid > 0 then Inr (as_i64 scid, direction_str = ''1'') else Inl Assertion_Failed
               | None \<Rightarrow> Inl Unwrap_None)
      | _ \<Rightarrow> Inl Unwrap_None)"

definition update_cells :: "db_row \<Rightarrow> column_values res" where
  "update_cells row =
     (case row ''composite_index'' of
        Text_Cell index \<Rightarrow> bind_res (read_composite_index index) (\<lambda>(scid, direction).
          Inr [(''short_channel_id'', Int_Cell scid), (''direction'', Bool_Cell direction)])
      | _ \<Rightarrow> Inl Unwrap_None)"

definition announcement_cells :: "(bytes \<Rightarrow> channel_announcement option) \<Rightarrow> db_row \<Rightarrow> column_values res" where
  "announcement_cells read_announcement row =
     (case row ''announcement_signed'' of
        Bytes_Cell announcement \<Rightarrow> bind_res (unwrap (read_announcement announcement)) (\<lambda>a.
          let scid = as_i64 (ca_short_channel_id (contents a))
          in if scid > 0 then Inr [(''short_channel_id'', Int_Cell scid)] else Inl Assertion_Failed)
      | _ \<Rightarrow> Inl Unwrap_None)"

text \<open>\<open>UPDATE\<close> \dots \<open>SET\<close> \dots \<open>WHERE id = $n\<close>\<close>

definition set_cells :: "column_values \<Rightarrow> db_row \<Rightarrow> db_row" where
  "set_cells vs r = fold (\<lambda>(c, v) r. r(c := v)) vs r"

definition fill_row :: "(db_row \<Rightarrow> column_values res) \<Rightarrow> db_row \<Rightarrow> db_row list \<Rightarrow> db_row list res" where
  "fill_row cells row rows = bind_res (cells row) (\<lambda>vs.
     Inr (map (\<lambda>r. if r ''id'' = row ''id'' then set_cells vs r else r) rows))"

text \<open>
  The loops that fill the channel ids in batches: as long as some row has none, the next batch is
  taken and each of its rows updated by its id. Every turn fills at least one row, so as many turns as
  there are rows are enough (\<open>fill_loop_returns\<close>).
\<close>

abbreviation unfilled :: "db_row \<Rightarrow> bool" where
  "unfilled r \<equiv> r ''short_channel_id'' = Null"

fun fill_loop :: "(db_row \<Rightarrow> column_values res) \<Rightarrow> nat \<Rightarrow> nat \<Rightarrow> db_row list \<Rightarrow> db_row list res" where
  "fill_loop cells limit 0 rows = (if filter unfilled rows = [] then Inr rows else Inl Unreachable)"
| "fill_loop cells limit (Suc fuel) rows =
     (let batch = take limit (filter unfilled rows)
      in if batch = [] then Inr rows
         else bind_res (fold_res (fill_row cells) batch rows) (fill_loop cells limit fuel))"

text \<open>
  The query fails when the column that is read is missing, the update when the columns written do not
  have the types of the parameters.
\<close>

definition fill_table :: "string \<Rightarrow> string \<Rightarrow> (string \<times> string) list \<Rightarrow> (db_row \<Rightarrow> column_values res) \<Rightarrow> nat \<Rightarrow> layout \<Rightarrow> layout res" where
  "fill_table table source types cells limit = alter_column table ''short_channel_id'' (\<lambda>_ t.
     if hm_get (tb_columns t) source = None \<or>
        has_null ''short_channel_id'' t \<and> \<not> list_all (\<lambda>(c, ty). map_option fst (hm_get (tb_columns t) c) = Some ty) types
     then Inl Io_Error
     else bind_res (fill_loop cells limit (length (tb_rows t)) (tb_rows t)) (\<lambda>rows. Inr (t\<lparr>tb_rows := rows\<rparr>)))"

text \<open>Rewriting the rows of a table stops at the first row that cannot be converted.\<close>

fun convert_rows :: "string \<Rightarrow> string \<Rightarrow> db_row list \<Rightarrow> db_row list res" where
  "convert_rows col type [] = Inr []"
| "convert_rows col type (r # rs) = bind_res (convert_cell type (r col)) (\<lambda>v.
     bind_res (convert_rows col type rs) (\<lambda>rs'. Inr (r(col := v) # rs')))"

text \<open>
  One statement; an error of the database is unwrapped, hence a panic. Dropping a column drops the
  indexes over it, and a column is added with null in every row.
\<close>

fun execute :: "(bytes \<Rightarrow> channel_announcement option) \<Rightarrow> statement \<Rightarrow> layout \<Rightarrow> layout res" where
  "execute read (Drop_Column table col) l =
     bind_res (alter_column table col (\<lambda>_ t. Inr (t\<lparr>tb_columns := hm_remove col (tb_columns t)\<rparr>)) l) (\<lambda>l.
       Inr (l\<lparr>ly_indexes := filter (\<lambda>(_, _, tb, cols). tb \<noteq> table \<or> col \<notin> set cols) (ly_indexes l)\<rparr>))"
| "execute read (Add_Column table col type) l =
     (case hm_get (ly_tables l) table of
        None \<Rightarrow> Inl Io_Error
      | Some t \<Rightarrow>
          if hm_get (tb_columns t) col \<noteq> None then Inl Io_Error
          else Inr (l\<lparr>ly_tables := hm_insert table (t\<lparr>tb_columns := hm_insert col (type, False) (tb_columns t),
                 tb_rows := map (\<lambda>r. r(col := Null)) (tb_rows t)\<rparr>) (ly_tables l)\<rparr>))"
| "execute read (Set_Not_Null table col) l = alter_column table col (\<lambda>(type, _) t.
     if has_null col t then Inl Io_Error else Inr (set_column col (type, True) t)) l"
| "execute read (Drop_Default table col) l = alter_column table col (\<lambda>_ t. Inr t) l"
| "execute read (Set_Data_Type table col type) l = alter_column table col (\<lambda>(_, not_null) t.
     bind_res (convert_rows col type (tb_rows t)) (\<lambda>rows.
       Inr (set_column col (type, not_null) (t\<lparr>tb_rows := rows\<rparr>)))) l"
| "execute read (Create_Unique_Index idx table cols) l =
     (case hm_get (ly_tables l) table of
        None \<Rightarrow> Inl Io_Error
      | Some t \<Rightarrow>
          if hm_get (ly_indexes l) idx \<noteq> None \<or> \<not> list_all (\<lambda>c. hm_get (tb_columns t) c \<noteq> None) cols \<or> has_duplicates cols t
          then Inl Io_Error else Inr (l\<lparr>ly_indexes := ly_indexes l @ [(idx, True, table, cols)]\<rparr>))"
| "execute read (Drop_Index idx) l = Inr (l\<lparr>ly_indexes := hm_remove idx (ly_indexes l)\<rparr>)"
| "execute read (Set_Schema n) l = Inr (l\<lparr>ly_schema := map_option (\<lambda>_. n) (ly_schema l)\<rparr>)"
| "execute read (Fill_Updates limit) l = fill_table channel_updates ''composite_index''
     [(''short_channel_id'', ''bigint''), (''direction'', ''boolean'')] update_cells limit l"
| "execute read (Fill_Announcements limit) l = fill_table channel_announcements ''announcement_signed''
     [(''short_channel_id'', ''bigint'')] (announcement_cells read) limit l"

section \<open>Migrations\<close>

text \<open>The statements of the transaction that leads away from a version.\<close>

definition migration :: "int \<Rightarrow> statement list" where
  "migration n =
     (if n = 1 then [Drop_Column channel_updates ''chain_hash'', Drop_Column channel_announcements ''chain_hash'', Set_Schema 2]
      else if n = 2 then
        [Drop_Column channel_updates ''short_channel_id'', Add_Column channel_updates ''short_channel_id'' ''bigint'',
         Drop_Column channel_updates ''direction'', Add_Column channel_updates ''direction'' ''boolean'',
         Fill_Updates 50000,
         Drop_Default channel_updates ''short_channel_id'', Set_Not_Null channel_updates ''short_channel_id'',
         Drop_Default channel_updates ''direction'', Set_Not_Null channel_updates ''direction'', Set_Schema 3]
      else if n = 3 then
        [Drop_Column channel_announcements ''short_channel_id'', Add_Column channel_announcements ''short_channel_id'' ''bigint'',
         Fill_Announcements 10000,
         Create_Unique_Index ''channel_announcements_short_channel_id_key'' channel_announcements [''short_channel_id''],
         Drop_Default channel_announcements ''short_channel_id'', Set_Not_Null channel_announcements ''short_channel_id'', Set_Schema 4]
      else if n = 4 then [Set_Data_Type channel_updates ''composite_index'' ''character(29)'', Set_Schema 5]
      else if n = 5 then
        [Set_Data_Type channel_updates ''channel_flags'' ''smallint'', Drop_Column channel_announcements ''block_height'', Set_Schema 6]
      else if n = 6 then
        [Drop_Column channel_updates ''composite_index'', Set_Not_Null channel_updates ''timestamp'', Set_Not_Null channel_updates ''channel_flags'',
         Set_Not_Null channel_updates ''disable'', Set_Not_Null channel_updates ''cltv_expiry_delta'', Set_Not_Null channel_updates ''htlc_minimum_msat'',
         Set_Not_Null channel_updates ''fee_base_msat'', Set_Not_Null channel_updates ''fee_proportional_millionths'',
         Set_Not_Null channel_updates ''htlc_maximum_msat'', Set_Not_Null channel_updates ''blob_signed'',
         Create_Unique_Index ''channel_updates_key'' channel_updates [''short_channel_id'', ''direction'', ''timestamp''], Set_Schema 7]
      else if n = 7 then
        [Drop_Index ''channels_seen'', Drop_Index ''channel_updates_scid'', Drop_Index ''channel_updates_direction'',
         Drop_Index ''channel_updates_seen'', Drop_Index ''channel_updates_scid_seen'', Drop_Index ''channel_updates_scid_dir_seen'', Set_Schema 8]
      else if n = 8 then [Drop_Index ''channel_updates_seen'', Drop_Index ''channel_updates_scid_seen'', Set_Schema 9]
      else if n = 9 then [Drop_Index ''channel_updates_scid_dir_seen'', Set_Schema 10]
      else if n = 10 then [Drop_Index ''channel_updates_id_with_scid_dir_blob'', Set_Schema 11]
      else if n = 11 then [Drop_Index ''channel_updates_seen_with_id_direction_blob'', Set_Schema 12]
      else if n = 12 then [Drop_Index ''channel_updates_timestamp_desc'', Set_Schema 13]
      else if n = 13 then [Set_Schema 14]
      else [])"

text \<open>The condition under which the migration away from a version runs.\<close>

definition migration_due :: "int \<Rightarrow> int \<Rightarrow> bool" where
  "migration_due n schema =
     (if n = 1 then schema = 1
      else if n = 2 then schema = 1 \<or> schema = 2
      else 1 \<le> schema \<and> schema \<le> n)"

text \<open>
  A database with a panic, if there was one: a transaction that panics is rolled back and nothing
  after it happens.
\<close>

type_synonym 's outcome = "'s \<times> panic option"

definition transaction :: "(bytes \<Rightarrow> channel_announcement option) \<Rightarrow> statement list \<Rightarrow> layout \<Rightarrow> layout outcome" where
  "transaction read stmts l = (case fold_res (execute read) stmts l of Inr l' \<Rightarrow> (l', None) | Inl e \<Rightarrow> (l, Some e))"

fun run_migrations :: "(bytes \<Rightarrow> channel_announcement option) \<Rightarrow> int \<Rightarrow> int list \<Rightarrow> layout \<Rightarrow> layout outcome" where
  "run_migrations read schema [] l = (l, None)"
| "run_migrations read schema (n # ns) l =
     (if migration_due n schema
      then (case transaction read (migration n) l of
              (l', None) \<Rightarrow> run_migrations read schema ns l'
            | (l', Some e) \<Rightarrow> (l', Some e))
      else run_migrations read schema ns l)"

text \<open>
  The last migration is not a transaction: the column is added, an error ignored, and a task is
  spawned that the upgrade does not wait for.
\<close>

definition add_funding_column :: "layout \<Rightarrow> layout" where
  "add_funding_column l = (case execute (\<lambda>_. None) (Add_Column channel_announcements ''funding_amount_sats'' ''bigint'') l of
     Inr l' \<Rightarrow> l' | Inl _ \<Rightarrow> l)"

definition upgrade_db :: "(bytes \<Rightarrow> channel_announcement option) \<Rightarrow> int \<Rightarrow> layout \<Rightarrow> layout outcome" where
  "upgrade_db read schema l =
     (case run_migrations read schema [1 .. 13] l of
        (l, Some e) \<Rightarrow> (l, Some e)
      | (l, None) \<Rightarrow>
          let l = (if 1 \<le> schema \<and> schema \<le> 14 then add_funding_column l else l)
          in if schema \<le> 1 \<or> SCHEMA_VERSION < schema then (l, Some Unknown_Schema) else (l, None))"

text \<open>
  The spawned task: the funding amount of every channel that has none is looked up on chain, each in a
  task of its own. The order in which these tasks write their rows is given. The first one that does
  not find its output, or cannot write it, panics and ends the process, with the rows written so far.
\<close>

definition fill_funding :: "rest_client \<Rightarrow> string \<Rightarrow> cell \<Rightarrow> db_row list \<Rightarrow> db_row list res" where
  "fill_funding client type scid rows =
     (case scid of
        Int_Cell i \<Rightarrow> bind_res (retrieve_txo client (as_u64 i)) (\<lambda>result.
          case result of
            Inl _ \<Rightarrow> Inl Unwrap_None
          | Inr txo \<Rightarrow>
              if type \<noteq> ''bigint'' then Inl Io_Error
              else Inr (map (\<lambda>r. if r ''short_channel_id'' = scid
                     then r(''funding_amount_sats'' := Int_Cell (as_i64 (txo_value txo))) else r) rows))
      | _ \<Rightarrow> Inl Unwrap_None)"

fun fill_fundings :: "rest_client \<Rightarrow> string \<Rightarrow> cell list \<Rightarrow> db_row list \<Rightarrow> db_row list outcome" where
  "fill_fundings client type [] rows = (rows, None)"
| "fill_fundings client type (scid # scids) rows =
     (case fill_funding client type scid rows of Inl e \<Rightarrow> (rows, Some e) | Inr rows' \<Rightarrow> fill_fundings client type scids rows')"

definition funding_task :: "rest_client \<Rightarrow> cell order \<Rightarrow> layout \<Rightarrow> layout outcome" where
  "funding_task client completion l =
     (case hm_get (ly_tables l) channel_announcements of
        None \<Rightarrow> (l, Some Io_Error)
      | Some t \<Rightarrow> (case hm_get (tb_columns t) ''funding_amount_sats'' of
          None \<Rightarrow> (l, Some Io_Error)
        | Some c \<Rightarrow>
            let scids = remdups (map (\<lambda>r. r ''short_channel_id'') (filter (\<lambda>r. r ''funding_amount_sats'' = Null) (tb_rows t)))
            in (case fill_fundings client (fst c) (completion scids) (tb_rows t) of (rows, panicked) \<Rightarrow>
              let l = l\<lparr>ly_tables := hm_insert channel_announcements (t\<lparr>tb_rows := rows\<rparr>) (ly_tables l)\<rparr>
              in (case panicked of
                Some e \<Rightarrow> (l, Some e)
              | None \<Rightarrow> (case execute (\<lambda>_. None) (Set_Not_Null channel_announcements ''funding_amount_sats'') l of
                  Inl e \<Rightarrow> (l, Some e)
                | Inr l' \<Rightarrow> (l'\<lparr>ly_schema := map_option (\<lambda>_. 15) (ly_schema l')\<rparr>, None))))))"

section \<open>Initialization\<close>

text \<open>The columns of the table creation queries.\<close>

definition announcement_columns :: "column list" where
  "announcement_columns = [(''id'', ''SERIAL'', True), (''short_channel_id'', ''bigint'', True), (''funding_amount_sats'', ''bigint'', True),
     (''announcement_signed'', ''BYTEA'', False), (''seen'', ''timestamp'', True)]"

definition update_columns :: "column list" where
  "update_columns = [(''id'', ''SERIAL'', True), (''short_channel_id'', ''bigint'', True), (''timestamp'', ''bigint'', True),
     (''channel_flags'', ''smallint'', True), (''direction'', ''boolean'', True), (''disable'', ''boolean'', True),
     (''cltv_expiry_delta'', ''integer'', True), (''htlc_minimum_msat'', ''bigint'', True), (''fee_base_msat'', ''integer'', True),
     (''fee_proportional_millionths'', ''integer'', True), (''htlc_maximum_msat'', ''bigint'', True), (''blob_signed'', ''BYTEA'', True),
     (''seen'', ''timestamp'', True)]"

definition node_columns :: "column list" where
  "node_columns = [(''id'', ''SERIAL'', True), (''public_key'', ''varchar(66)'', True), (''features'', ''BYTEA'', True),
     (''socket_addresses'', ''BYTEA'', True), (''timestamp'', ''bigint'', True), (''announcement_signed'', ''BYTEA'', False), (''seen'', ''timestamp'', True)]"

text \<open>The indexes: whether unique, the name, the table and the columns, those only included too.\<close>

definition db_indexes :: "(bool \<times> string \<times> string \<times> string list) list" where
  "db_indexes =
     [(False, ''channel_updates_seen_scid'', channel_updates, [''seen'', ''short_channel_id'']),
      (False, ''channel_updates_scid_dir_seen_asc'', channel_updates, [''short_channel_id'', ''direction'', ''seen'']),
      (False, ''channel_updates_scid_dir_seen_desc_with_id'', channel_updates, [''short_channel_id'', ''direction'', ''seen'', ''id'']),
      (True, ''channel_updates_key'', channel_updates, [''short_channel_id'', ''direction'', ''timestamp'']),
      (False, ''channel_updates_seen'', channel_updates, [''seen'']),
      (False, ''channel_updates_scid_asc_timestamp_desc'', channel_updates, [''short_channel_id'', ''timestamp'']),
      (False, ''node_announcements_seen_pubkey'', node_announcements, [''seen'', ''public_key''])]"

text \<open>
  \<open>CREATE TABLE IF NOT EXISTS\<close>, with the indexes of its constraints, and
  \<open>CREATE [UNIQUE] INDEX IF NOT EXISTS\<close>, which fails when a column is missing or, if unique, when the
  rows collide.
\<close>

definition create_table :: "string \<times> column list \<times> (string \<times> (bool \<times> string \<times> string list)) list \<Rightarrow> layout \<Rightarrow> layout" where
  "create_table t l = (case t of (table, cols, keys) \<Rightarrow>
     if hm_get (ly_tables l) table \<noteq> None then l
     else l\<lparr>ly_tables := ly_tables l @ [(table, \<lparr>tb_columns = cols, tb_rows = []\<rparr>)], ly_indexes := ly_indexes l @ keys\<rparr>)"

definition create_index :: "bool \<times> string \<times> string \<times> string list \<Rightarrow> layout \<Rightarrow> layout res" where
  "create_index i l = (case i of (is_unique, idx, table, cols) \<Rightarrow>
     if hm_get (ly_indexes l) idx \<noteq> None then Inr l
     else case hm_get (ly_tables l) table of
       None \<Rightarrow> Inl Io_Error
     | Some t \<Rightarrow>
         if \<not> list_all (\<lambda>c. hm_get (tb_columns t) c \<noteq> None) cols \<or> is_unique \<and> has_duplicates cols t
         then Inl Io_Error else Inr (l\<lparr>ly_indexes := ly_indexes l @ [(idx, is_unique, table, cols)]\<rparr>))"

definition db_tables :: "(string \<times> column list \<times> (string \<times> (bool \<times> string \<times> string list)) list) list" where
  "db_tables =
     [(channel_announcements, announcement_columns,
        [(''channel_announcements_pkey'', True, channel_announcements, [''id'']),
         (''channel_announcements_short_channel_id_key'', True, channel_announcements, [''short_channel_id''])]),
      (channel_updates, update_columns, [(''channel_updates_pkey'', True, channel_updates, [''id''])]),
      (channel_updates, update_columns, [(''channel_updates_pkey'', True, channel_updates, [''id''])]),
      (node_announcements, node_columns, [(''node_announcements_pkey'', True, node_announcements, [''id''])])]"

text \<open>
  The database part of \<open>GossipPersister::new\<close>. The batch of indexes is sent as one query, hence one
  transaction.
\<close>

definition initialize_db :: "(bytes \<Rightarrow> channel_announcement option) \<Rightarrow> layout \<Rightarrow> layout outcome" where
  "initialize_db read l =
     (case (case ly_schema l of Some cur_schema \<Rightarrow> upgrade_db read cur_schema l | None \<Rightarrow> (l, None)) of
        (l, Some e) \<Rightarrow> (l, Some e)
      | (l, None) \<Rightarrow>
          let l = (case ly_schema l of None \<Rightarrow> l\<lparr>ly_schema := Some SCHEMA_VERSION\<rparr> | Some _ \<Rightarrow> l);
              l = fold create_table db_tables l
          in (case fold_res create_index db_indexes l of Inr l' \<Rightarrow> (l', None) | Inl e \<Rightarrow> (l, Some e)))"

end
