(* ===== verification/Schema_Types.thy ===== *)
theory Schema_Types
  imports Schema Persistence
begin

text \<open>
  The data types of the columns: every statement of a migration and the creation of the tables keep the
  rows in the types the columns are declared with. The parameters the persister binds in its inserts,
  with their Rust types.
\<close>

section \<open>Types of columns\<close>

text \<open>The values a column of a data type holds.\<close>

definition int_fits :: "string \<Rightarrow> int \<Rightarrow> bool" where
  "int_fits type i \<longleftrightarrow>
     (type = ''bigint'' \<longrightarrow> - (2 ^ 63) \<le> i \<and> i < 2 ^ 63) \<and>
     (type = ''integer'' \<or> type = ''SERIAL'' \<longrightarrow> - (2 ^ 31) \<le> i \<and> i < 2 ^ 31) \<and>
     (type = ''smallint'' \<longrightarrow> - (2 ^ 15) \<le> i \<and> i < 2 ^ 15) \<and>
     type \<in> {''bigint'', ''integer'', ''SERIAL'', ''smallint'', ''timestamp''}"

fun cell_fits :: "string \<Rightarrow> cell \<Rightarrow> bool" where
  "cell_fits type Null = True"
| "cell_fits type (Int_Cell i) = int_fits type i"
| "cell_fits type (Bool_Cell _) = (type = ''boolean'')"
| "cell_fits type (Text_Cell s) =
     (type = ''character varying'' \<or> type = ''character(29)'' \<and> length s = 29 \<or> type = ''varchar(66)'' \<and> length s \<le> 66)"
| "cell_fits type (Bytes_Cell _) = (type = ''BYTEA'')"

definition row_fits :: "column list \<Rightarrow> db_row \<Rightarrow> bool" where
  "row_fits cols r \<longleftrightarrow> (\<forall>c ty not_null. hm_get cols c = Some (ty, not_null) \<longrightarrow>
     cell_fits ty (r c) \<and> (not_null \<longrightarrow> r c \<noteq> Null))"

definition well_typed_table :: "db_table \<Rightarrow> bool" where
  "well_typed_table t \<longleftrightarrow> hm_inv (tb_columns t) \<and> (\<forall>r \<in> set (tb_rows t). row_fits (tb_columns t) r)"

definition well_typed :: "layout \<Rightarrow> bool" where
  "well_typed l \<longleftrightarrow> (\<forall>table t. hm_get (ly_tables l) table = Some t \<longrightarrow> well_typed_table t)"

lemma well_typed_insert:
  "well_typed l \<Longrightarrow> well_typed_table t \<Longrightarrow> well_typed (l\<lparr>ly_tables := hm_insert table t (ly_tables l)\<rparr>)"
  by (auto simp: well_typed_def hm_get_insert split: if_splits)

lemma alter_column_well_typed:
  assumes "alter_column table col f l = Inr l'" and "well_typed l"
    and "\<And>c t t'. f c t = Inr t' \<Longrightarrow> hm_get (tb_columns t) col = Some c \<Longrightarrow> well_typed_table t \<Longrightarrow> well_typed_table t'"
  shows "well_typed l'"
proof -
  from assms(1) obtain t c t' where t: "hm_get (ly_tables l) table = Some t" "hm_get (tb_columns t) col = Some c" "f c t = Inr t'"
    and l': "l' = l\<lparr>ly_tables := hm_insert table t' (ly_tables l)\<rparr>"
    by (auto simp: alter_column_def bind_res_eq_Inr split: option.splits)
  from t(1) assms(2) have "well_typed_table t" by (auto simp: well_typed_def)
  with assms(3) t(2,3) show ?thesis unfolding l' using assms(2) well_typed_insert by blast
qed

lemma convert_cell_fits: "convert_cell type v = Inr v' \<Longrightarrow> cell_fits type v' \<and> (v \<noteq> Null \<longrightarrow> v' \<noteq> Null)"
  by (auto simp: convert_cell_def int_fits_def split: cell.splits if_splits)

lemma convert_rows_fit:
  assumes "\<forall>r \<in> set rows. row_fits cols r" and "hm_get cols col = Some (ty, not_null)" and "convert_rows col type rows = Inr rows'"
  shows "\<forall>r \<in> set rows'. row_fits (hm_insert col (type, not_null) cols) r"
  using assms
proof (induction rows arbitrary: rows')
  case (Cons r rs)
  then obtain v rs' where v: "convert_cell type (r col) = Inr v" "convert_rows col type rs = Inr rs'" "rows' = r(col := v) # rs'"
    by (auto simp: bind_res_eq_Inr)
  have "row_fits (hm_insert col (type, not_null) cols) (r(col := v))"
    using convert_cell_fits [OF v(1)] Cons.prems(1,2) by (auto simp: row_fits_def hm_get_insert)
  with Cons v show ?case by auto
qed simp

lemma set_cells_fit:
  assumes "row_fits cols r" and "\<forall>(c, v) \<in> set vs. \<forall>ty not_null. hm_get cols c = Some (ty, not_null) \<longrightarrow> cell_fits ty v \<and> v \<noteq> Null"
  shows "row_fits cols (set_cells vs r)"
  using assms
proof (induction vs arbitrary: r)
  case (Cons cv vs)
  obtain c v where cv: "cv = (c, v)" by fastforce
  have "row_fits cols (r(c := v))" using Cons.prems cv by (auto simp: row_fits_def)
  then have "row_fits cols (set_cells vs (r(c := v)))" by (rule Cons.IH) (use Cons.prems(2) in simp)
  then show ?case by (simp add: set_cells_def cv)
qed (simp add: set_cells_def)

lemma fill_loop_fits:
  assumes "\<And>r vs r'. cells r = Inr vs \<Longrightarrow> row_fits cols r' \<Longrightarrow> row_fits cols (set_cells vs r')"
  shows "fill_loop cells limit fuel rows = Inr rows' \<Longrightarrow> \<forall>r \<in> set rows. row_fits cols r \<Longrightarrow> \<forall>r \<in> set rows'. row_fits cols r"
proof (induction fuel arbitrary: rows)
  case (Suc fuel)
  have step: "\<forall>r \<in> set rs'. row_fits cols r" if "fill_row cells b rs = Inr rs'" "\<forall>r \<in> set rs. row_fits cols r" for b rs rs'
    using that assms by (auto simp: fill_row_def bind_res_eq_Inr)
  show ?case
  proof (cases "take limit (filter unfilled rows) = []")
    case False
    with Suc obtain rs where rs: "fold_res (fill_row cells) (take limit (filter unfilled rows)) rows = Inr rs" "fill_loop cells limit fuel rs = Inr rows'"
      by (auto simp: Let_def bind_res_eq_Inr)
    from fold_res_invariant [OF rs(1), of "\<lambda>rs. \<forall>r \<in> set rs. row_fits cols r"] step Suc(3)
    have "\<forall>r \<in> set rs. row_fits cols r" by blast
    with Suc.IH rs(2) show ?thesis by blast
  qed (use Suc in \<open>auto simp: Let_def\<close>)
qed (auto split: if_splits)

lemma fill_loop_idle: "\<forall>r \<in> set rows. \<not> unfilled r \<Longrightarrow> fill_loop cells limit fuel rows = Inr rows"
  by (cases fuel) (auto simp: filter_empty_conv Let_def)

lemma sint_fits: "int_fits ''bigint'' (as_i64 w)"
  using sint_range_size [of w] by (simp add: int_fits_def as_i64_def word_size)

lemma fill_table_well_typed:
  assumes "fill_table table source types cells limit l = Inr l'" and "well_typed l"
    and "\<And>r vs. cells r = Inr vs \<Longrightarrow> \<forall>(c, v) \<in> set vs. \<exists>ty. (c, ty) \<in> set types \<and> cell_fits ty v \<and> v \<noteq> Null"
  shows "well_typed l'"
proof (rule alter_column_well_typed [OF assms(1) [unfolded fill_table_def] assms(2)])
  fix c t t'
  assume f: "(if hm_get (tb_columns t) source = None \<or>
        has_null ''short_channel_id'' t \<and> \<not> list_all (\<lambda>(c, ty). map_option fst (hm_get (tb_columns t) c) = Some ty) types
     then Inl Io_Error
     else bind_res (fill_loop cells limit (length (tb_rows t)) (tb_rows t)) (\<lambda>rows. Inr (t\<lparr>tb_rows := rows\<rparr>))) = Inr t'"
    and t: "well_typed_table t"
  then obtain rows where rows: "fill_loop cells limit (length (tb_rows t)) (tb_rows t) = Inr rows" "t' = t\<lparr>tb_rows := rows\<rparr>"
    by (auto simp: bind_res_eq_Inr split: if_splits)
  show "well_typed_table t'"
  proof (cases "has_null ''short_channel_id'' t")
    case True
    with f have types: "\<forall>(c, ty) \<in> set types. map_option fst (hm_get (tb_columns t) c) = Some ty"
      by (auto simp: list_all_iff split: if_splits)
    have "row_fits (tb_columns t) (set_cells vs r')" if "cells r = Inr vs" "row_fits (tb_columns t) r'" for r vs r'
    proof (rule set_cells_fit [OF that(2)], intro ballI, clarify)
      fix c v ty not_null assume "(c, v) \<in> set vs" and c: "hm_get (tb_columns t) c = Some (ty, not_null)"
      with assms(3) [OF that(1)] obtain ty' where "(c, ty') \<in> set types" "cell_fits ty' v" "v \<noteq> Null" by blast
      with types c show "cell_fits ty v \<and> v \<noteq> Null" by auto
    qed
    then have "\<forall>r \<in> set rows. row_fits (tb_columns t) r"
      by (rule fill_loop_fits [OF _ rows(1)]) (use t in \<open>simp_all add: well_typed_table_def\<close>)
    with t rows(2) show ?thesis by (auto simp: well_typed_table_def)
  next
    case False
    then have "rows = tb_rows t" using rows(1) by (simp add: fill_loop_idle has_null_def list_ex_iff)
    with t rows(2) show ?thesis by simp
  qed
qed

lemma execute_well_typed:
  assumes "execute read s l = Inr l'" and "well_typed l"
  shows "well_typed l'"
proof (cases s)
  case (Drop_Column table col)
  with assms(1) obtain l1 where l1: "alter_column table col (\<lambda>_ t. Inr (t\<lparr>tb_columns := hm_remove col (tb_columns t)\<rparr>)) l = Inr l1"
    and l': "ly_tables l' = ly_tables l1" by (auto simp: bind_res_eq_Inr)
  have "well_typed l1" by (rule alter_column_well_typed [OF l1 assms(2)])
    (auto simp: well_typed_table_def row_fits_def hm_inv_remove hm_get_remove split: if_splits)
  with l' show ?thesis by (simp add: well_typed_def)
next
  case (Add_Column table col type)
  with assms obtain t where t: "well_typed_table t"
    and l': "l' = l\<lparr>ly_tables := hm_insert table (t\<lparr>tb_columns := hm_insert col (type, False) (tb_columns t),
      tb_rows := map (\<lambda>r. r(col := Null)) (tb_rows t)\<rparr>) (ly_tables l)\<rparr>"
    by (auto simp: well_typed_def split: option.splits if_splits)
  from t show ?thesis unfolding l'
    by (intro well_typed_insert assms(2)) (auto simp: well_typed_table_def row_fits_def hm_inv_insert hm_get_insert)
next
  case (Set_Not_Null table col)
  with assms(1) have "alter_column table col (\<lambda>(type, _) t.
     if has_null col t then Inl Io_Error else Inr (set_column col (type, True) t)) l = Inr l'" by simp
  then show ?thesis by (rule alter_column_well_typed [OF _ assms(2)])
    (auto simp: well_typed_table_def row_fits_def hm_inv_insert hm_get_insert set_column_def has_null_def list_ex_iff split: if_splits)
next
  case (Set_Data_Type table col type)
  with assms(1) have "alter_column table col (\<lambda>(_, not_null) t. bind_res (convert_rows col type (tb_rows t)) (\<lambda>rows.
       Inr (set_column col (type, not_null) (t\<lparr>tb_rows := rows\<rparr>)))) l = Inr l'" by simp
  then show ?thesis
  proof (rule alter_column_well_typed [OF _ assms(2)], clarsimp simp: bind_res_eq_Inr)
    fix ty not_null t rows
    assume "hm_get (tb_columns t) col = Some (ty, not_null)" "well_typed_table t" "convert_rows col type (tb_rows t) = Inr rows"
    with convert_rows_fit [of "tb_rows t" "tb_columns t" col ty not_null type rows]
    show "well_typed_table (set_column col (type, not_null) (t\<lparr>tb_rows := rows\<rparr>))"
      by (simp add: well_typed_table_def set_column_def hm_inv_insert)
  qed
next
  case (Drop_Default table col)
  with assms(1) have "alter_column table col (\<lambda>_ t. Inr t) l = Inr l'" by simp
  then show ?thesis by (rule alter_column_well_typed [OF _ assms(2)]) simp
next
  case (Fill_Updates limit)
  with assms(1) have "fill_table channel_updates ''composite_index'' [(''short_channel_id'', ''bigint''), (''direction'', ''boolean'')]
    update_cells limit l = Inr l'" by simp
  then show ?thesis by (rule fill_table_well_typed [OF _ assms(2)])
    (auto simp: update_cells_def read_composite_index_def bind_res_eq_Inr sint_fits split: cell.splits list.splits if_splits option.splits prod.splits)
next
  case (Fill_Announcements limit)
  with assms(1) have "fill_table channel_announcements ''announcement_signed'' [(''short_channel_id'', ''bigint'')]
    (announcement_cells read) limit l = Inr l'" by simp
  then show ?thesis by (rule fill_table_well_typed [OF _ assms(2)])
    (auto simp: announcement_cells_def bind_res_eq_Inr Let_def sint_fits split: cell.splits if_splits)
qed (use assms in \<open>auto simp: well_typed_def split: option.splits if_splits\<close>)

lemma run_migrations_well_typed:
  "well_typed l \<Longrightarrow> run_migrations read v ns l = (l', e) \<Longrightarrow> well_typed l'"
proof (induction ns arbitrary: l)
  case (Cons n ns)
  have "well_typed m" if "transaction read (migration n) l = (m, e')" for m e'
    using that fold_res_invariant [of "execute read" "migration n" l m well_typed] execute_well_typed Cons.prems(1)
    by (auto simp: transaction_def split: sum.splits)
  with Cons show ?case by (fastforce split: if_splits option.splits prod.splits)
qed simp

lemma upgrade_db_well_typed:
  assumes "well_typed l"
  shows "well_typed (fst (upgrade_db read v l))"
proof -
  obtain m e where m: "run_migrations read v [1 .. 13] l = (m, e)" by fastforce
  with assms have "well_typed m" by (rule run_migrations_well_typed)
  moreover from this have "well_typed (add_funding_column m)"
    by (auto simp: add_funding_column_def simp del: execute.simps split: sum.splits dest: execute_well_typed)
  ultimately show ?thesis using m by (auto simp: upgrade_db_def Let_def split: option.splits)
qed

lemma create_table_well_typed: "well_typed l \<Longrightarrow> hm_inv cols \<Longrightarrow> well_typed (create_table (table, cols, keys) l)"
  by (auto simp: create_table_def well_typed_def well_typed_table_def hm_get_map_of map_add_Some_iff map_of_append split: if_splits)

lemma create_index_tables: "create_index i l = Inr l' \<Longrightarrow> ly_tables l' = ly_tables l"
  by (auto simp: create_index_def split: if_splits option.splits prod.splits)

lemma db_tables_columns: "(table, cols, keys) \<in> set db_tables \<Longrightarrow> hm_inv cols"
  by (auto simp: db_tables_def announcement_columns_def update_columns_def node_columns_def)

lemma fold_create_table_well_typed:
  "well_typed l \<Longrightarrow> \<forall>(_, cols, _) \<in> set ts. hm_inv cols \<Longrightarrow> well_typed (fold create_table ts l)"
  by (induction ts arbitrary: l) (auto simp: create_table_well_typed)

lemma initialize_db_well_typed:
  assumes "well_typed l"
  shows "well_typed (fst (initialize_db read l))"
proof -
  obtain m e where m: "(case ly_schema l of Some cur_schema \<Rightarrow> upgrade_db read cur_schema l | None \<Rightarrow> (l, None)) = (m, e)" by fastforce
  with assms upgrade_db_well_typed have "well_typed m" by (auto split: option.splits) (metis fst_conv)
  then have "well_typed (case ly_schema m of None \<Rightarrow> m\<lparr>ly_schema := Some SCHEMA_VERSION\<rparr> | Some _ \<Rightarrow> m)" (is "well_typed ?m")
    by (simp add: well_typed_def split: option.splits)
  then have "well_typed (fold create_table db_tables ?m)" (is "well_typed ?m2")
    by (rule fold_create_table_well_typed) (use db_tables_columns in auto)
  moreover have "ly_tables l' = ly_tables ?m2" if "fold_res create_index db_indexes ?m2 = Inr l'" for l'
    using fold_res_invariant [OF that, of "\<lambda>l. ly_tables l = ly_tables ?m2"] create_index_tables by fastforce
  ultimately have "well_typed (fst (case fold_res create_index db_indexes ?m2 of Inr l' \<Rightarrow> (l', None) | Inl e \<Rightarrow> (?m2, Some e)))"
    by (auto simp: well_typed_def split: sum.splits)
  with m \<open>well_typed m\<close> show ?thesis by (auto simp: initialize_db_def Let_def split: option.splits)
qed

section \<open>The values of the inserts\<close>

text \<open>
  The parameters of a statement have Rust types; \<open>tokio_postgres\<close> accepts a parameter only for the
  column types its Rust type corresponds to.
\<close>

datatype sql_param = P_i16 int | P_i32 int | P_i64 int | P_bool bool | P_string string | P_bytes bytes

type_synonym parameters = "(string \<times> sql_param) list"

fun param_accepted :: "string \<Rightarrow> sql_param \<Rightarrow> bool" where
  "param_accepted type (P_i16 _) = (type = ''smallint'')"
| "param_accepted type (P_i32 _) = (type = ''integer'' \<or> type = ''SERIAL'')"
| "param_accepted type (P_i64 _) = (type = ''bigint'')"
| "param_accepted type (P_bool _) = (type = ''boolean'')"
| "param_accepted type (P_string _) = (type = ''character varying'' \<or> type = ''character(29)'' \<or> type = ''varchar(66)'')"
| "param_accepted type (P_bytes _) = (type = ''BYTEA'')"

fun cell_of :: "sql_param \<Rightarrow> cell" where
  "cell_of (P_i16 i) = Int_Cell i"
| "cell_of (P_i32 i) = Int_Cell i"
| "cell_of (P_i64 i) = Int_Cell i"
| "cell_of (P_bool b) = Bool_Cell b"
| "cell_of (P_string s) = Text_Cell s"
| "cell_of (P_bytes bs) = Bytes_Cell bs"

text \<open>The columns that the insert statements name, with the parameters they bind.\<close>

definition node_values :: "node_announcement_row \<Rightarrow> parameters" where
  "node_values r = [
     (''public_key'', P_string (map (\<lambda>b. char_of (unat b)) (nar_public_key r))),
     (''features'', P_bytes (nar_features r)),
     (''socket_addresses'', P_bytes (nar_socket_addresses r)),
     (''timestamp'', P_i64 (nar_timestamp r)),
     (''announcement_signed'', P_bytes (nar_announcement_signed r))]"

definition announcement_values :: "channel_announcement_row \<Rightarrow> parameters" where
  "announcement_values r = [
     (''short_channel_id'', P_i64 (as_i64 (car_short_channel_id r))),
     (''funding_amount_sats'', P_i64 (as_i64 (car_funding_amount_sats r))),
     (''announcement_signed'', P_bytes (car_announcement_signed r))]"

definition update_values :: "channel_update_row \<Rightarrow> parameters" where
  "update_values r = [
     (''short_channel_id'', P_i64 (as_i64 (cur_short_channel_id r))),
     (''timestamp'', P_i64 (cur_timestamp r)),
     (''channel_flags'', P_i16 (cur_channel_flags r)),
     (''direction'', P_bool (cur_direction r)),
     (''disable'', P_bool (cur_disable r)),
     (''cltv_expiry_delta'', P_i32 (sint (cur_cltv_expiry_delta r))),
     (''htlc_minimum_msat'', P_i64 (as_i64 (cur_htlc_minimum_msat r))),
     (''fee_base_msat'', P_i32 (sint (cur_fee_base_msat r))),
     (''fee_proportional_millionths'', P_i32 (sint (cur_fee_proportional_millionths r))),
     (''htlc_maximum_msat'', P_i64 (as_i64 (cur_htlc_maximum_msat r))),
     (''blob_signed'', P_bytes (cur_blob_signed r))]"

text \<open>The id and the time seen are not among them, so their values in the row do not matter here.\<close>

definition insert_values :: "message_writer \<Rightarrow> gossip_message \<Rightarrow> string \<times> parameters" where
  "insert_values W m = (case m of
     NodeAnnouncement announcement _ \<Rightarrow> (node_announcements, node_values (node_row W announcement 0))
   | ChannelAnnouncement announcement funding_value _ \<Rightarrow>
       (channel_announcements, announcement_values (announcement_row W announcement funding_value 0))
   | ChannelUpdate update _ \<Rightarrow> (channel_updates, update_values (update_row W update 0 0)))"

text \<open>
  The persister is created when the database has been prepared; gossip reaches it through a channel
  for a hundred messages.
\<close>

definition gossip_persister_new :: "(bytes \<Rightarrow> channel_announcement option) \<Rightarrow> store \<Rightarrow> network_graph \<Rightarrow> network_graph option \<Rightarrow> layout \<Rightarrow> layout \<times> gossip_persister res" where
  "gossip_persister_new read st graph file l = (case initialize_db read l of
     (l', None) \<Rightarrow> (l', Inr (persist_gossip_start (mpsc_channel 100) st graph file))
   | (l', Some e) \<Rightarrow> (l', Inl e))"

lemma sint32_fits: "int_fits ''integer'' (sint (w :: u32))"
  using sint_range_size [of w] by (simp add: int_fits_def word_size)

lemma uint32_fits: "int_fits ''bigint'' (uint (w :: u32))"
  using unsigned_less [of w, where ?'a = int] by (auto simp: int_fits_def intro: order_trans [OF _ unsigned_greater_eq])

lemma uint8_fits: "int_fits ''smallint'' (uint (w :: u8))"
  using unsigned_less [of w, where ?'a = int] by (auto simp: int_fits_def intro: order_trans [OF _ unsigned_greater_eq])

lemma length_node_id_hex: "length (node_id_hex n) = 66"
proof -
  have "length (be_digits k x) = k" for k x by (induction k x rule: be_digits.induct) auto
  moreover have "length (lower_hex bs) = 2 * length bs" for bs by (induction bs) (auto simp: lower_hex_def hex_of_byte_def)
  ultimately show ?thesis by (simp add: node_id_hex_def be_write_def)
qed

end
