(* ===== verification/Schema_Upgrade.thy ===== *)
theory Schema_Upgrade
  imports Schema
begin

text \<open>
  The upgrade: which version the committed migrations have recorded, how it continues after it was
  stopped, that the loops which fill columns in batches return and what they write, and the last
  migration with its task in the background.
\<close>

section \<open>The recorded version\<close>

lemma alter_column_schema: "alter_column table col f l = Inr l' \<Longrightarrow> ly_schema l' = ly_schema l"
  by (auto simp: alter_column_def bind_res_eq_Inr split: option.splits)

lemma execute_schema:
  assumes "execute read s l = Inr l'" and "ly_schema l \<noteq> None"
  shows "ly_schema l' = (case s of Set_Schema n \<Rightarrow> Some n | _ \<Rightarrow> ly_schema l)"
  using assms
  by (cases s) (auto simp: bind_res_eq_Inr fill_table_def dest!: alter_column_schema split: option.splits if_splits)

lemma execute_keeps_schema: "execute read s l = Inr l' \<Longrightarrow> ly_schema l \<noteq> None \<Longrightarrow> ly_schema l' \<noteq> None"
  by (auto dest: execute_schema split: statement.splits)

lemma migration_records:
  assumes "1 \<le> n" and "n \<le> 13"
  shows "\<exists>ss. migration n = ss @ [Set_Schema (n + 1)]"
proof -
  have "n \<in> {1, 2, 3, 4, 5, 6, 7, 8, 9, 10, 11, 12, 13}" using assms by (simp; arith)
  then have "migration n \<noteq> [] \<and> List.last (migration n) = Set_Schema (n + 1)"
    unfolding migration_def by auto
  then show ?thesis by (metis append_butlast_last_id)
qed

lemma transaction_schema:
  assumes "transaction read (migration n) l = (l', None)" and "1 \<le> n" and "n \<le> 13" and "ly_schema l \<noteq> None"
  shows "ly_schema l' = Some (n + 1)"
proof -
  obtain ss where ss: "migration n = ss @ [Set_Schema (n + 1)]" using migration_records assms by blast
  from assms(1) have "fold_res (execute read) (migration n) l = Inr l'"
    by (auto simp: transaction_def split: sum.splits)
  then obtain m where "fold_res (execute read) ss l = Inr m" and m: "execute read (Set_Schema (n + 1)) m = Inr l'"
    unfolding ss fold_res_append by (auto simp: bind_res_eq_Inr)
  then have "ly_schema m \<noteq> None"
    using fold_res_invariant [of "execute read" ss l m "\<lambda>l. ly_schema l \<noteq> None"] assms(4) execute_keeps_schema by blast
  with m show ?thesis using execute_schema by fastforce
qed

lemma transaction_rolled_back: "transaction read ss l = (l', Some e) \<Longrightarrow> l' = l"
  by (auto simp: transaction_def split: sum.splits)

lemma run_migrations_append:
  "run_migrations read v (ms @ ns) l =
     (case run_migrations read v ms l of (l', None) \<Rightarrow> run_migrations read v ns l' | (l', Some e) \<Rightarrow> (l', Some e))"
  by (induction ms arbitrary: l) (auto split: option.splits prod.splits)

lemma run_migrations_skip: "\<forall>n \<in> set ns. \<not> migration_due n v \<Longrightarrow> run_migrations read v ns l = (l, None)"
  by (induction ns) auto

lemma run_migrations_cong:
  "\<forall>n \<in> set ns. migration_due n v = migration_due n w \<Longrightarrow> run_migrations read v ns l = run_migrations read w ns l"
  by (induction ns arbitrary: l) (auto split: option.splits)

text \<open>The migrations up to a version, when they succeed, record that version.\<close>

lemma run_migrations_snoc:
  assumes "0 \<le> j" and "migration_due (j + 1) v"
  shows "run_migrations read v [1 .. j + 1] l =
    (case run_migrations read v [1 .. j] l of (l', None) \<Rightarrow> transaction read (migration (j + 1)) l' | (l', Some e) \<Rightarrow> (l', Some e))"
proof -
  have "[1 .. j + 1] = [1 .. j] @ [j + 1]" using upto_rec2 [of 1 "j + 1"] assms(1) by simp
  with assms(2) show ?thesis by (simp add: run_migrations_append split: option.splits prod.splits)
qed

lemma committed_version:
  assumes "v - 1 \<le> j" and "j \<le> 13" and "1 \<le> v" and "ly_schema l = Some v"
  shows "run_migrations read v [1 .. j] l = (m, None) \<Longrightarrow> ly_schema m = Some (j + 1)"
  using assms
proof (induction j arbitrary: m rule: int_ge_induct)
  case base
  have "run_migrations read v [1 .. v - 1] l = (l, None)"
    by (rule run_migrations_skip) (auto simp: migration_due_def)
  with base show ?case by simp
next
  case (step j)
  have due: "migration_due (j + 1) v" using step(1) step.prems by (auto simp: migration_due_def)
  have snoc: "run_migrations read v [1 .. j + 1] l =
      (case run_migrations read v [1 .. j] l of (l', None) \<Rightarrow> transaction read (migration (j + 1)) l' | (l', Some e) \<Rightarrow> (l', Some e))"
    by (rule run_migrations_snoc) (use step due in auto)
  from step.prems(1) obtain m' where m': "run_migrations read v [1 .. j] l = (m', None)" "transaction read (migration (j + 1)) m' = (m, None)"
    using snoc by (auto split: option.splits prod.splits)
  with step.IH [of m'] step.prems have "ly_schema m' = Some (j + 1)" by auto
  with m' transaction_schema [of read "j + 1" m' m] step show ?case by auto
qed

text \<open>A migration that fails leaves what the migrations before it have committed.\<close>

lemma failing_migration:
  assumes "v - 1 \<le> j" and "j \<le> 13" and "1 \<le> v"
  shows "run_migrations read v [1 .. j] l = (m, Some e) \<Longrightarrow>
    \<exists>k. v \<le> k \<and> k \<le> j \<and> run_migrations read v [1 .. k - 1] l = (m, None) \<and> transaction read (migration k) m = (m, Some e)"
  using assms
proof (induction j arbitrary: m rule: int_ge_induct)
  case base
  have "run_migrations read v [1 .. v - 1] l = (l, None)"
    by (rule run_migrations_skip) (auto simp: migration_due_def)
  with base show ?case by simp
next
  case (step j)
  have due: "migration_due (j + 1) v" using step(1) step.prems by (auto simp: migration_due_def)
  have snoc: "run_migrations read v [1 .. j + 1] l =
      (case run_migrations read v [1 .. j] l of (l', None) \<Rightarrow> transaction read (migration (j + 1)) l' | (l', Some e) \<Rightarrow> (l', Some e))"
    by (rule run_migrations_snoc) (use step due in auto)
  obtain m' e' where m': "run_migrations read v [1 .. j] l = (m', e')" by fastforce
  show ?case
  proof (cases e')
    case None
    with m' due step.prems(1) have "transaction read (migration (j + 1)) m' = (m, Some e)"
      using snoc by simp
    moreover from this have "m = m'" by (rule transaction_rolled_back)
    ultimately show ?thesis using m' None step by (intro exI [of _ "j + 1"]) auto
  next
    case (Some e'')
    with m' step.prems(1) have "run_migrations read v [1 .. j] l = (m, Some e)" using snoc by simp
    with step.IH [of m] step.prems show ?thesis by force
  qed
qed

text \<open>Migrating from what has been committed continues the migration.\<close>

lemma migrations_continue:
  assumes "run_migrations read v [1 .. k - 1] l = (m, None)" and "1 \<le> v" and "v \<le> k" and "k \<le> 14"
  shows "run_migrations read k [1 .. 13] m = run_migrations read v [1 .. 13] l"
proof (cases "k = 1")
  case True
  with assms show ?thesis by simp
next
  case False
  have split: "[1 .. 13] = [1 .. k - 1] @ [k .. 13]" using upto_split1 [of 1 k 13] assms by (cases "k = 14") auto
  have skip: "run_migrations read k [1 .. 13] m = run_migrations read k [k .. 13] m"
    using run_migrations_skip [of "[1 .. k - 1]" k read m] assms False
    by (simp add: split run_migrations_append migration_due_def)
  have "run_migrations read v [k .. 13] m = run_migrations read k [k .. 13] m"
    by (rule run_migrations_cong) (use assms False in \<open>auto simp: migration_due_def\<close>)
  with assms skip show ?thesis by (simp add: split run_migrations_append)
qed

section \<open>Filling the channel ids\<close>

text \<open>What the loops rely on: the values written give a row its channel id and leave its id alone.\<close>

definition filling :: "(db_row \<Rightarrow> column_values res) \<Rightarrow> bool" where
  "filling cells \<longleftrightarrow> (\<forall>r vs. cells r = Inr vs \<longrightarrow>
     (\<forall>r'. \<not> unfilled (set_cells vs r') \<and> set_cells vs r' ''id'' = r' ''id''))"

lemma filling_update_cells: "filling update_cells"
  by (auto simp: filling_def update_cells_def set_cells_def bind_res_eq_Inr split: cell.splits prod.splits)

lemma filling_announcement_cells: "filling (announcement_cells read)"
  by (auto simp: filling_def announcement_cells_def set_cells_def bind_res_eq_Inr Let_def split: cell.splits if_splits)

lemma filter_shrinks:
  assumes "\<And>x. x \<in> set xs \<Longrightarrow> P (f x) \<Longrightarrow> P x"
  shows "length (filter P (map f xs)) \<le> length (filter P xs)"
    and "y \<in> set xs \<Longrightarrow> P y \<Longrightarrow> \<not> P (f y) \<Longrightarrow> length (filter P (map f xs)) < length (filter P xs)"
  using assms by (induction xs) (auto simp: less_Suc_eq_le)

lemma fill_row_shrinks:
  assumes "fill_row cells row rows = Inr rows'" and "filling cells"
  shows "length (filter unfilled rows') \<le> length (filter unfilled rows)"
    and "row \<in> set rows \<Longrightarrow> unfilled row \<Longrightarrow> length (filter unfilled rows') < length (filter unfilled rows)"
proof -
  from assms obtain vs where vs: "cells row = Inr vs"
    and rows': "rows' = map (\<lambda>r. if r ''id'' = row ''id'' then set_cells vs r else r) rows"
    by (auto simp: fill_row_def bind_res_eq_Inr)
  define f where "f = (\<lambda>r. if r ''id'' = row ''id'' then set_cells vs r else r)"
  have filled: "\<not> unfilled (set_cells vs r)" for r using assms(2) vs by (auto simp: filling_def)
  then have f: "\<And>r. r \<in> set rows \<Longrightarrow> unfilled (f r) \<Longrightarrow> unfilled r" by (auto simp: f_def split: if_splits)
  note rows' = rows' [folded f_def]
  show "length (filter unfilled rows') \<le> length (filter unfilled rows)"
    unfolding rows' by (rule filter_shrinks(1) [of rows unfilled f]) (rule f)
  show "length (filter unfilled rows') < length (filter unfilled rows)" if "row \<in> set rows" "unfilled row"
    unfolding rows' by (rule filter_shrinks(2) [of rows unfilled f, OF _ that]) (use f filled in \<open>simp_all add: f_def\<close>)
qed

lemma fill_batch_shrinks:
  assumes "fold_res (fill_row cells) batch rows = Inr rows'" and "filling cells"
  shows "length (filter unfilled rows') \<le> length (filter unfilled rows)"
  using fold_res_invariant [OF assms(1), of "\<lambda>rs. length (filter unfilled rs) \<le> length (filter unfilled rows)"]
    fill_row_shrinks(1) [OF _ assms(2)] le_trans by blast

lemma fold_res_error: "fold_res f xs s = Inl e \<Longrightarrow> \<exists>x t. x \<in> set xs \<and> f x t = Inl e"
proof (induction xs arbitrary: s)
  case (Cons x xs)
  then show ?case by (cases "f x s") force+
qed simp

lemma fill_loop_returns:
  assumes "filling cells" and "0 < limit" and "\<And>r. cells r \<noteq> Inl Unreachable"
  shows "length (filter unfilled rows) \<le> fuel \<Longrightarrow> fill_loop cells limit fuel rows \<noteq> Inl Unreachable"
proof (induction fuel arbitrary: rows)
  case (Suc fuel)
  define batch where "batch = take limit (filter unfilled rows)"
  show ?case
  proof (cases batch)
    case (Cons b bs)
    then have b: "b \<in> set rows" "unfilled b" unfolding batch_def 
      using in_set_takeD [of b limit "filter unfilled rows"] by auto
    have unfold: "fill_loop cells limit (Suc fuel) rows = bind_res (fold_res (fill_row cells) batch rows) (fill_loop cells limit fuel)"
      using Cons by (simp add: batch_def Let_def)
    show ?thesis
    proof (cases "fold_res (fill_row cells) batch rows")
      case (Inl e)
      then obtain x t where "fill_row cells x t = Inl e" using fold_res_error [of "fill_row cells" batch rows e] by blast
      with assms(3) [of x] have "e \<noteq> Unreachable" by (auto simp: fill_row_def bind_res_def split: sum.splits)
      with Inl show ?thesis unfolding unfold by simp
    next
      case (Inr rows')
      then obtain rs where "fill_row cells b rows = Inr rs" "fold_res (fill_row cells) bs rs = Inr rows'"
        using Cons by (auto simp: bind_res_eq_Inr)
      then have "length (filter unfilled rows') < length (filter unfilled rows)"
        using fill_row_shrinks(2) [OF _ assms(1) b] fill_batch_shrinks [OF _ assms(1)] by (meson le_less_trans)
      then show ?thesis unfolding unfold using Suc Inr by simp
    qed
  qed (simp add: batch_def)
qed (simp add: assms)

text \<open>With distinct ids the loop writes to every row without a channel id the values read from it.\<close>

definition fill :: "(db_row \<Rightarrow> column_values res) \<Rightarrow> db_row \<Rightarrow> db_row" where
  "fill cells r = (if unfilled r then case cells r of Inr vs \<Rightarrow> set_cells vs r | Inl _ \<Rightarrow> r else r)"

definition matching :: "db_row list \<Rightarrow> db_row list \<Rightarrow> bool" where
  "matching batch rows \<longleftrightarrow> distinct (map (\<lambda>r. r ''id'') batch) \<and> (\<forall>b \<in> set batch. unfilled b) \<and>
     (\<forall>b \<in> set batch. \<forall>r \<in> set rows. r ''id'' = b ''id'' \<longrightarrow> r = b)"

lemma fill_row_matching:
  assumes "fill_row cells b rows = Inr rs" and "matching (b # bs) rows" and "filling cells"
  shows "map (fill cells) rs = map (fill cells) rows" and "map (\<lambda>r. r ''id'') rs = map (\<lambda>r. r ''id'') rows"
    and "matching bs rs"
proof -
  from assms(1) obtain vs where vs: "cells b = Inr vs"
    and rs: "rs = map (\<lambda>r. if r ''id'' = b ''id'' then set_cells vs r else r) rows"
    by (auto simp: fill_row_def bind_res_eq_Inr)
  note filled = assms(3) [unfolded filling_def, rule_format, OF vs]
  have b: "r = b" if "r \<in> set rows" "r ''id'' = b ''id''" for r using that assms(2) by (auto simp: matching_def)
  have "unfilled b" using assms(2) by (simp add: matching_def)
  with vs filled have "fill cells (set_cells vs b) = fill cells b" by (simp add: fill_def)
  with b show "map (fill cells) rs = map (fill cells) rows" by (auto simp: rs)
  show "map (\<lambda>r. r ''id'') rs = map (\<lambda>r. r ''id'') rows" using filled by (simp add: rs)
  show "matching bs rs" using assms(2) filled unfolding matching_def rs by (auto split: if_splits)
qed

lemma fill_batch_matching:
  assumes "fold_res (fill_row cells) batch rows = Inr rows'" and "matching batch rows" and "filling cells"
  shows "map (fill cells) rows' = map (fill cells) rows \<and> map (\<lambda>r. r ''id'') rows' = map (\<lambda>r. r ''id'') rows"
  using assms
proof (induction batch arbitrary: rows)
  case (Cons b bs)
  then obtain rs where "fill_row cells b rows = Inr rs" "fold_res (fill_row cells) bs rs = Inr rows'"
    by (auto simp: bind_res_eq_Inr)
  with Cons fill_row_matching [of cells b rows rs bs] show ?case by simp
qed simp

lemma unfilled_batch_matching:
  assumes "distinct (map (\<lambda>r. r ''id'') rows)"
  shows "matching (take limit (filter unfilled rows)) rows"
proof -
  have "distinct (map (\<lambda>r. r ''id'') (take limit (filter unfilled rows)))"
    using assms by (simp add: distinct_map_filter flip: take_map)
  moreover have "set (take limit (filter unfilled rows)) \<subseteq> {r \<in> set rows. unfilled r}"
    using set_take_subset [of limit "filter unfilled rows"] by auto
  ultimately show ?thesis using assms unfolding matching_def distinct_map inj_on_def by blast
qed

lemma fill_loop_fills:
  assumes "filling cells" and "0 < limit"
  shows "fill_loop cells limit fuel rows = Inr rows' \<Longrightarrow> distinct (map (\<lambda>r. r ''id'') rows) \<Longrightarrow>
    rows' = map (fill cells) rows \<and> (\<forall>r \<in> set rows'. \<not> unfilled r)"
proof (induction fuel arbitrary: rows)
  case (Suc fuel)
  define batch where "batch = take limit (filter unfilled rows)"
  show ?case
  proof (cases "batch = []")
    case True
    with assms(2) have none: "filter unfilled rows = []" by (simp add: batch_def)
    with Suc True have "rows' = rows" by (simp add: batch_def)
    moreover have "map (fill cells) rows = rows" using none by (auto simp: fill_def filter_empty_conv intro: map_idI)
    ultimately show ?thesis using none by (auto simp: filter_empty_conv)
  next
    case False
    with Suc obtain rs where rs: "fold_res (fill_row cells) batch rows = Inr rs" "fill_loop cells limit fuel rs = Inr rows'"
      by (auto simp: batch_def Let_def bind_res_eq_Inr)
    from fill_batch_matching [OF rs(1) _ assms(1)] unfilled_batch_matching [OF Suc(3)]
    have "map (fill cells) rs = map (fill cells) rows" "map (\<lambda>r. r ''id'') rs = map (\<lambda>r. r ''id'') rows"
      by (auto simp: batch_def)
    with Suc.IH [OF rs(2)] Suc(3) show ?thesis by simp
  qed
next
  case 0
  then have none: "filter unfilled rows = []" "rows' = rows" by (auto split: if_splits)
  moreover have "map (fill cells) rows = rows" using none by (auto simp: fill_def filter_empty_conv intro: map_idI)
  ultimately show ?case by (auto simp: filter_empty_conv)
qed

lemma fill_batch_succeeds:
  assumes "\<forall>b \<in> set batch. \<exists>vs. cells b = Inr vs"
  shows "\<exists>rs. fold_res (fill_row cells) batch rows = Inr rs"
  using assms by (induction batch arbitrary: rows) (auto simp: fill_row_def)

lemma fill_row_readable:
  assumes "fill_row cells b rows = Inr rs" and "filling cells" and "\<forall>r \<in> set rows. unfilled r \<longrightarrow> (\<exists>vs. cells r = Inr vs)"
  shows "\<forall>r \<in> set rs. unfilled r \<longrightarrow> (\<exists>vs. cells r = Inr vs)"
  using assms by (auto simp: fill_row_def filling_def bind_res_eq_Inr split: if_splits)

lemma fill_loop_succeeds:
  assumes "filling cells" and "0 < limit"
  shows "\<forall>r \<in> set rows. unfilled r \<longrightarrow> (\<exists>vs. cells r = Inr vs) \<Longrightarrow> length (filter unfilled rows) \<le> fuel \<Longrightarrow>
    \<exists>rows'. fill_loop cells limit fuel rows = Inr rows'"
proof (induction fuel arbitrary: rows)
  case (Suc fuel)
  define batch where "batch = take limit (filter unfilled rows)"
  show ?case
  proof (cases batch)
    case (Cons b bs)
    have mem: "c \<in> set rows \<and> unfilled c" if "c \<in> set batch" for c
      using that in_set_takeD [of c limit "filter unfilled rows"] by (auto simp: batch_def)
    have unfold: "fill_loop cells limit (Suc fuel) rows = bind_res (fold_res (fill_row cells) batch rows) (fill_loop cells limit fuel)"
      using Cons by (simp add: batch_def Let_def)
    obtain rs where rs: "fold_res (fill_row cells) batch rows = Inr rs"
      using fill_batch_succeeds [of batch cells rows] mem Suc.prems(1) by blast
    then obtain r1 where "fill_row cells b rows = Inr r1" "fold_res (fill_row cells) bs r1 = Inr rs"
      using Cons by (auto simp: bind_res_eq_Inr)
    then have "length (filter unfilled rs) < length (filter unfilled rows)"
      using fill_row_shrinks(2) [OF _ assms(1)] mem [of b] fill_batch_shrinks [OF _ assms(1)] Cons
      by (meson le_less_trans list.set_intros(1))
    moreover have "\<forall>r \<in> set rs. unfilled r \<longrightarrow> (\<exists>vs. cells r = Inr vs)"
      using fold_res_invariant [OF rs, of "\<lambda>rs. \<forall>r \<in> set rs. unfilled r \<longrightarrow> (\<exists>vs. cells r = Inr vs)"]
        fill_row_readable [OF _ assms(1)] Suc.prems(1) by blast
    ultimately show ?thesis unfolding unfold rs using Suc by simp
  qed (simp add: batch_def)
qed simp

text \<open>The rows of a table, and the migration that fills the ids of the updates.\<close>

definition table_rows :: "layout \<Rightarrow> string \<Rightarrow> db_row list option" where
  "table_rows l table = map_option tb_rows (hm_get (ly_tables l) table)"

definition filled_update :: "db_row \<Rightarrow> db_row \<Rightarrow> bool" where
  "filled_update r r' \<longleftrightarrow> (\<exists>index scid direction. r ''composite_index'' = Text_Cell index \<and>
     read_composite_index index = Inr (scid, direction) \<and>
     r' = r(''short_channel_id'' := Int_Cell scid, ''direction'' := Bool_Cell direction))"

lemma fill_update_cells:
  assumes "r ''composite_index'' = Text_Cell index" and "read_composite_index index = Inr (scid, direction)"
  shows "fill update_cells (r(''short_channel_id'' := Null, ''direction'' := Null)) =
    r(''short_channel_id'' := Int_Cell scid, ''direction'' := Bool_Cell direction)"
  using assms by (simp add: fill_def update_cells_def set_cells_def fun_upd_twist)

lemma fill_updates_loop:
  assumes "\<forall>r \<in> set rows. \<exists>index p. r ''composite_index'' = Text_Cell index \<and> read_composite_index index = Inr p"
    and "distinct (map (\<lambda>r. r ''id'') rows)" and "0 < limit"
  defines "cleared \<equiv> map (\<lambda>r. r(''short_channel_id'' := Null, ''direction'' := Null)) rows"
  obtains rows' where "fill_loop update_cells limit (length cleared) cleared = Inr rows'" and "list_all2 filled_update rows rows'"
    and "\<forall>r \<in> set rows'. r ''short_channel_id'' \<noteq> Null \<and> r ''direction'' \<noteq> Null"
proof -
  have "\<exists>vs. update_cells r = Inr vs" if "r \<in> set cleared" for r
    using that assms(1) by (fastforce simp: cleared_def update_cells_def)
  then obtain rows' where rows': "fill_loop update_cells limit (length cleared) cleared = Inr rows'"
    using fill_loop_succeeds [OF filling_update_cells assms(3), of cleared "length cleared"] by (auto simp: le_trans [OF length_filter_le])
  moreover have "map (\<lambda>r. r ''id'') cleared = map (\<lambda>r. r ''id'') rows" by (simp add: cleared_def)
  ultimately have eq: "rows' = map (fill update_cells) cleared"
    using fill_loop_fills [OF filling_update_cells assms(3) rows'] assms(2) by metis
  have filled: "filled_update r (fill update_cells (r(''short_channel_id'' := Null, ''direction'' := Null)))" if "r \<in> set rows" for r
    using assms(1) that fill_update_cells unfolding filled_update_def by (metis prod.collapse)
  then have "list_all2 filled_update rows rows'" by (simp add: eq cleared_def list_all2_conv_all_nth)
  moreover have "\<forall>r \<in> set rows'. r ''short_channel_id'' \<noteq> Null \<and> r ''direction'' \<noteq> Null"
    using filled by (fastforce simp: eq cleared_def filled_update_def)
  ultimately show ?thesis using rows' that by blast
qed

lemma update_migration_statements:
  assumes "hm_get (ly_tables l) channel_updates = Some t" and "hm_inv (tb_columns t)"
    and "\<forall>c \<in> {''short_channel_id'', ''direction'', ''composite_index''}. hm_get (tb_columns t) c \<noteq> None"
    and "fill_loop update_cells 50000 (length (tb_rows t)) (map (\<lambda>r. r(''short_channel_id'' := Null, ''direction'' := Null)) (tb_rows t)) = Inr rows'"
    and "\<forall>r \<in> set rows'. r ''short_channel_id'' \<noteq> Null \<and> r ''direction'' \<noteq> Null"
  shows "\<exists>l'. fold_res (execute read) (migration 2) l = Inr l' \<and> table_rows l' channel_updates = Some rows'"
  using assms
  by (auto simp: migration_def alter_column_def hm_get_insert hm_get_remove hm_inv_insert hm_inv_remove
      fill_table_def has_null_def list_ex_iff list_all_iff set_column_def table_rows_def comp_def)

section \<open>The last migration\<close>

lemma add_funding_column_twice: "add_funding_column (add_funding_column l) = add_funding_column l"
proof (cases "execute (\<lambda>_. None) (Add_Column channel_announcements ''funding_amount_sats'' ''bigint'') l")
  case (Inr l')
  then have "execute (\<lambda>_. None) (Add_Column channel_announcements ''funding_amount_sats'' ''bigint'') l' = Inl Io_Error"
    by (auto simp: hm_get_insert all_bool_eq split: option.splits if_splits)
  with Inr show ?thesis by (auto simp: add_funding_column_def)
qed (simp add: add_funding_column_def)

lemma add_funding_column_schema: "ly_schema (add_funding_column l) = ly_schema l"
  by (auto simp: add_funding_column_def split: sum.splits option.splits if_splits)

lemma upgrade_from_14: "upgrade_db read 14 l = (add_funding_column l, None)"
  using run_migrations_skip [of "[1 .. 13]" 14 read l] by (simp add: upgrade_db_def SCHEMA_VERSION_def migration_due_def)

lemma upgrade_db_outcome:
  assumes "1 \<le> v" and "v \<le> 14"
  shows "upgrade_db read v l = (case run_migrations read v [1 .. 13] l of
    (l', None) \<Rightarrow> (add_funding_column l', if v = 1 then Some Unknown_Schema else None) | r \<Rightarrow> r)"
  using assms by (auto simp: upgrade_db_def SCHEMA_VERSION_def split: prod.splits option.splits)

section \<open>The funding amounts and a fresh database\<close>

text \<open>
  The funding amount of a row is kept or replaced by the one a client found for its channel; what the
  clients of several runs did adds up.
\<close>

definition found :: "rest_client \<Rightarrow> cell \<Rightarrow> int \<Rightarrow> bool" where
  "found client scid v \<longleftrightarrow> (\<exists>i txo. scid = Int_Cell i \<and> retrieve_txo client (as_u64 i) = Inr (Inr txo) \<and> v = as_i64 (txo_value txo))"

definition funded :: "rest_client set \<Rightarrow> db_row \<Rightarrow> db_row \<Rightarrow> bool" where
  "funded clients r r' \<longleftrightarrow> r' = r \<or>
     (\<exists>client \<in> clients. \<exists>v. found client (r ''short_channel_id'') v \<and> r' = r(''funding_amount_sats'' := Int_Cell v))"

lemma funded_refl [simp]: "funded C r r"
  by (simp add: funded_def)

lemma funded_trans: "funded C r r' \<Longrightarrow> funded D r' r'' \<Longrightarrow> funded (C \<union> D) r r''"
  by (auto simp: funded_def) blast

lemma funded_all_trans: "list_all2 (funded C) rs rs' \<Longrightarrow> list_all2 (funded D) rs' rs'' \<Longrightarrow> list_all2 (funded (C \<union> D)) rs rs''"
  using funded_trans by (rule list_all2_trans)

lemma funded_scid: "funded C r r' \<Longrightarrow> r' ''short_channel_id'' = r ''short_channel_id''"
  by (auto simp: funded_def)

lemma fill_funding_rows:
  assumes "fill_funding client type scid rows = Inr rows'"
  shows "list_all2 (funded {client}) rows rows'" and "\<forall>r \<in> set rows'. r ''funding_amount_sats'' = Null \<longrightarrow> r \<in> set rows \<and> r ''short_channel_id'' \<noteq> scid"
proof -
  from assms obtain i txo where i: "scid = Int_Cell i" "retrieve_txo client (as_u64 i) = Inr (Inr txo)"
    and rows': "rows' = map (\<lambda>r. if r ''short_channel_id'' = scid then r(''funding_amount_sats'' := Int_Cell (as_i64 (txo_value txo))) else r) rows"
    by (cases scid) (auto simp: fill_funding_def bind_res_def split: sum.splits if_splits)
  show "list_all2 (funded {client}) rows rows'"
    unfolding rows' list.rel_map using i by (intro list.rel_refl_strong) (auto simp: funded_def found_def)
  show "\<forall>r \<in> set rows'. r ''funding_amount_sats'' = Null \<longrightarrow> r \<in> set rows \<and> r ''short_channel_id'' \<noteq> scid"
    unfolding rows' by auto
qed

lemma fill_fundings_rows:
  "fill_fundings client type scids rows = (rows', e) \<Longrightarrow> list_all2 (funded {client}) rows rows' \<and>
    (e = None \<and> (\<forall>r \<in> set rows. r ''funding_amount_sats'' = Null \<longrightarrow> r ''short_channel_id'' \<in> set scids) \<longrightarrow>
      (\<forall>r \<in> set rows'. r ''funding_amount_sats'' \<noteq> Null))"
proof (induction scids arbitrary: rows)
  case (Cons scid scids)
  show ?case
  proof (cases "fill_funding client type scid rows")
    case (Inr rows1)
    note fr = fill_funding_rows [OF Inr]
    from Cons.IH [of rows1] Cons.prems Inr have IH: "list_all2 (funded {client}) rows1 rows'"
      "e = None \<and> (\<forall>r \<in> set rows1. r ''funding_amount_sats'' = Null \<longrightarrow> r ''short_channel_id'' \<in> set scids) \<longrightarrow>
        (\<forall>r \<in> set rows'. r ''funding_amount_sats'' \<noteq> Null)" by simp_all
    from funded_all_trans [OF fr(1) IH(1)] have "list_all2 (funded {client}) rows rows'" by simp
    moreover have "\<forall>r \<in> set rows1. r ''funding_amount_sats'' = Null \<longrightarrow> r ''short_channel_id'' \<in> set scids"
      if "\<forall>r \<in> set rows. r ''funding_amount_sats'' = Null \<longrightarrow> r ''short_channel_id'' \<in> set (scid # scids)"
      using that fr(2) by fastforce
    ultimately show ?thesis using IH(2) by blast
  qed (use Cons.prems in \<open>auto simp: list.rel_refl_strong\<close>)
qed (auto simp: list.rel_refl_strong)

lemma fill_fundings_complete:
  "\<forall>s \<in> set scids. \<exists>v. found client s v \<Longrightarrow> snd (fill_fundings client ''bigint'' scids rows) = None"
  by (induction scids arbitrary: rows) (auto simp: found_def fill_funding_def split: sum.split)

text \<open>
  A run of the task leaves the table with its rows funded by its client. It completes when every row
  without a funding amount has a channel id that is found on chain: then the column is declared not
  null and version 15 is recorded.
\<close>

definition funding_ready :: "layout \<Rightarrow> db_table \<Rightarrow> bool" where
  "funding_ready l t \<longleftrightarrow> hm_get (ly_tables l) channel_announcements = Some t \<and>
     map_option fst (hm_get (tb_columns t) ''funding_amount_sats'') = Some ''bigint'' \<and> ly_schema l \<noteq> None"

lemma funding_task_step:
  assumes "funding_ready l t" and "reorders completion"
  shows "\<exists>t'. funding_ready (fst (funding_task client completion l)) t' \<and> list_all2 (funded {client}) (tb_rows t) (tb_rows t')"
    and "\<forall>r \<in> set (tb_rows t). r ''funding_amount_sats'' = Null \<longrightarrow> (\<exists>v. found client (r ''short_channel_id'') v) \<Longrightarrow>
      \<exists>l' t'. funding_task client completion l = (l', None) \<and> ly_schema l' = Some SCHEMA_VERSION \<and> funding_ready l' t' \<and>
        hm_get (tb_columns t') ''funding_amount_sats'' = Some (''bigint'', True) \<and> \<not> has_null ''funding_amount_sats'' t' \<and>
        list_all2 (funded {client}) (tb_rows t) (tb_rows t')"
proof -
  define scids where "scids = remdups (map (\<lambda>r. r ''short_channel_id'') (filter (\<lambda>r. r ''funding_amount_sats'' = Null) (tb_rows t)))"
  obtain rows' e where f: "fill_fundings client ''bigint'' (completion scids) (tb_rows t) = (rows', e)" by fastforce
  note rows' = fill_fundings_rows [OF f]
  obtain not_null where c: "hm_get (tb_columns t) ''funding_amount_sats'' = Some (''bigint'', not_null)"
    using assms(1) by (cases "hm_get (tb_columns t) ''funding_amount_sats''") (auto simp: funding_ready_def)
  define t1 where "t1 = t\<lparr>tb_rows := rows'\<rparr>"
  define l1 where "l1 = l\<lparr>ly_tables := hm_insert channel_announcements t1 (ly_tables l)\<rparr>"
  define t2 where "t2 = set_column ''funding_amount_sats'' (''bigint'', True) t1"
  have set_scids: "\<forall>r \<in> set (tb_rows t). r ''funding_amount_sats'' = Null \<longrightarrow> r ''short_channel_id'' \<in> set (completion scids)"
    by (auto simp: reorders_set [OF assms(2)] scids_def)
  then have full: "e = None \<Longrightarrow> \<not> has_null ''funding_amount_sats'' t1" using rows' by (auto simp: has_null_def list_ex_iff t1_def)
  have not_null: "execute (\<lambda>_. None) (Set_Not_Null channel_announcements ''funding_amount_sats'') l1 =
      Inr (l1\<lparr>ly_tables := hm_insert channel_announcements t2 (ly_tables l1)\<rparr>)" if "e = None"
    using c full [OF that] by (simp add: alter_column_def l1_def hm_get_insert t2_def t1_def)
  have run: "funding_task client completion l = (case e of Some x \<Rightarrow> (l1, Some x)
      | None \<Rightarrow> (l1\<lparr>ly_tables := hm_insert channel_announcements t2 (ly_tables l1), ly_schema := Some SCHEMA_VERSION\<rparr>, None))"
    using assms(1) c f not_null
    by (auto simp: funding_task_def funding_ready_def scids_def [symmetric] l1_def [symmetric] t1_def [symmetric] SCHEMA_VERSION_def Let_def
        simp del: execute.simps split: option.split) (simp add: l1_def)
  have t2: "hm_get (tb_columns t2) ''funding_amount_sats'' = Some (''bigint'', True)" "tb_rows t2 = rows'"
    by (simp_all add: t2_def set_column_def hm_get_insert t1_def)
  have r1: "funding_ready l1 t1" using assms(1) c by (simp add: funding_ready_def l1_def t1_def hm_get_insert)
  have r2: "funding_ready (l1\<lparr>ly_tables := hm_insert channel_announcements t2 (ly_tables l1), ly_schema := Some SCHEMA_VERSION\<rparr>) t2"
    using t2(1) by (simp add: funding_ready_def hm_get_insert)
  show "\<exists>t'. funding_ready (fst (funding_task client completion l)) t' \<and> list_all2 (funded {client}) (tb_rows t) (tb_rows t')"
    using r1 r2 rows' t2(2) by (cases e) (auto simp: run t1_def)
  assume "\<forall>r \<in> set (tb_rows t). r ''funding_amount_sats'' = Null \<longrightarrow> (\<exists>v. found client (r ''short_channel_id'') v)"
  then have "\<forall>s \<in> set (completion scids). \<exists>v. found client s v" by (auto simp: reorders_set [OF assms(2)] scids_def)
  from fill_fundings_complete [OF this, of "tb_rows t"] f have e: "e = None" by simp
  have "\<not> has_null ''funding_amount_sats'' t2" using full [OF e] by (simp add: has_null_def t2_def set_column_def)
  with r2 rows' t2 show "\<exists>l' t'. funding_task client completion l = (l', None) \<and> ly_schema l' = Some SCHEMA_VERSION \<and> funding_ready l' t' \<and>
        hm_get (tb_columns t') ''funding_amount_sats'' = Some (''bigint'', True) \<and> \<not> has_null ''funding_amount_sats'' t' \<and>
        list_all2 (funded {client}) (tb_rows t) (tb_rows t')"
    by (simp add: run e) blast
qed

text \<open>An empty database gets the current version, the three tables and the indexes.\<close>

lemma fresh_database_initialized:
  "\<exists>l. initialize_db read \<lparr>ly_schema = None, ly_tables = [], ly_indexes = []\<rparr> = (l, None) \<and> ly_schema l = Some SCHEMA_VERSION \<and>
     map fst (ly_tables l) = [channel_announcements, channel_updates, node_announcements] \<and>
     (\<forall>(is_unique, idx, table, cols) \<in> set db_indexes. hm_get (ly_indexes l) idx = Some (is_unique, table, cols))"
  by (simp add: initialize_db_def db_tables_def db_indexes_def create_table_def create_index_def announcement_columns_def
      update_columns_def node_columns_def has_duplicates_def all_bool_eq ex_bool_eq)

end
