(* ===== verification/Schema_Columns.thy ===== *)
theory Schema_Columns
  imports Schema_Upgrade Schema_Types
begin

text \<open>
  What the upgrade makes of the tables: the effect of a statement on the declaration of one column, on
  the cells of the rows and on the unique indexes, carried through the migrations.
\<close>

section \<open>The statements of an upgrade\<close>

lemma run_migrations_statements:
  "run_migrations read v ns l = (m, None) \<Longrightarrow>
    fold_res (execute read) (concat (map migration (filter (\<lambda>n. migration_due n v) ns))) l = Inr m"
proof (induction ns arbitrary: l)
  case (Cons n ns)
  show ?case
  proof (cases "migration_due n v")
    case True
    with Cons.prems obtain l1 where "fold_res (execute read) (migration n) l = Inr l1" "run_migrations read v ns l1 = (m, None)"
      by (auto simp: transaction_def split: sum.splits)
    with Cons.IH True show ?thesis by (simp add: fold_res_append)
  qed (use Cons in simp)
qed simp

text \<open>The migrations from a version on, split at a later one.\<close>

lemma upgrade_statements:
  assumes "run_migrations read v [1 .. 13] l = (m, None)" and "1 \<le> v" and "v \<le> n" and "n \<le> 14"
  obtains k where "fold_res (execute read) (concat (map migration [v .. n - 1])) l = Inr k"
    and "fold_res (execute read) (concat (map migration [n .. 13])) k = Inr m"
proof -
  have split: "[1 .. 13] = [1 .. v - 1] @ [v .. 13]" using upto_split1 [of 1 v 13] assms by (cases "v = 14") auto
  have split': "[v .. 13] = [v .. n - 1] @ [n .. 13]" using upto_split1 [of v n 13] assms by (cases "n = 14") auto
  have "filter (\<lambda>n. migration_due n v) [1 .. v - 1] = []" "filter (\<lambda>n. migration_due n v) [v .. 13] = [v .. 13]"
    using assms(2) by (auto simp: filter_empty_conv filter_id_conv migration_due_def)
  with run_migrations_statements [OF assms(1)] have "fold_res (execute read) (concat (map migration [v .. 13])) l = Inr m" by (simp add: split)
  then show thesis using that by (auto simp: split' fold_res_append bind_res_eq_Inr)
qed

section \<open>Columns\<close>

definition column_of :: "layout \<Rightarrow> string \<Rightarrow> string \<Rightarrow> (string \<times> bool) option" where
  "column_of l table col = Option.bind (hm_get (ly_tables l) table) (\<lambda>t. hm_get (tb_columns t) col)"

lemma column_of_table: "column_of l table col \<noteq> None \<Longrightarrow> \<exists>t. hm_get (ly_tables l) table = Some t"
  by (auto simp: column_of_def bind_eq_Some_conv)

text \<open>The declaration of a column after a statement; none if the statement would fail.\<close>

fun column_after :: "string \<Rightarrow> string \<Rightarrow> statement \<Rightarrow> (string \<times> bool) option \<Rightarrow> (string \<times> bool) option option" where
  "column_after table col (Drop_Column tb c) x = (if tb = table \<and> c = col then map_option (\<lambda>_. None) x else Some x)"
| "column_after table col (Add_Column tb c type) x =
     (if tb = table \<and> c = col then (if x = None then Some (Some (type, False)) else None) else Some x)"
| "column_after table col (Set_Not_Null tb c) x =
     (if tb = table \<and> c = col then map_option (\<lambda>(type, _). Some (type, True)) x else Some x)"
| "column_after table col (Set_Data_Type tb c type) x =
     (if tb = table \<and> c = col then map_option (\<lambda>(_, not_null). Some (type, not_null)) x else Some x)"
| "column_after table col _ x = Some x"

definition columns_after :: "string \<Rightarrow> string \<Rightarrow> statement list \<Rightarrow> (string \<times> bool) option \<Rightarrow> (string \<times> bool) option option" where
  "columns_after table col ss x = fold (\<lambda>s y. Option.bind y (column_after table col s)) ss (Some x)"

text \<open>The names of the columns of a table are distinct.\<close>

definition columns_distinct :: "layout \<Rightarrow> bool" where
  "columns_distinct l \<longleftrightarrow> (\<forall>table t. hm_get (ly_tables l) table = Some t \<longrightarrow> hm_inv (tb_columns t))"

lemma well_typed_distinct: "well_typed l \<Longrightarrow> columns_distinct l"
  by (auto simp: well_typed_def well_typed_table_def columns_distinct_def)

lemma execute_column:
  assumes "execute read s l = Inr l'" and "columns_distinct l"
  shows "column_after table col s (column_of l table col) = Some (column_of l' table col)"
  using assms
  by (cases s) (auto simp: column_of_def alter_column_def bind_res_eq_Inr hm_get_insert hm_get_remove columns_distinct_def set_column_def
      fill_table_def split: option.splits if_splits prod.splits)

lemma columns_after_Cons: "columns_after table col (s # ss) x = Option.bind (column_after table col s x) (columns_after table col ss)"
proof -
  have none: "fold (\<lambda>s y. Option.bind y (column_after table col s)) ss None = None" for ss by (induction ss) auto
  show ?thesis by (cases "column_after table col s x") (simp_all add: columns_after_def none)
qed

lemma statements_column:
  assumes "fold_res (execute read) ss l = Inr m" and "well_typed l"
  shows "columns_after table col ss (column_of l table col) = Some (column_of m table col) \<and> well_typed m"
  using assms
proof (induction ss arbitrary: l)
  case (Cons s ss)
  then obtain l1 where l1: "execute read s l = Inr l1" "fold_res (execute read) ss l1 = Inr m" by (auto simp: bind_res_eq_Inr)
  from execute_column [OF l1(1) well_typed_distinct [OF Cons.prems(2)], of table col]
    Cons.IH [OF l1(2) execute_well_typed [OF l1(1) Cons.prems(2)]]
  show ?case by (simp add: columns_after_Cons)
qed (simp add: columns_after_def)

section \<open>Rows\<close>

text \<open>The columns of a table whose cells a statement writes. The change to a smallint keeps the value.\<close>

fun written_columns :: "statement \<Rightarrow> string \<Rightarrow> string set" where
  "written_columns (Add_Column tb c type) table = (if tb = table then {c} else {})"
| "written_columns (Set_Data_Type tb c type) table = (if tb = table \<and> type \<noteq> ''smallint'' then {c} else {})"
| "written_columns (Fill_Updates limit) table = (if table = channel_updates then {''short_channel_id'', ''direction''} else {})"
| "written_columns (Fill_Announcements limit) table = (if table = channel_announcements then {''short_channel_id''} else {})"
| "written_columns _ table = {}"

definition agree_except :: "string set \<Rightarrow> db_row \<Rightarrow> db_row \<Rightarrow> bool" where
  "agree_except S r r' \<longleftrightarrow> (\<forall>c. c \<notin> S \<longrightarrow> r' c = r c)"

definition rows_kept :: "string set \<Rightarrow> string \<Rightarrow> layout \<Rightarrow> layout \<Rightarrow> bool" where
  "rows_kept S table l l' \<longleftrightarrow> (\<forall>t. hm_get (ly_tables l) table = Some t \<longrightarrow>
     (\<exists>t'. hm_get (ly_tables l') table = Some t' \<and> list_all2 (agree_except S) (tb_rows t) (tb_rows t')))"

lemma agree_except_refl [simp]: "agree_except S r r"
  by (simp add: agree_except_def)

lemma agree_rows_refl [simp]: "list_all2 (agree_except S) rows rows"
  by (simp add: list.rel_refl)

lemma agree_rows_trans: "list_all2 (agree_except S) rs rs' \<Longrightarrow> list_all2 (agree_except S) rs' rs'' \<Longrightarrow> list_all2 (agree_except S) rs rs''"
  by (rule list_all2_trans) (auto simp: agree_except_def)

lemma rows_kept_refl [simp]: "rows_kept S table l l"
  by (auto simp: rows_kept_def)

lemma rows_kept_trans: "rows_kept S table l l' \<Longrightarrow> rows_kept S table l' l'' \<Longrightarrow> rows_kept S table l l''"
  unfolding rows_kept_def using agree_rows_trans by blast

lemma agree_set_cells: "fst ` set vs \<subseteq> S \<Longrightarrow> agree_except S r (set_cells vs r)"
proof (induction vs arbitrary: r)
  case (Cons cv vs)
  then have "agree_except S (r(fst cv := snd cv)) (set_cells vs (r(fst cv := snd cv)))" "fst cv \<in> S" by simp_all
  then show ?case by (auto simp: agree_except_def set_cells_def split_beta)
qed (simp add: set_cells_def)

lemma fill_loop_agrees:
  assumes "\<And>r vs. cells r = Inr vs \<Longrightarrow> fst ` set vs \<subseteq> S"
  shows "fill_loop cells limit fuel rows = Inr rows' \<Longrightarrow> list_all2 (agree_except S) rows rows'"
proof (induction fuel arbitrary: rows)
  case (Suc fuel)
  have step: "list_all2 (agree_except S) rs rs'" if "fill_row cells b rs = Inr rs'" for b rs rs'
    using that assms agree_set_cells by (auto simp: fill_row_def bind_res_eq_Inr list.rel_map intro!: list.rel_refl_strong)
  show ?case
  proof (cases "take limit (filter unfilled rows) = []")
    case False
    with Suc obtain rs where rs: "fold_res (fill_row cells) (take limit (filter unfilled rows)) rows = Inr rs" "fill_loop cells limit fuel rs = Inr rows'"
      by (auto simp: Let_def bind_res_eq_Inr)
    from fold_res_invariant [OF rs(1), of "list_all2 (agree_except S) rows"] step agree_rows_trans
    have "list_all2 (agree_except S) rows rs" by (metis agree_rows_refl)
    with Suc.IH rs(2) agree_rows_trans show ?thesis by blast
  qed (use Suc in \<open>auto simp: Let_def\<close>)
qed (auto split: if_splits)

lemma convert_rows_agrees:
  "convert_rows col type rows = Inr rows' \<Longrightarrow> list_all2 (agree_except (if type = ''smallint'' then {} else {col})) rows rows'"
proof (induction rows arbitrary: rows')
  case (Cons r rs)
  then obtain v rs' where v: "convert_cell type (r col) = Inr v" "convert_rows col type rs = Inr rs'" "rows' = r(col := v) # rs'"
    by (auto simp: bind_res_eq_Inr)
  from v(1) have "type = ''smallint'' \<Longrightarrow> v = r col" by (auto simp: convert_cell_def split: cell.splits if_splits)
  with Cons.IH [OF v(2)] v(3) show ?case by (auto simp: agree_except_def)
qed simp

lemma alter_column_rows:
  assumes "alter_column tb col f l = Inr l'"
    and "\<And>c t t'. f c t = Inr t' \<Longrightarrow> list_all2 (agree_except S) (tb_rows t) (tb_rows t')"
  shows "rows_kept (if tb = table then S else {}) table l l'"
proof -
  from assms(1) obtain t c t' where t: "hm_get (ly_tables l) tb = Some t" "f c t = Inr t'"
    and l': "l' = l\<lparr>ly_tables := hm_insert tb t' (ly_tables l)\<rparr>"
    by (auto simp: alter_column_def bind_res_eq_Inr split: option.splits)
  from assms(2) [OF t(2)] t(1) show ?thesis by (auto simp: rows_kept_def l' hm_get_insert)
qed

lemma update_cells_columns: "update_cells r = Inr vs \<Longrightarrow> fst ` set vs \<subseteq> {''short_channel_id'', ''direction''}"
  by (auto simp: update_cells_def bind_res_eq_Inr split: cell.splits prod.splits)

lemma announcement_cells_columns: "announcement_cells read r = Inr vs \<Longrightarrow> fst ` set vs \<subseteq> {''short_channel_id''}"
  by (auto simp: announcement_cells_def bind_res_eq_Inr Let_def split: cell.splits if_splits)

lemma fill_table_rows:
  assumes "fill_table tb source types cells limit l = Inr l'" and "\<And>r vs. cells r = Inr vs \<Longrightarrow> fst ` set vs \<subseteq> S"
  shows "rows_kept (if tb = table then S else {}) table l l'"
proof (rule alter_column_rows [OF assms(1) [unfolded fill_table_def]])
  fix c t t'
  assume "(if hm_get (tb_columns t) source = None \<or>
        has_null ''short_channel_id'' t \<and> \<not> list_all (\<lambda>(c, ty). map_option fst (hm_get (tb_columns t) c) = Some ty) types
     then Inl Io_Error
     else bind_res (fill_loop cells limit (length (tb_rows t)) (tb_rows t)) (\<lambda>rows. Inr (t\<lparr>tb_rows := rows\<rparr>))) = Inr t'"
  then have "fill_loop cells limit (length (tb_rows t)) (tb_rows t) = Inr (tb_rows t')"
    by (auto simp: bind_res_eq_Inr split: if_splits)
  from fill_loop_agrees [OF _ this] assms(2) show "list_all2 (agree_except S) (tb_rows t) (tb_rows t')" by blast
qed

lemma execute_rows:
  assumes "execute read s l = Inr l'"
  shows "rows_kept (written_columns s table) table l l'"
proof (cases s)
  case (Drop_Column tb col)
  with assms obtain l1 where l1: "alter_column tb col (\<lambda>_ t. Inr (t\<lparr>tb_columns := hm_remove col (tb_columns t)\<rparr>)) l = Inr l1"
    and l': "ly_tables l' = ly_tables l1" by (auto simp: bind_res_eq_Inr)
  have "rows_kept (if tb = table then {} else {}) table l l1" by (rule alter_column_rows [OF l1]) auto
  with l' show ?thesis by (simp add: rows_kept_def Drop_Column)
next
  case (Add_Column tb col type)
  with assms show ?thesis
    by (auto simp: rows_kept_def hm_get_insert list.rel_map agree_except_def intro!: list.rel_refl_strong split: option.splits if_splits)
next
  case (Set_Not_Null tb col)
  with assms have "alter_column tb col (\<lambda>(type, _) t.
     if has_null col t then Inl Io_Error else Inr (set_column col (type, True) t)) l = Inr l'" by simp
  then have "rows_kept (if tb = table then {} else {}) table l l'"
    by (rule alter_column_rows) (auto simp: set_column_def split: if_splits)
  then show ?thesis by (simp add: Set_Not_Null)
next
  case (Drop_Default tb col)
  with assms have "alter_column tb col (\<lambda>_ t. Inr t) l = Inr l'" by simp
  then have "rows_kept (if tb = table then {} else {}) table l l'" by (rule alter_column_rows) auto
  then show ?thesis by (simp add: Drop_Default)
next
  case (Set_Data_Type tb col type)
  with assms have "alter_column tb col (\<lambda>(_, not_null) t. bind_res (convert_rows col type (tb_rows t)) (\<lambda>rows.
       Inr (set_column col (type, not_null) (t\<lparr>tb_rows := rows\<rparr>)))) l = Inr l'" by simp
  then have "rows_kept (if tb = table then if type = ''smallint'' then {} else {col} else {}) table l l'"
    by (rule alter_column_rows) (use convert_rows_agrees [of col type] in \<open>auto simp: set_column_def bind_res_eq_Inr\<close>)
  then show ?thesis by (simp add: Set_Data_Type split: if_splits)
next
  case (Fill_Updates limit)
  with assms have "fill_table channel_updates ''composite_index'' [(''short_channel_id'', ''bigint''), (''direction'', ''boolean'')]
    update_cells limit l = Inr l'" by simp
  then have "rows_kept (if channel_updates = table then {''short_channel_id'', ''direction''} else {}) table l l'"
    by (rule fill_table_rows) (rule update_cells_columns)
  then show ?thesis by (simp add: Fill_Updates eq_commute split: if_splits)
next
  case (Fill_Announcements limit)
  with assms have "fill_table channel_announcements ''announcement_signed'' [(''short_channel_id'', ''bigint'')]
    (announcement_cells read) limit l = Inr l'" by simp
  then have "rows_kept (if channel_announcements = table then {''short_channel_id''} else {}) table l l'"
    by (rule fill_table_rows) (rule announcement_cells_columns)
  then show ?thesis by (simp add: Fill_Announcements eq_commute split: if_splits)
qed (use assms in \<open>auto simp: rows_kept_def split: option.splits if_splits\<close>)

lemma statements_rows:
  assumes "fold_res (execute read) ss l = Inr m" and "\<forall>s \<in> set ss. written_columns s table \<subseteq> S"
  shows "rows_kept S table l m"
  using assms
proof (induction ss arbitrary: l)
  case (Cons s ss)
  then obtain l1 where l1: "execute read s l = Inr l1" "fold_res (execute read) ss l1 = Inr m" by (auto simp: bind_res_eq_Inr)
  have "rows_kept S table l l1"
    using execute_rows [OF l1(1), of table] Cons.prems(2) unfolding rows_kept_def by (fastforce simp: agree_except_def intro: list_all2_mono)
  with Cons l1(2) rows_kept_trans show ?case by auto
qed simp

section \<open>Unique indexes\<close>

text \<open>A unique index that exists, and in whose columns no two rows of the table collide.\<close>

definition keyed :: "string \<Rightarrow> string \<Rightarrow> string list \<Rightarrow> layout \<Rightarrow> bool" where
  "keyed idx table cols l \<longleftrightarrow> hm_get (ly_indexes l) idx = Some (True, table, cols) \<and>
     (\<exists>t. hm_get (ly_tables l) table = Some t \<and> \<not> has_duplicates cols t)"

definition harmless :: "string \<Rightarrow> string \<Rightarrow> string list \<Rightarrow> statement \<Rightarrow> bool" where
  "harmless idx table cols s \<longleftrightarrow> s \<noteq> Drop_Index idx \<and> (\<forall>c \<in> set cols. s \<noteq> Drop_Column table c) \<and> written_columns s table \<inter> set cols = {}"

lemma has_duplicates_agree:
  assumes "list_all2 (agree_except S) (tb_rows t) (tb_rows t')" and "S \<inter> set cols = {}"
  shows "has_duplicates cols t' = has_duplicates cols t"
proof -
  have "map (\<lambda>r. map r cols) (tb_rows t') = map (\<lambda>r. map r cols) (tb_rows t)"
    using assms(1)
  proof (induction rule: list_all2_induct)
    case (Cons r rs r' rs')
    then have "map r' cols = map r cols" using assms(2) by (auto simp: agree_except_def)
    with Cons show ?case by simp
  qed simp
  then show ?thesis by (simp add: has_duplicates_def)
qed

lemma rows_kept_keyed:
  assumes "rows_kept S table l l'" and "S \<inter> set cols = {}" and "keyed idx table cols l" and "hm_get (ly_indexes l') idx = hm_get (ly_indexes l) idx"
  shows "keyed idx table cols l'"
  using assms has_duplicates_agree unfolding keyed_def rows_kept_def by metis

lemma hm_get_remove_other: "k' \<noteq> k \<Longrightarrow> hm_get (hm_remove k m) k' = hm_get m k'"
  by (induction k m rule: hm_remove.induct) auto

lemma hm_get_filter_kept: "hm_get m k = Some v \<Longrightarrow> P (k, v) \<Longrightarrow> hm_get (filter P m) k = Some v"
  by (induction m k rule: hm_get.induct) (auto split: if_splits)

lemma hm_get_append: "hm_get (m @ n) k = (case hm_get m k of Some v \<Rightarrow> Some v | None \<Rightarrow> hm_get n k)"
  by (induction m k rule: hm_get.induct) auto

lemma alter_column_indexes: "alter_column table col f l = Inr l' \<Longrightarrow> ly_indexes l' = ly_indexes l"
  by (auto simp: alter_column_def bind_res_eq_Inr split: option.splits)

lemma harmless_index:
  assumes "execute read s l = Inr l'" and "harmless idx table cols s" and "hm_get (ly_indexes l) idx = Some (True, table, cols)"
  shows "hm_get (ly_indexes l') idx = Some (True, table, cols)"
  using assms
  by (cases s) (auto simp: harmless_def bind_res_eq_Inr fill_table_def hm_get_remove_other hm_get_append dest!: alter_column_indexes
      intro!: hm_get_filter_kept split: option.splits if_splits)

lemma execute_keyed:
  assumes "execute read s l = Inr l'" and "harmless idx table cols s" and "keyed idx table cols l"
  shows "keyed idx table cols l'"
proof (rule rows_kept_keyed [OF execute_rows [OF assms(1)] _ assms(3)])
  show "written_columns s table \<inter> set cols = {}" using assms(2) by (simp add: harmless_def)
  show "hm_get (ly_indexes l') idx = hm_get (ly_indexes l) idx"
    using harmless_index [OF assms(1,2)] assms(3) by (simp add: keyed_def)
qed

lemma create_keyed: "execute read (Create_Unique_Index idx table cols) l = Inr l' \<Longrightarrow> keyed idx table cols l'"
  by (auto simp: keyed_def hm_get_append split: option.splits if_splits)

lemma statements_keyed:
  assumes "fold_res (execute read) (ss @ Create_Unique_Index idx table cols # ss') l = Inr m" and "\<forall>s \<in> set ss'. harmless idx table cols s"
  shows "keyed idx table cols m"
proof -
  from assms(1) obtain l1 l2 where l: "execute read (Create_Unique_Index idx table cols) l1 = Inr l2" "fold_res (execute read) ss' l2 = Inr m"
    by (auto simp: fold_res_append bind_res_eq_Inr simp del: execute.simps)
  from create_keyed [OF l(1)] l(2) assms(2) show ?thesis
  proof (induction ss' arbitrary: l2)
    case (Cons s ss')
    then obtain l3 where l3: "execute read s l2 = Inr l3" "fold_res (execute read) ss' l3 = Inr m" by (auto simp: bind_res_eq_Inr)
    have "keyed idx table cols l3" using execute_keyed [OF l3(1)] Cons.prems by simp
    with Cons.IH Cons.prems l3(2) show ?case by simp
  qed simp
qed

section \<open>The upgraded database\<close>

lemma later_versions:
  "[2 .. 13 :: int] = [2, 3, 4, 5, 6, 7, 8, 9, 10, 11, 12, 13]" "[3 .. 13 :: int] = [3, 4, 5, 6, 7, 8, 9, 10, 11, 12, 13]"
  "[5 .. 13 :: int] = [5, 6, 7, 8, 9, 10, 11, 12, 13]" "[6 .. 13 :: int] = [6, 7, 8, 9, 10, 11, 12, 13]"
  by code_simp+

lemma upgrade_column:
  assumes "run_migrations read v [1 .. 13] l = (m, None)" and "well_typed l" and "1 \<le> v" and "v \<le> n" and "n \<le> 14"
  shows "\<exists>x. columns_after table col (concat (map migration [n .. 13])) x = Some (column_of m table col)"
proof -
  obtain k where k: "fold_res (execute read) (concat (map migration [v .. n - 1])) l = Inr k"
    "fold_res (execute read) (concat (map migration [n .. 13])) k = Inr m"
    using upgrade_statements [OF assms(1,3,4,5)] by blast
  have "well_typed k" using statements_column [OF k(1) assms(2)] by simp
  from statements_column [OF k(2) this, of table col] show ?thesis by blast
qed

lemmas columns_after_simps = columns_after_Cons columns_after_def [of _ _ "[]"] migration_def later_versions bind_eq_Some_conv

lemma upgraded_ids:
  assumes "run_migrations read v [1 .. 13] l = (m, None)" and "well_typed l" and "1 \<le> v"
  shows "v \<le> 2 \<Longrightarrow> column_of m channel_updates ''short_channel_id'' = Some (''bigint'', True)"
    and "v \<le> 2 \<Longrightarrow> column_of m channel_updates ''direction'' = Some (''boolean'', True)"
    and "v \<le> 3 \<Longrightarrow> column_of m channel_announcements ''short_channel_id'' = Some (''bigint'', True)"
    and "v \<le> 6 \<Longrightarrow> column_of m channel_updates ''composite_index'' = None"
  using upgrade_column [OF assms, of 2 channel_updates "''short_channel_id''"] upgrade_column [OF assms, of 2 channel_updates "''direction''"]
    upgrade_column [OF assms, of 3 channel_announcements "''short_channel_id''"]
    upgrade_column [OF assms, of 6 channel_updates "''composite_index''"]
  by (auto simp: columns_after_simps)

lemma upgraded_flags:
  assumes "run_migrations read v [1 .. 13] l = (m, None)" and "well_typed l" and "1 \<le> v" and "v \<le> 5"
  shows "column_of m channel_updates ''channel_flags'' = Some (''smallint'', True)"
  using upgrade_column [OF assms, of channel_updates "''channel_flags''"] by (auto simp: columns_after_simps)

lemma upgraded_not_null:
  assumes "run_migrations read v [1 .. 13] l = (m, None)" and "well_typed l" and "1 \<le> v" and "v \<le> 6"
    and "c \<in> {''timestamp'', ''channel_flags'', ''disable'', ''cltv_expiry_delta'', ''htlc_minimum_msat'', ''fee_base_msat'',
      ''fee_proportional_millionths'', ''htlc_maximum_msat'', ''blob_signed''}"
  shows "\<exists>ty. column_of m channel_updates c = Some (ty, True)"
  using upgrade_column [OF assms(1-4), of channel_updates c] assms(5) by (auto simp: columns_after_simps) metis+

lemma upgraded_keys:
  assumes "run_migrations read v [1 .. 13] l = (m, None)" and "1 \<le> v"
  shows "v \<le> 3 \<Longrightarrow> keyed ''channel_announcements_short_channel_id_key'' channel_announcements [''short_channel_id''] m"
    and "v \<le> 6 \<Longrightarrow> keyed ''channel_updates_key'' channel_updates [''short_channel_id'', ''direction'', ''timestamp''] m"
proof -
  have cut: "concat (map migration [6 .. 13]) = take 10 (migration 6) @
      Create_Unique_Index ''channel_updates_key'' channel_updates [''short_channel_id'', ''direction'', ''timestamp''] #
      Set_Schema 7 # concat (map migration [7 .. 13])"
    "concat (map migration [3 .. 13]) = take 3 (migration 3) @
      Create_Unique_Index ''channel_announcements_short_channel_id_key'' channel_announcements [''short_channel_id''] #
      drop 4 (migration 3) @ concat (map migration [4 .. 13])"
    by (simp_all add: migration_def upto_rec1)
  show "keyed ''channel_updates_key'' channel_updates [''short_channel_id'', ''direction'', ''timestamp''] m" if v: "v \<le> 6"
  proof -
    obtain k where "fold_res (execute read) (concat (map migration [6 .. 13])) k = Inr m" using upgrade_statements [OF assms v] by auto
    from statements_keyed [OF this [unfolded cut(1)]] show ?thesis
      by (simp add: harmless_def migration_def upto_rec1)
  qed
  show "keyed ''channel_announcements_short_channel_id_key'' channel_announcements [''short_channel_id''] m" if v: "v \<le> 3"
  proof -
    obtain k where "fold_res (execute read) (concat (map migration [3 .. 13])) k = Inr m" using upgrade_statements [OF assms v] by auto
    from statements_keyed [OF this [unfolded cut(2)]] show ?thesis
      by (simp add: harmless_def migration_def upto_rec1)
  qed
qed

lemma upgraded_rows:
  assumes "run_migrations read v [1 .. 13] l = (m, None)" and "1 \<le> v" and "v \<le> 14"
  shows "rows_kept {''short_channel_id'', ''direction'', ''composite_index''} channel_updates l m"
    and "rows_kept {''short_channel_id''} channel_announcements l m"
proof -
  have written: "\<forall>s \<in> set (migration n). written_columns s channel_updates \<subseteq> {''short_channel_id'', ''direction'', ''composite_index''} \<and>
      written_columns s channel_announcements \<subseteq> {''short_channel_id''}" for n
    by (simp add: migration_def)
  obtain k where "fold_res (execute read) (concat (map migration [v .. 14 - 1])) l = Inr k"
      "fold_res (execute read) (concat (map migration [14 .. 13])) k = Inr m"
    using upgrade_statements [OF assms(1,2,3)] by auto
  then have run: "fold_res (execute read) (concat (map migration [v .. 13])) l = Inr m" by simp
  show "rows_kept {''short_channel_id'', ''direction'', ''composite_index''} channel_updates l m"
    by (rule statements_rows [OF run]) (use written in \<open>simp only: set_concat set_map, blast\<close>)
  show "rows_kept {''short_channel_id''} channel_announcements l m"
    by (rule statements_rows [OF run]) (use written in \<open>simp only: set_concat set_map, blast\<close>)
qed

text \<open>The initialization adds the funding column, and creates tables and indexes only where there are none.\<close>

lemma add_funding_column_cases:
  obtains "add_funding_column m = m" and "column_of m channel_announcements ''funding_amount_sats'' \<noteq> None \<or> hm_get (ly_tables m) channel_announcements = None"
  | "execute (\<lambda>_. None) (Add_Column channel_announcements ''funding_amount_sats'' ''bigint'') m = Inr (add_funding_column m)"
proof (cases "execute (\<lambda>_. None) (Add_Column channel_announcements ''funding_amount_sats'' ''bigint'') m")
  case (Inl e)
  then have "column_of m channel_announcements ''funding_amount_sats'' \<noteq> None \<or> hm_get (ly_tables m) channel_announcements = None"
    by (auto simp: column_of_def split: option.splits if_splits)
  with that(1) Inl show thesis by (simp add: add_funding_column_def)
next
  case (Inr l')
  with that(2) show thesis by (simp add: add_funding_column_def)
qed

lemma add_funding_column_keeps:
  assumes "well_typed m"
  shows "well_typed (add_funding_column m)"
    and "(table, col) \<noteq> (channel_announcements, ''funding_amount_sats'') \<Longrightarrow> column_of (add_funding_column m) table col = column_of m table col"
    and "rows_kept {''funding_amount_sats''} channel_announcements m (add_funding_column m)"
    and "rows_kept {} channel_updates m (add_funding_column m)"
    and "keyed idx table cols m \<Longrightarrow> ''funding_amount_sats'' \<notin> set cols \<Longrightarrow> keyed idx table cols (add_funding_column m)"
    and "hm_get (ly_tables (add_funding_column m)) channel_announcements \<noteq> None \<Longrightarrow> column_of (add_funding_column m) channel_announcements ''funding_amount_sats'' \<noteq> None"
proof -
  let ?s = "Add_Column channel_announcements ''funding_amount_sats'' ''bigint''" and ?m = "add_funding_column m"
  have "well_typed ?m \<and> ((table, col) \<noteq> (channel_announcements, ''funding_amount_sats'') \<longrightarrow> column_of ?m table col = column_of m table col) \<and>
    rows_kept {''funding_amount_sats''} channel_announcements m ?m \<and> rows_kept {} channel_updates m ?m \<and>
    (keyed idx table cols m \<and> ''funding_amount_sats'' \<notin> set cols \<longrightarrow> keyed idx table cols ?m) \<and>
    (hm_get (ly_tables ?m) channel_announcements \<noteq> None \<longrightarrow> column_of ?m channel_announcements ''funding_amount_sats'' \<noteq> None)"
  proof (cases m rule: add_funding_column_cases)
    case 1
    then show ?thesis using assms by auto
  next
    case 2
    have "keyed idx table cols ?m" if "keyed idx table cols m" "''funding_amount_sats'' \<notin> set cols"
      using execute_keyed [OF 2 _ that(1)] that(2) by (simp add: harmless_def)
    moreover have "Some (Some (''bigint'', False)) = Some (column_of ?m channel_announcements ''funding_amount_sats'')"
      using execute_column [OF 2 well_typed_distinct [OF assms], of channel_announcements "''funding_amount_sats''"] by (simp split: if_splits)
    then have "column_of ?m channel_announcements ''funding_amount_sats'' \<noteq> None" by (metis option.discI option.inject)
    ultimately show ?thesis
      using execute_well_typed [OF 2 assms] execute_column [OF 2 well_typed_distinct [OF assms], of table col]
      execute_rows [OF 2, of channel_announcements] execute_rows [OF 2, of channel_updates] by (auto split: if_splits)
  qed
  then show "well_typed ?m" "rows_kept {''funding_amount_sats''} channel_announcements m ?m" "rows_kept {} channel_updates m ?m"
    "(table, col) \<noteq> (channel_announcements, ''funding_amount_sats'') \<Longrightarrow> column_of ?m table col = column_of m table col"
    "keyed idx table cols m \<Longrightarrow> ''funding_amount_sats'' \<notin> set cols \<Longrightarrow> keyed idx table cols ?m"
    "hm_get (ly_tables ?m) channel_announcements \<noteq> None \<Longrightarrow> column_of ?m channel_announcements ''funding_amount_sats'' \<noteq> None"
    by blast+
qed

text \<open>Every table and every index of the one database is in the other.\<close>

definition contained :: "layout \<Rightarrow> layout \<Rightarrow> bool" where
  "contained l l' \<longleftrightarrow> (\<forall>table t. hm_get (ly_tables l) table = Some t \<longrightarrow> hm_get (ly_tables l') table = Some t) \<and>
     (\<forall>idx i. hm_get (ly_indexes l) idx = Some i \<longrightarrow> hm_get (ly_indexes l') idx = Some i)"

lemma contained_trans: "contained l l' \<Longrightarrow> contained l' l'' \<Longrightarrow> contained l l''"
  by (simp add: contained_def)

lemma create_tables_contained: "contained l (fold create_table ts l)"
proof (induction ts arbitrary: l)
  case (Cons t ts)
  have "contained l (create_table t l)" by (auto simp: create_table_def contained_def hm_get_append split: prod.split option.splits)
  with Cons contained_trans show ?case by auto
qed (simp add: contained_def)

lemma create_indexes_contained:
  assumes "fold_res create_index is l = Inr l'"
  shows "contained l l'"
proof -
  have "contained l (l2 :: layout)" if "create_index i l1 = Inr l2" "contained l l1" for i l1 l2
    using that by (auto simp: create_index_def contained_def hm_get_append split: prod.splits option.splits if_splits)
  with fold_res_invariant [OF assms, of "contained l"] show ?thesis by (simp add: contained_def)
qed

lemma initialize_upgraded:
  assumes "initialize_db read l = (l', None)" and "ly_schema l = Some v" and "2 \<le> v" and "v \<le> 14"
  obtains m where "run_migrations read v [1 .. 13] l = (m, None)" and "contained (add_funding_column m) l'"
    and "hm_get (ly_tables (add_funding_column m)) channel_announcements = None \<Longrightarrow> column_of l' channel_announcements ''funding_amount_sats'' \<noteq> None"
proof -
  from assms obtain m where m: "run_migrations read v [1 .. 13] l = (m, None)" "upgrade_db read v l = (add_funding_column m, None)"
    by (auto simp: initialize_db_def upgrade_db_outcome split: prod.splits option.splits)
  have "ly_schema (add_funding_column m) = Some 14"
    using committed_version [OF _ _ _ assms(2) m(1)] assms(3,4) by (simp add: add_funding_column_schema)
  with assms m have l': "fold_res create_index db_indexes (fold create_table db_tables (add_funding_column m)) = Inr l'"
    by (auto simp: initialize_db_def Let_def split: sum.splits)
  have "column_of l' channel_announcements ''funding_amount_sats'' \<noteq> None" if "hm_get (ly_tables (add_funding_column m)) channel_announcements = None"
  proof -
    let ?ts = "[(channel_announcements, announcement_columns,
        [(''channel_announcements_pkey'', True, channel_announcements, [''id'']),
         (''channel_announcements_short_channel_id_key'', True, channel_announcements, [''short_channel_id''])])]"
    have "hm_get (ly_tables (fold create_table ?ts (add_funding_column m))) channel_announcements =
        Some \<lparr>tb_columns = announcement_columns, tb_rows = []\<rparr>" using that by (simp add: create_table_def hm_get_append)
    moreover have "contained (fold create_table ?ts (add_funding_column m)) (fold create_table db_tables (add_funding_column m))"
      using create_tables_contained [of "fold create_table ?ts (add_funding_column m)" "tl db_tables"] by (simp add: db_tables_def)
    ultimately have "hm_get (ly_tables l') channel_announcements = Some \<lparr>tb_columns = announcement_columns, tb_rows = []\<rparr>"
      using create_indexes_contained [OF l'] by (simp add: contained_def)
    then show ?thesis by (simp add: column_of_def announcement_columns_def)
  qed
  with that [OF m(1)] contained_trans [OF create_tables_contained create_indexes_contained [OF l']] show thesis by blast
qed

lemma contained_column: "contained l l' \<Longrightarrow> hm_get (ly_tables l) table \<noteq> None \<Longrightarrow> column_of l' table col = column_of l table col"
  by (auto simp: contained_def column_of_def)

lemma contained_rows: "contained l l' \<Longrightarrow> rows_kept S table l0 l \<Longrightarrow> rows_kept S table l0 l'"
  unfolding contained_def rows_kept_def by blast

lemma contained_keyed: "contained l l' \<Longrightarrow> keyed idx table cols l \<Longrightarrow> keyed idx table cols l'"
  by (auto simp: contained_def keyed_def)

lemma rows_kept_mono: "rows_kept S table l l' \<Longrightarrow> S \<subseteq> T \<Longrightarrow> rows_kept T table l l'"
  unfolding rows_kept_def by (fastforce simp: agree_except_def intro: list_all2_mono)

lemma initialized_database:
  assumes "initialize_db read l = (l', None)" and "ly_schema l = Some v" and "2 \<le> v" and "v \<le> 14" and "well_typed l"
  obtains m where "run_migrations read v [1 .. 13] l = (m, None)"
    and "\<And>table c c'. column_of m table c' \<noteq> None \<Longrightarrow> ''funding_amount_sats'' \<notin> {c, c'} \<Longrightarrow> column_of l' table c = column_of m table c"
    and "\<And>idx table cols. keyed idx table cols m \<Longrightarrow> ''funding_amount_sats'' \<notin> set cols \<Longrightarrow> keyed idx table cols l'"
    and "rows_kept {''short_channel_id'', ''direction'', ''composite_index''} channel_updates l l'"
    and "rows_kept {''short_channel_id'', ''funding_amount_sats''} channel_announcements l l'"
    and "column_of l' channel_announcements ''funding_amount_sats'' \<noteq> None" and "well_typed l'"
proof -
  obtain m where m: "run_migrations read v [1 .. 13] l = (m, None)" and sub: "contained (add_funding_column m) l'"
    and fresh: "hm_get (ly_tables (add_funding_column m)) channel_announcements = None \<Longrightarrow> column_of l' channel_announcements ''funding_amount_sats'' \<noteq> None"
    using initialize_upgraded [OF assms(1-4)] by blast
  have v1: "1 \<le> v" using assms(3) by simp
  note keeps = add_funding_column_keeps [OF run_migrations_well_typed [OF assms(5) m]]
  have col: "column_of l' table c = column_of m table c" if "column_of m table c' \<noteq> None" "''funding_amount_sats'' \<notin> {c, c'}" for table c c'
  proof -
    from keeps(2) [of table c'] column_of_table [of "add_funding_column m" table c'] that
    have "hm_get (ly_tables (add_funding_column m)) table \<noteq> None" by auto
    with contained_column [OF sub] keeps(2) [of table c] that(2) show ?thesis by auto
  qed
  have updates: "rows_kept {''short_channel_id'', ''direction'', ''composite_index''} channel_updates l l'"
    by (rule contained_rows [OF sub rows_kept_trans [OF upgraded_rows(1) [OF m v1 assms(4)] rows_kept_mono [OF keeps(4)]]]) simp
  have announcements: "rows_kept {''short_channel_id'', ''funding_amount_sats''} channel_announcements l l'"
    by (rule contained_rows [OF sub rows_kept_trans [OF rows_kept_mono [OF upgraded_rows(2) [OF m v1 assms(4)]] rows_kept_mono [OF keeps(3)]]]) simp_all
  have fund: "column_of l' channel_announcements ''funding_amount_sats'' \<noteq> None"
    using fresh keeps(6) contained_column [OF sub] by (cases "hm_get (ly_tables (add_funding_column m)) channel_announcements") auto
  have "well_typed l'" using initialize_db_well_typed [OF assms(5), of read] assms(1) by simp
  from that [OF m _ _ updates announcements fund this] col contained_keyed [OF sub] keeps(5) show thesis by blast
qed

text \<open>
  The initialization of an old database succeeds when the migrations do, the updates have an id and a
  time seen, and there is no table of nodes yet.
\<close>

lemma execute_absent: "execute read s l = Inr l' \<Longrightarrow> hm_get (ly_tables l) table = None \<Longrightarrow> hm_get (ly_tables l') table = None"
  by (cases s) (auto simp: alter_column_def bind_res_eq_Inr hm_get_insert fill_table_def split: option.splits if_splits)

definition index_possible :: "layout \<Rightarrow> bool \<times> string \<times> string \<times> string list \<Rightarrow> bool" where
  "index_possible l i \<longleftrightarrow> (case i of (is_unique, idx, table, cols) \<Rightarrow> hm_get (ly_indexes l) idx \<noteq> None \<or>
     \<not> is_unique \<and> (\<exists>t. hm_get (ly_tables l) table = Some t \<and> (\<forall>c \<in> set cols. hm_get (tb_columns t) c \<noteq> None)))"

lemma create_index_possible: "index_possible l i \<Longrightarrow> \<exists>l'. create_index i l = Inr l'"
  by (cases i) (auto simp: index_possible_def create_index_def list_all_iff)

lemma index_possible_contained: "contained l l' \<Longrightarrow> index_possible l i \<Longrightarrow> index_possible l' i"
  by (cases i) (fastforce simp: index_possible_def contained_def)

lemma create_indexes_succeed: "\<forall>i \<in> set is. index_possible l i \<Longrightarrow> \<exists>l'. fold_res create_index is l = Inr l'"
proof (induction "is" arbitrary: l)
  case (Cons i "is")
  from Cons.prems have "index_possible l i" by simp
  from create_index_possible [OF this] obtain l1 where l1: "create_index i l = Inr l1" by blast
  then have "contained l l1" using create_indexes_contained [of "[i]"] by simp
  with Cons index_possible_contained l1 show ?case by simp
qed simp

lemma initialize_succeeds:
  assumes "run_migrations read 2 [1 .. 13] l = (m, None)" and "ly_schema l = Some 2" and "well_typed l"
    and "column_of m channel_updates ''id'' \<noteq> None" and "column_of m channel_updates ''seen'' \<noteq> None"
    and "hm_get (ly_tables l) node_announcements = None"
  shows "\<exists>l'. initialize_db read l = (l', None)"
proof -
  let ?a = "add_funding_column m" and ?t = "fold create_table db_tables (add_funding_column m)"
  note wt = run_migrations_well_typed [OF assms(3,1)]
  have sub: "contained ?a ?t" by (rule create_tables_contained)
  have col: "column_of ?t channel_updates c \<noteq> None" if "column_of m channel_updates c \<noteq> None" for c
    using that add_funding_column_keeps(2) [OF wt, of channel_updates c] contained_column [OF sub, of channel_updates c]
      column_of_table [of ?a channel_updates c] by auto
  have ids: "column_of m channel_updates ''short_channel_id'' \<noteq> None" "column_of m channel_updates ''direction'' \<noteq> None"
      "column_of m channel_updates ''timestamp'' \<noteq> None"
    using upgraded_ids(1,2) [OF assms(1,3)] upgraded_not_null [OF assms(1,3), of "''timestamp''"] by auto
  have key: "hm_get (ly_indexes ?t) ''channel_updates_key'' \<noteq> None"
    using contained_keyed [OF sub add_funding_column_keeps(5) [OF wt upgraded_keys(2) [OF assms(1)]]] by (simp add: keyed_def)
  obtain k where "fold_res (execute read) (concat (map migration [2 .. 14 - 1])) l = Inr k"
      "fold_res (execute read) (concat (map migration [14 .. 13])) k = Inr m"
    using upgrade_statements [OF assms(1), of 14] by auto
  then have run: "fold_res (execute read) (concat (map migration [2 .. 13])) l = Inr m" by simp
  have "hm_get (ly_tables m) node_announcements = None"
    using fold_res_invariant [OF run, of "\<lambda>l. hm_get (ly_tables l) node_announcements = None"] execute_absent assms(6) by blast
  then have "hm_get (ly_tables ?a) node_announcements = None"
    by (cases m rule: add_funding_column_cases) (auto dest: execute_absent simp del: execute.simps)
  then have nodes: "hm_get (ly_tables ?t) node_announcements = Some \<lparr>tb_columns = node_columns, tb_rows = []\<rparr>"
    by (simp add: db_tables_def create_table_def hm_get_append split: option.split)
  obtain t where t: "hm_get (ly_tables ?t) channel_updates = Some t" using column_of_table [OF col [OF ids(1)]] by blast
  then have "\<forall>c \<in> {''id'', ''seen'', ''short_channel_id'', ''direction'', ''timestamp''}. hm_get (tb_columns t) c \<noteq> None"
    using col [OF ids(1)] col [OF ids(2)] col [OF ids(3)] col [OF assms(4)] col [OF assms(5)] by (simp add: column_of_def)
  with key nodes t have "\<forall>i \<in> set db_indexes. index_possible ?t i" by (simp add: db_indexes_def index_possible_def node_columns_def ex_bool_eq)
  from create_indexes_succeed [OF this] have "\<exists>l'. fold_res create_index db_indexes ?t = Inr l'" .
  moreover have "upgrade_db read 2 l = (?a, None)" using assms(1) by (simp add: upgrade_db_outcome)
  moreover have "ly_schema ?a = Some 14"
    using committed_version [OF _ _ _ assms(2,1)] by (simp add: add_funding_column_schema)
  ultimately show ?thesis using assms(2) by (auto simp: initialize_db_def Let_def)
qed

end
