(* ===== verification/Schema_Properties.thy ===== *)
theory Schema_Properties
  imports Schema_Columns Sample_Data Persistence_Properties
begin

text \<open>
  The properties of the upgrade, with a database of the first version
  as the example.
\<close>

section \<open>A database of the first version\<close>

definition first_layout :: layout where
  "first_layout = \<lparr>ly_schema = Some 1,
     ly_tables = [
       (channel_announcements, \<lparr>tb_columns = map (\<lambda>(c, d). (c, d, False)) [(''id'', ''SERIAL''), (''short_channel_id'', ''character varying''),
            (''block_height'', ''integer''), (''chain_hash'', ''character varying''), (''announcement_signed'', ''BYTEA''), (''seen'', ''timestamp'')],
          tb_rows = [(\<lambda>_. Null)(''id'' := Int_Cell 1, ''announcement_signed'' := Bytes_Cell [1, 2])]\<rparr>),
       (channel_updates, \<lparr>tb_columns = map (\<lambda>(c, d). (c, d, False)) [(''id'', ''SERIAL''), (''composite_index'', ''character varying''),
            (''chain_hash'', ''character varying''), (''short_channel_id'', ''character varying''), (''timestamp'', ''bigint''),
            (''channel_flags'', ''integer''), (''direction'', ''integer''), (''disable'', ''boolean''), (''cltv_expiry_delta'', ''integer''),
            (''htlc_minimum_msat'', ''bigint''), (''fee_base_msat'', ''integer''), (''fee_proportional_millionths'', ''integer''),
            (''htlc_maximum_msat'', ''bigint''), (''blob_signed'', ''BYTEA''), (''seen'', ''timestamp'')],
          tb_rows = map (\<lambda>(i, index). (\<lambda>_. Null)(''id'' := Int_Cell i, ''composite_index'' := Text_Cell index, ''timestamp'' := Int_Cell 1600000000,
            ''channel_flags'' := Int_Cell 0, ''disable'' := Bool_Cell False, ''cltv_expiry_delta'' := Int_Cell 40, ''htlc_minimum_msat'' := Int_Cell 1,
            ''fee_base_msat'' := Int_Cell 1000, ''fee_proportional_millionths'' := Int_Cell 5, ''htlc_maximum_msat'' := Int_Cell 9,
            ''blob_signed'' := Bytes_Cell [7])) [(1, ''0000010000020003:1600000000:1''), (2, ''0000010000020003:1600000000:0'')]\<rparr>)],
     ly_indexes = [(''channel_updates_seen'', False, channel_updates, [''seen''])]\<rparr>"

abbreviation sample_read :: "bytes \<Rightarrow> channel_announcement option" where
  "sample_read \<equiv> \<lambda>_. Some (Signed (sample_announcement 5) [])"

lemma sample_index_read:
  "read_composite_index ''0000010000020003:1600000000:1'' = Inr (1099511758851, True)"
  "read_composite_index ''0000010000020003:1600000000:0'' = Inr (1099511758851, False)"
  by (simp_all add: read_composite_index_def of_char_def to_vec_def hex_nibble_def Let_def be_read_def as_i64_def)

lemma versions: "[1 .. 13 :: int] = [1, 2, 3, 4, 5, 6, 7, 8, 9, 10, 11, 12, 13]"
  by code_simp

lemmas run_migration_simps = numeral_2_eq_2 first_layout_def migration_def migration_due_def transaction_def alter_column_def
  hm_insert_def set_column_def has_null_def has_duplicates_def fill_table_def fill_row_def set_cells_def update_cells_def
  sample_index_read announcement_cells_def sample_announcement_def as_i64_def convert_cell_def Let_def all_bool_eq ex_bool_eq

lemma first_layout_migrates: "snd (run_migrations sample_read 1 [1 .. 13] first_layout) = None"
  by (simp add: versions run_migration_simps)

lemma first_layout_well_typed: "well_typed first_layout"
  by (auto simp: well_typed_def first_layout_def well_typed_table_def row_fits_def int_fits_def split: if_splits)

section \<open>Properties\<close>

text \<open>
  C29. The upgrade of a database of any version from 1 to 14 can be stopped at any moment. After the
  transactions up to version k the version recorded is k, and upgrading from there leaves the database
  the undisturbed upgrade leaves. In the end, whether the migrations succeeded or one panicked, the
  recorded version leads to the same database once more: after a finished upgrade it is 14 and upgrading
  again changes nothing, after a failed one the migration that failed is retried. From version 2 on the
  outcome, success or panic, is the same too; from version 1 it is not, because the last check refuses
  the version read before the upgrade when that is 1.
\<close>

theorem upgrade_restartable:
  assumes "ly_schema l = Some v" and "1 \<le> v" and "v \<le> 14"
  shows "(\<forall>k m. v \<le> k \<and> k \<le> 14 \<and> run_migrations read v [1 .. k - 1] l = (m, None) \<longrightarrow>
            ly_schema m = Some k \<and> fst (upgrade_db read k m) = fst (upgrade_db read v l) \<and>
            (2 \<le> v \<longrightarrow> upgrade_db read k m = upgrade_db read v l)) \<and>
         (\<exists>k. ly_schema (fst (upgrade_db read v l)) = Some k \<and> v \<le> k \<and> k \<le> 14 \<and>
            (snd (run_migrations read v [1 .. 13] l) = None \<longrightarrow> k = 14) \<and>
            fst (upgrade_db read k (fst (upgrade_db read v l))) = fst (upgrade_db read v l) \<and>
            (2 \<le> v \<longrightarrow> upgrade_db read k (fst (upgrade_db read v l)) = upgrade_db read v l))"
proof -
  have stopped: "ly_schema m = Some k \<and> fst (upgrade_db read k m) = fst (upgrade_db read v l) \<and>
      (2 \<le> v \<longrightarrow> upgrade_db read k m = upgrade_db read v l)"
    if k: "v \<le> k" "k \<le> 14" "run_migrations read v [1 .. k - 1] l = (m, None)" for k m
  proof -
    have "ly_schema m = Some k" using committed_version [of v "k - 1" l read m] k assms by simp
    with migrations_continue [OF k(3) assms(2) k(1,2)] k assms show ?thesis
      by (auto simp: upgrade_db_outcome split: prod.split option.split)
  qed
  have "\<exists>k. ly_schema (fst (upgrade_db read v l)) = Some k \<and> v \<le> k \<and> k \<le> 14 \<and>
      (snd (run_migrations read v [1 .. 13] l) = None \<longrightarrow> k = 14) \<and>
      fst (upgrade_db read k (fst (upgrade_db read v l))) = fst (upgrade_db read v l) \<and>
      (2 \<le> v \<longrightarrow> upgrade_db read k (fst (upgrade_db read v l)) = upgrade_db read v l)"
  proof (cases "run_migrations read v [1 .. 13] l")
    case (Pair m e)
    show ?thesis
    proof (cases e)
      case None
      with Pair stopped [of 14 m] assms show ?thesis
        by (intro exI [of _ 14]) (simp add: upgrade_db_outcome [of v] upgrade_from_14 add_funding_column_twice add_funding_column_schema)
    next
      case (Some p)
      with Pair failing_migration [of v 13 read l m p] assms obtain k
        where k: "v \<le> k" "k \<le> 13" "run_migrations read v [1 .. k - 1] l = (m, None)" by auto
      from Pair Some assms have "upgrade_db read v l = (m, Some p)" by (simp add: upgrade_db_outcome)
      with Pair Some stopped [of k m] k show ?thesis by (intro exI [of _ k]) auto
    qed
  qed
  with stopped show ?thesis by blast
qed

theorem upgrade_restartable_witness:
  "\<exists>m. run_migrations sample_read 3 [1 .. 3] (first_layout\<lparr>ly_schema := Some 3\<rparr>) = (m, None) \<and> ly_schema m = Some 4 \<and>
     upgrade_db sample_read 4 m = upgrade_db sample_read 3 (first_layout\<lparr>ly_schema := Some 3\<rparr>)"
proof -
  let ?l = "first_layout\<lparr>ly_schema := Some 3\<rparr>"
  have "[1 .. 3 :: int] = [1, 2, 3]" by code_simp
  then have "snd (run_migrations sample_read 3 [1 .. 3] ?l) = None" by (simp add: run_migration_simps)
  then obtain m where m: "run_migrations sample_read 3 [1 .. 3] ?l = (m, None)" by (metis prod.collapse)
  moreover have "ly_schema ?l = Some 3" by simp
  ultimately show ?thesis using upgrade_restartable [of ?l 3 sample_read] by (intro exI [of _ m]) fastforce
qed

text \<open>
  C32. A database of the first version is migrated to version 14 and then refused: the last check takes
  the version that was read before the upgrade for unknown when it is 1. The next start finds version
  14 and goes on.
\<close>

theorem schema_one_panics:
  assumes "ly_schema l = Some 1" and "snd (run_migrations read 1 [1 .. 13] l) = None"
  shows "snd (gossip_persister_new read st graph file l) = Inl Unknown_Schema \<and> ly_schema (fst (initialize_db read l)) = Some 14 \<and>
    upgrade_db read 14 (fst (initialize_db read l)) = (fst (initialize_db read l), None)"
proof -
  obtain m where m: "run_migrations read 1 [1 .. 13] l = (m, None)" using assms(2) by (metis prod.collapse)
  then have "initialize_db read l = (add_funding_column m, Some Unknown_Schema)"
    using assms(1) by (simp add: initialize_db_def upgrade_db_def)
  moreover have "ly_schema m = Some 14" using committed_version [OF _ _ _ assms(1) m] by simp
  ultimately show ?thesis
    by (simp add: gossip_persister_new_def upgrade_from_14 add_funding_column_twice add_funding_column_schema)
qed

theorem schema_one_panics_witness:
  "snd (gossip_persister_new sample_read empty_store sample_graph None first_layout) = Inl Unknown_Schema \<and>
   ly_schema (fst (initialize_db sample_read first_layout)) = Some 14 \<and>
   upgrade_db sample_read 14 (fst (initialize_db sample_read first_layout)) = (fst (initialize_db sample_read first_layout), None)"
  using schema_one_panics [of first_layout sample_read empty_store sample_graph None] first_layout_migrates by (simp add: first_layout_def)




text \<open>
  C30. The task that looks up the funding amounts can be resumed after a crash. Whatever a first run did
  before it ended or panicked, in whatever order its lookups were written, a second run whose node
  finds the output of every channel that had no funding amount completes: every row then has the amount
  it had or the one a run found for its channel, and nothing else of it is changed; the column is
  declared not null and version 15 is recorded.
\<close>

theorem funding_task_resumes:
  assumes "funding_ready l t" and "reorders completion" and "reorders completion'"
    and "\<forall>r \<in> set (tb_rows t). r ''funding_amount_sats'' = Null \<longrightarrow> (\<exists>v. found client' (r ''short_channel_id'') v)"
  shows "\<exists>l' t'. funding_task client' completion' (fst (funding_task client completion l)) = (l', None) \<and> ly_schema l' = Some SCHEMA_VERSION \<and>
    hm_get (ly_tables l') channel_announcements = Some t' \<and> hm_get (tb_columns t') ''funding_amount_sats'' = Some (''bigint'', True) \<and>
    \<not> has_null ''funding_amount_sats'' t' \<and> list_all2 (funded {client, client'}) (tb_rows t) (tb_rows t')"
proof -
  from funding_task_step(1) [OF assms(1,2), of client] obtain t1 where
    t1: "funding_ready (fst (funding_task client completion l)) t1" "list_all2 (funded {client}) (tb_rows t) (tb_rows t1)" by blast
  have null: "\<exists>v. found client' (r' ''short_channel_id'') v" if r': "r' \<in> set (tb_rows t1)" "r' ''funding_amount_sats'' = Null" for r'
  proof -
    from r'(1) obtain i where i: "i < length (tb_rows t1)" "r' = tb_rows t1 ! i" by (auto simp: in_set_conv_nth)
    with t1(2) have r: "tb_rows t ! i \<in> set (tb_rows t)" "funded {client} (tb_rows t ! i) r'" by (simp_all add: list_all2_conv_all_nth)
    from r(2) r'(2) have "tb_rows t ! i = r'" by (auto simp: funded_def)
    with r(1) r'(2) assms(4) show ?thesis by metis
  qed
  then have "\<forall>r \<in> set (tb_rows t1). r ''funding_amount_sats'' = Null \<longrightarrow> (\<exists>v. found client' (r ''short_channel_id'') v)" by blast
  from funding_task_step(2) [OF t1(1) assms(3) this] obtain l' t' where
    r: "funding_task client' completion' (fst (funding_task client completion l)) = (l', None)" "ly_schema l' = Some SCHEMA_VERSION" "funding_ready l' t'"
      "hm_get (tb_columns t') ''funding_amount_sats'' = Some (''bigint'', True)" "\<not> has_null ''funding_amount_sats'' t'"
      "list_all2 (funded {client'}) (tb_rows t1) (tb_rows t')" by blast
  from funded_all_trans [OF t1(2) r(6)] have "list_all2 (funded {client, client'}) (tb_rows t) (tb_rows t')"
    by (simp add: insert_commute)
  with r show ?thesis unfolding funding_ready_def by blast
qed

text \<open>Two channels, of which a first node knows one; a second node knows both.\<close>

definition sample_funding_layout :: layout where
  "sample_funding_layout = \<lparr>ly_schema = Some 14, ly_tables = [(channel_announcements, \<lparr>tb_columns = announcement_columns,
     tb_rows = map (\<lambda>i. (\<lambda>_. Null)(''id'' := Int_Cell i, ''short_channel_id'' := Int_Cell (i * 2 ^ 40))) [1, 2]\<rparr>)], ly_indexes = []\<rparr>"

definition sample_node_client :: "u32 list \<Rightarrow> rest_client" where
  "sample_node_client heights = \<lparr>rc_block_hash = (\<lambda>uri. if uri \<in> block_hash_uri ` set heights then Some (replicate 32 1) else None),
     rc_block = (\<lambda>_. Some (FullBlock [[\<lparr>txo_value = 5000, txo_script_pubkey = []\<rparr>]]))\<rparr>"

lemma sample_node_finds:
  assumes "i = 1 \<or> i = 2"
  shows "found (sample_node_client [1, 2]) (Int_Cell (i * 2 ^ 40)) 5000"
  using assms by (auto simp: found_def sample_node_client_def retrieve_txo_def retrieve_cache_txo_def retrieve_block_def
      block_height_def transaction_index_def output_index_def as_u64_def as_i64_def Let_def)

theorem funding_task_resumes_witness:
  "snd (funding_task (sample_node_client [1]) rev sample_funding_layout) \<noteq> None \<and>
   (\<exists>l' t'. funding_task (sample_node_client [1, 2]) id (fst (funding_task (sample_node_client [1]) rev sample_funding_layout)) = (l', None) \<and>
     ly_schema l' = Some 15 \<and> hm_get (ly_tables l') channel_announcements = Some t' \<and> \<not> has_null ''funding_amount_sats'' t')"
proof -
  obtain t where t: "funding_ready sample_funding_layout t" "tb_rows t = map (\<lambda>i. (\<lambda>_. Null)(''id'' := Int_Cell i, ''short_channel_id'' := Int_Cell (i * 2 ^ 40))) [1, 2]"
    by (simp add: funding_ready_def sample_funding_layout_def announcement_columns_def ex_bool_eq)
  have "\<forall>r \<in> set (tb_rows t). r ''funding_amount_sats'' = Null \<longrightarrow> (\<exists>v. found (sample_node_client [1, 2]) (r ''short_channel_id'') v)"
    using sample_node_finds [of 1] sample_node_finds [of 2] by (auto simp: t(2))
  from funding_task_resumes [OF t(1), of rev id, OF _ _ this, where client = "sample_node_client [1]"]
  have "\<exists>l' t'. funding_task (sample_node_client [1, 2]) id (fst (funding_task (sample_node_client [1]) rev sample_funding_layout)) = (l', None) \<and>
     ly_schema l' = Some 15 \<and> hm_get (ly_tables l') channel_announcements = Some t' \<and> \<not> has_null ''funding_amount_sats'' t'"
    by (auto simp: reorders_def SCHEMA_VERSION_def)
  moreover have "snd (funding_task (sample_node_client [1]) rev sample_funding_layout) \<noteq> None"
    by (simp add: funding_task_def sample_funding_layout_def announcement_columns_def fill_funding_def sample_node_client_def retrieve_txo_def
        retrieve_cache_txo_def retrieve_block_def block_height_def block_hash_uri_def as_u64_def Let_def)
  ultimately show ?thesis by blast
qed

text \<open>
  C31. The migration away from version 2: when the updates have distinct ids and readable composite
  indexes it succeeds, whatever the number of batches, and every row gets the channel id and the
  direction its composite index names and keeps everything else.
\<close>

theorem update_ids_filled:
  assumes "hm_get (ly_tables l) channel_updates = Some t" and "well_typed_table t"
    and "\<forall>c \<in> {''short_channel_id'', ''direction'', ''composite_index''}. hm_get (tb_columns t) c \<noteq> None"
    and "\<forall>r \<in> set (tb_rows t). \<exists>index p. r ''composite_index'' = Text_Cell index \<and> read_composite_index index = Inr p"
    and "distinct (map (\<lambda>r. r ''id'') (tb_rows t))" and "ly_schema l = Some 2"
  shows "\<exists>l' rows'. transaction read (migration 2) l = (l', None) \<and> ly_schema l' = Some 3 \<and>
    table_rows l' channel_updates = Some rows' \<and> list_all2 filled_update (tb_rows t) rows'"
proof -
  obtain rows' where rows': "fill_loop update_cells 50000 (length (tb_rows t))
      (map (\<lambda>r. r(''short_channel_id'' := Null, ''direction'' := Null)) (tb_rows t)) = Inr rows'"
    "list_all2 filled_update (tb_rows t) rows'" "\<forall>r \<in> set rows'. r ''short_channel_id'' \<noteq> Null \<and> r ''direction'' \<noteq> Null"
    using fill_updates_loop [OF assms(4,5), of 50000] by auto
  obtain l' where l': "fold_res (execute read) (migration 2) l = Inr l'" "table_rows l' channel_updates = Some rows'"
    using update_migration_statements [OF assms(1) _ assms(3) rows'(1,3)] assms(2) by (auto simp: well_typed_table_def)
  then have "transaction read (migration 2) l = (l', None)" by (simp add: transaction_def)
  with transaction_schema [OF this] assms(6) l' rows'(2) show ?thesis by auto
qed

theorem update_ids_filled_witness:
  "\<exists>l' rows'. transaction sample_read (migration 2) (first_layout\<lparr>ly_schema := Some 2\<rparr>) = (l', None) \<and> ly_schema l' = Some 3 \<and>
     table_rows l' channel_updates = Some rows' \<and> length rows' = 2"
proof -
  let ?l = "first_layout\<lparr>ly_schema := Some 2\<rparr>"
  obtain t where t: "hm_get (ly_tables ?l) channel_updates = Some t" by (simp add: first_layout_def)
  then have "well_typed_table t" using first_layout_well_typed by (auto simp: well_typed_def)
  moreover have "\<forall>c \<in> {''short_channel_id'', ''direction'', ''composite_index''}. hm_get (tb_columns t) c \<noteq> None"
    using t by (auto simp: first_layout_def ex_bool_eq)
  moreover have "\<forall>r \<in> set (tb_rows t). \<exists>index p. r ''composite_index'' = Text_Cell index \<and> read_composite_index index = Inr p"
    using t by (auto simp: first_layout_def sample_index_read ex_bool_eq)
  moreover have "distinct (map (\<lambda>r. r ''id'') (tb_rows t))" "length (tb_rows t) = 2" using t by (auto simp: first_layout_def)
  ultimately show ?thesis
    using update_ids_filled [OF t, of sample_read] by (auto dest: list_all2_lengthD)
qed

end
