(* ===== verification/Schema_Inserts.thy ===== *)
theory Schema_Inserts
  imports Schema_Types Schema_Properties
begin

text \<open>
The insert statements of the persister on tables of cells, and that they refine the inserts into the
  rows of the model: what both depend on is the locale message_table, interpreted for the three tables.
\<close>

section \<open>The insert statements\<close>

text \<open>
  The row of an \<open>INSERT INTO\<close>: the columns named get the parameters, the id comes from the sequence of
  the table and the time seen is \<open>NOW()\<close>.
\<close>

definition row_fits_all :: "column list \<Rightarrow> db_row \<Rightarrow> bool" where
  "row_fits_all cols r = list_all (\<lambda>(c, ty, not_null). cell_fits ty (r c) \<and> (not_null \<longrightarrow> r c \<noteq> Null)) cols"

definition new_row :: "parameters \<Rightarrow> int \<Rightarrow> int \<Rightarrow> db_row" where
  "new_row ps next_id now =
     set_cells (map (\<lambda>(c, p). (c, cell_of p)) ps @ [(''id'', Int_Cell next_id), (''seen'', Int_Cell now)]) (\<lambda>_. Null)"

text \<open>
  The unique indexes of a table. The primary key is left out: its value is the next one of the sequence,
  which no row has. Rows collide in an index when they agree in its columns and none of these is null.
\<close>

definition unique_keys :: "layout \<Rightarrow> string \<Rightarrow> string list list" where
  "unique_keys l table = map (\<lambda>(_, _, _, cols). cols)
     (filter (\<lambda>(_, is_unique, tb, cols). is_unique \<and> tb = table \<and> ''id'' \<notin> set cols) (ly_indexes l))"

definition collides :: "db_row \<Rightarrow> db_row list \<Rightarrow> string list \<Rightarrow> bool" where
  "collides row rows cols = (Null \<notin> set (map row cols) \<and> list_ex (\<lambda>r. map r cols = map row cols) rows)"

text \<open>
  The conflict clause of a statement: none, \<open>ON CONFLICT\<close> with columns, for which there must be a unique
  index, or \<open>ON CONFLICT\<close> alone, which stands for every unique index. The statement fails when a column
  is unknown, a parameter is not accepted for its column, a value does not fit, or the row collides in an
  index that the clause does not name; when it collides in one that it names nothing is done.
\<close>

datatype conflict_clause = No_Clause | On_Columns "string list" | On_Any

definition arbiters :: "conflict_clause \<Rightarrow> string list list \<Rightarrow> string list list" where
  "arbiters clause keys = (case clause of
     No_Clause \<Rightarrow> []
   | On_Columns cols \<Rightarrow> filter (\<lambda>key. set key = set cols) keys
   | On_Any \<Rightarrow> keys)"

definition arbiter_missing :: "conflict_clause \<Rightarrow> string list list \<Rightarrow> bool" where
  "arbiter_missing clause keys = (case clause of On_Columns _ \<Rightarrow> arbiters clause keys = [] | _ \<Rightarrow> False)"

definition sql_insert :: "string \<Rightarrow> parameters \<Rightarrow> conflict_clause \<Rightarrow> int \<Rightarrow> int \<Rightarrow> layout \<Rightarrow> layout res" where
  "sql_insert table ps clause next_id now l = (case hm_get (ly_tables l) table of
     None \<Rightarrow> Inl Io_Error
   | Some t \<Rightarrow>
       let row = new_row ps next_id now; keys = unique_keys l table
       in if \<not> list_all (\<lambda>(c, p). case hm_get (tb_columns t) c of Some (ty, _) \<Rightarrow> param_accepted ty p | None \<Rightarrow> False) ps \<or>
             \<not> row_fits_all (tb_columns t) row \<or> arbiter_missing clause keys
          then Inl Io_Error
          else if list_ex (collides row (tb_rows t)) (arbiters clause keys) then Inr l
          else if list_ex (collides row (tb_rows t)) keys then Inl Io_Error
          else Inr (l\<lparr>ly_tables := hm_insert table (t\<lparr>tb_rows := tb_rows t @ [row]\<rparr>) (ly_tables l)\<rparr>))"

text \<open>The conflict clauses of the three statements.\<close>

definition on_conflict :: "gossip_message \<Rightarrow> conflict_clause" where
  "on_conflict m = (case m of
     NodeAnnouncement _ _ \<Rightarrow> No_Clause
   | ChannelAnnouncement _ _ _ \<Rightarrow> On_Columns [''short_channel_id'']
   | ChannelUpdate _ _ \<Rightarrow> On_Any)"

definition insert_message :: "message_writer \<Rightarrow> gossip_message \<Rightarrow> int \<Rightarrow> int \<Rightarrow> layout \<Rightarrow> layout res" where
  "insert_message W m next_id now l = sql_insert (fst (insert_values W m)) (snd (insert_values W m)) (on_conflict m) next_id now l"

section \<open>The tables as cells\<close>

definition stored_as :: "('r \<Rightarrow> parameters) \<Rightarrow> ('r \<Rightarrow> int) \<Rightarrow> 'r \<Rightarrow> db_row \<Rightarrow> bool" where
  "stored_as values seen r row \<longleftrightarrow> (\<exists>i. row = new_row (values r) i (seen r))"

definition stored_table ::
  "string \<Rightarrow> column list \<Rightarrow> string list list \<Rightarrow> ('r \<Rightarrow> parameters) \<Rightarrow> ('r \<Rightarrow> int) \<Rightarrow> 'r list \<Rightarrow> layout \<Rightarrow> bool" where
  "stored_table table cols keys values seen rs l \<longleftrightarrow> unique_keys l table = keys \<and>
     (\<exists>t. hm_get (ly_tables l) table = Some t \<and> tb_columns t = cols \<and> list_all2 (stored_as values seen) rs (tb_rows t))"

abbreviation announcement_keys :: "string list list" where
  "announcement_keys \<equiv> [[''short_channel_id'']]"

abbreviation update_keys :: "string list list" where
  "update_keys \<equiv> [[''short_channel_id'', ''direction'', ''timestamp'']]"

text \<open>
  A database with the created columns and unique indexes whose cells are the rows of the model.
\<close>

definition represents :: "layout \<Rightarrow> database \<Rightarrow> bool" where
  "represents l db \<longleftrightarrow>
     stored_table channel_announcements announcement_columns announcement_keys announcement_values car_seen (db_channel_announcements db) l \<and>
     stored_table channel_updates update_columns update_keys update_values cur_seen (db_channel_updates db) l \<and>
     stored_table node_announcements node_columns [] node_values nar_seen (db_node_announcements db) l"

lemma list_ex_stored:
  assumes "list_all2 (stored_as values seen) rs rows" and "\<And>r i. P (new_row (values r) i (seen r)) = Q r"
  shows "list_ex P rows = list_ex Q rs"
  using assms(1) by (induction rs rows rule: list_all2_induct) (auto simp: stored_as_def assms(2))

section \<open>The tables of the messages\<close>

text \<open>
  What an insert relies on, for each of the three tables: the parameters are accepted for the columns
  named, a row of the model fits the columns, the unique indexes tell rows apart as the model does, and
  the conflict clause names all of them.
\<close>

locale message_table =
  fixes table :: string and cols :: "column list" and keys :: "string list list" and clause :: conflict_clause
    and "values" :: "'r \<Rightarrow> parameters" and seen :: "'r \<Rightarrow> int" and same :: "'r \<Rightarrow> 'r \<Rightarrow> bool" and row_ok :: "'r \<Rightarrow> bool"
  assumes accepted: "list_all (\<lambda>(c, p). case hm_get cols c of Some (ty, _) \<Rightarrow> param_accepted ty p | None \<Rightarrow> False) (values r)"
    and fits: "row_ok r \<Longrightarrow> int_fits ''SERIAL'' i \<Longrightarrow> row_fits_all cols (new_row (values r) i (seen r))"
    and named: "k \<in> set keys \<Longrightarrow> Null \<notin> set (map (new_row (values r) i (seen r)) k)"
    and conflict: "(\<exists>k \<in> set keys. map (new_row (values s) j (seen s)) k = map (new_row (values r) i (seen r)) k) = same s r"
    and covered: "arbiters clause keys = keys" and arbiter: "\<not> arbiter_missing clause keys"
begin

lemma collides_stored:
  assumes "list_all2 (stored_as values seen) rs rows"
  shows "list_ex (collides (new_row (values r) i (seen r)) rows) keys = list_ex (\<lambda>s. same s r) rs"
proof -
  let ?row = "new_row (values r) i (seen r)"
  have "list_ex (collides ?row rows) keys = list_ex (\<lambda>row. \<exists>k \<in> set keys. map row k = map ?row k) rows"
    using named by (auto simp: collides_def list_ex_iff simp del: set_map)
  also have "\<dots> = list_ex (\<lambda>s. same s r) rs"
    by (rule list_ex_stored [where P = "\<lambda>row. \<exists>k \<in> set keys. map row k = map ?row k", OF assms]) (rule conflict)
  finally show ?thesis .
qed

lemma insert_stored:
  assumes "stored_table table cols keys values seen rs l" and "row_ok r" and "int_fits ''SERIAL'' i"
  obtains l' where "sql_insert table (values r) clause i (seen r) l = Inr l'"
    and "stored_table table cols keys values seen (if list_ex (\<lambda>s. same s r) rs then rs else rs @ [r]) l'"
    and "ly_indexes l' = ly_indexes l" and "\<And>table'. table' \<noteq> table \<Longrightarrow> hm_get (ly_tables l') table' = hm_get (ly_tables l) table'"
proof -
  obtain t where t: "hm_get (ly_tables l) table = Some t" "tb_columns t = cols" "list_all2 (stored_as values seen) rs (tb_rows t)"
    and keys: "unique_keys l table = keys" using assms(1) by (auto simp: stored_table_def)
  let ?row = "new_row (values r) i (seen r)"
  let ?l = "l\<lparr>ly_tables := hm_insert table (t\<lparr>tb_rows := tb_rows t @ [?row]\<rparr>) (ly_tables l)\<rparr>"
  have insert: "sql_insert table (values r) clause i (seen r) l = Inr (if list_ex (\<lambda>s. same s r) rs then l else ?l)"
    using t accepted [of r] fits [OF assms(2,3)] collides_stored [OF t(3)] arbiter
    by (auto simp: sql_insert_def Let_def keys covered)
  have "list_all2 (stored_as values seen) (rs @ [r]) (tb_rows t @ [?row])"
    using t(3) by (intro list_all2_appendI) (auto simp: stored_as_def)
  then have "stored_table table cols keys values seen (rs @ [r]) ?l"
    using t(2) keys by (auto simp: stored_table_def hm_get_insert unique_keys_def)
  with insert assms(1) that [of l] that [of ?l] show thesis by (cases "list_ex (\<lambda>s. same s r) rs") (auto simp: hm_get_insert)
qed

end

lemma timestamp_fits: "int_fits ''timestamp'' i"
  by (simp add: int_fits_def)

lemmas new_row_simps = row_fits_all_def new_row_def set_cells_def arbiters_def arbiter_missing_def timestamp_fits all_bool_eq ex_bool_eq as_i64_inj

definition node_row_fits :: "node_announcement_row \<Rightarrow> bool" where
  "node_row_fits r \<longleftrightarrow> length (nar_public_key r) \<le> 66 \<and> int_fits ''bigint'' (nar_timestamp r)"

definition update_row_fits :: "channel_update_row \<Rightarrow> bool" where
  "update_row_fits r \<longleftrightarrow> int_fits ''bigint'' (cur_timestamp r) \<and> int_fits ''smallint'' (cur_channel_flags r)"

interpretation node_table: message_table node_announcements node_columns "[]" No_Clause node_values nar_seen "\<lambda>_ _. False" node_row_fits
  by unfold_locales (simp_all add: new_row_simps node_columns_def node_values_def node_row_fits_def)

interpretation announcement_table: message_table channel_announcements announcement_columns announcement_keys "On_Columns [''short_channel_id'']"
  announcement_values car_seen "\<lambda>s r. car_short_channel_id s = car_short_channel_id r" "\<lambda>_. True"
  by unfold_locales (simp_all add: new_row_simps announcement_columns_def announcement_values_def sint_fits)

interpretation update_table: message_table channel_updates update_columns update_keys On_Any update_values cur_seen
  "\<lambda>s r. update_key s = update_key r" update_row_fits
  by unfold_locales (simp_all add: new_row_simps update_columns_def update_values_def update_row_fits_def update_key_def sint_fits sint32_fits)

lemma stored_table_cong:
  assumes "ly_indexes l' = ly_indexes l" and "hm_get (ly_tables l') table = hm_get (ly_tables l) table"
  shows "stored_table table cols keys values seen rs l' = stored_table table cols keys values seen rs l"
  using assms by (simp add: stored_table_def unique_keys_def)

lemma insert_node_refines:
  assumes "represents l (st_db st)" and "int_fits ''SERIAL'' next_id"
  shows "\<exists>l'. insert_message W (NodeAnnouncement a s) next_id now l = Inr l' \<and> represents l' (st_db (insert_node W a now st))"
proof -
  let ?r = "node_row W a now"
  have "stored_table node_announcements node_columns [] node_values nar_seen (db_node_announcements (st_db st)) l"
    using assms(1) by (simp add: represents_def)
  moreover have "node_row_fits ?r" by (simp add: node_row_fits_def node_row_def length_node_id_hex uint32_fits)
  ultimately obtain l' where l': "sql_insert node_announcements (node_values ?r) No_Clause next_id (nar_seen ?r) l = Inr l'"
    "stored_table node_announcements node_columns [] node_values nar_seen (db_node_announcements (st_db st) @ [?r]) l'"
    "ly_indexes l' = ly_indexes l" "\<And>table'. table' \<noteq> node_announcements \<Longrightarrow> hm_get (ly_tables l') table' = hm_get (ly_tables l) table'"
    using assms(2) by (rule node_table.insert_stored) (auto simp: list_ex_iff)
  have "represents l' (st_db (insert_node W a now st))"
    using assms(1) l'(2) by (simp add: l'(3,4) stored_table_cong [of l' l] represents_def insert_node_def)
  with l'(1) show ?thesis by (auto simp: insert_message_def insert_values_def on_conflict_def node_row_def node_values_def)
qed

lemma insert_announcement_refines:
  assumes "represents l (st_db st)" and "int_fits ''SERIAL'' next_id"
  shows "\<exists>l'. insert_message W (ChannelAnnouncement a f s) next_id now l = Inr l' \<and> represents l' (st_db (insert_announcement W a f now st))"
proof -
  let ?rs = "db_channel_announcements (st_db st)" and ?r = "announcement_row W a f now"
  have "stored_table channel_announcements announcement_columns announcement_keys announcement_values car_seen ?rs l"
    using assms(1) by (simp add: represents_def)
  then obtain l' where l': "sql_insert channel_announcements (announcement_values ?r) (On_Columns [''short_channel_id'']) next_id (car_seen ?r) l = Inr l'"
    "stored_table channel_announcements announcement_columns announcement_keys announcement_values car_seen
       (if list_ex (\<lambda>s. car_short_channel_id s = car_short_channel_id ?r) ?rs then ?rs else ?rs @ [?r]) l'"
    "ly_indexes l' = ly_indexes l" "\<And>table'. table' \<noteq> channel_announcements \<Longrightarrow> hm_get (ly_tables l') table' = hm_get (ly_tables l) table'"
    using TrueI assms(2) by (rule announcement_table.insert_stored [where r = ?r]) blast
  have "represents l' (st_db (insert_announcement W a f now st))"
    using assms(1) l'(2) by (simp add: l'(3,4) stored_table_cong [of l' l] represents_def insert_announcement_def Let_def split: if_splits)
  with l'(1) show ?thesis by (auto simp: insert_message_def insert_values_def on_conflict_def announcement_row_def announcement_values_def)
qed

lemma insert_update_refines:
  assumes "represents l (st_db st)" and "int_fits ''SERIAL'' next_id"
  shows "\<exists>l'. insert_message W (ChannelUpdate u s) next_id now l = Inr l' \<and> represents l' (st_db (insert_update W u now st))"
proof -
  let ?rs = "db_channel_updates (st_db st)" and ?r = "update_row W u (st_next_id st) now"
  have "stored_table channel_updates update_columns update_keys update_values cur_seen ?rs l" using assms(1) by (simp add: represents_def)
  moreover have "update_row_fits ?r" by (simp add: update_row_fits_def update_row_def Let_def uint32_fits uint8_fits)
  ultimately obtain l' where l': "sql_insert channel_updates (update_values ?r) On_Any next_id (cur_seen ?r) l = Inr l'"
    "stored_table channel_updates update_columns update_keys update_values cur_seen
       (if list_ex (\<lambda>s. update_key s = update_key ?r) ?rs then ?rs else ?rs @ [?r]) l'"
    "ly_indexes l' = ly_indexes l" "\<And>table'. table' \<noteq> channel_updates \<Longrightarrow> hm_get (ly_tables l') table' = hm_get (ly_tables l) table'"
    using assms(2) by (rule update_table.insert_stored) blast
  have "represents l' (st_db (insert_update W u now st))"
    using assms(1) l'(2) by (simp add: l'(3,4) stored_table_cong [of l' l] represents_def insert_update_def Let_def split: if_splits)
  with l'(1) show ?thesis by (auto simp: insert_message_def insert_values_def on_conflict_def update_row_def update_values_def Let_def)
qed

text \<open>The tables of a new database hold no rows.\<close>

abbreviation no_layout :: layout where
  "no_layout \<equiv> \<lparr>ly_schema = None, ly_tables = [], ly_indexes = []\<rparr>"

lemma fresh_represents: "represents (fst (initialize_db read no_layout)) (st_db empty_store)"
  by (simp add: represents_def stored_table_def unique_keys_def empty_store_def initialize_db_def db_tables_def db_indexes_def create_table_def create_index_def
      announcement_columns_def update_columns_def node_columns_def has_duplicates_def all_bool_eq ex_bool_eq)

text \<open>
  C28. The statements the persister sends do what the model of the tables says: on a database with the
  created tables and unique indexes whose cells are the rows of the model, inserting a message fails for
  no parameter type, missing value or collision as long as the sequence has not run over, and leaves the
  cells of the rows that the model has after the insert; an announcement or update that collides with a
  stored one in a unique index changes nothing.
\<close>

theorem inserts_refine_tables:
  assumes "represents l (st_db st)" and "1 \<le> next_id" and "next_id < 2 ^ 31"
  shows "\<exists>l'. insert_message W m next_id now l = Inr l' \<and> represents l' (st_db (execute_insert W m now st))"
proof -
  have "int_fits ''SERIAL'' next_id" using assms(2,3) by (simp add: int_fits_def)
  note refines = insert_node_refines [OF assms(1) this] insert_announcement_refines [OF assms(1) this] insert_update_refines [OF assms(1) this]
  show ?thesis by (cases m) (simp_all add: execute_insert_def refines)
qed

theorem inserts_refine_tables_witness:
  "\<exists>l'. insert_message sample_writer (ChannelUpdate (Signed (sample_update 100 1 7) []) None) 1 1700000000000000
       (fst (initialize_db (\<lambda>_. None) no_layout)) = Inr l' \<and>
     represents l' (st_db (execute_insert sample_writer (ChannelUpdate (Signed (sample_update 100 1 7) []) None) 1700000000000000 empty_store)) \<and>
     db_channel_updates (st_db (execute_insert sample_writer (ChannelUpdate (Signed (sample_update 100 1 7) []) None) 1700000000000000 empty_store)) \<noteq> []"
  using inserts_refine_tables [OF fresh_represents, of 1 sample_writer "ChannelUpdate (Signed (sample_update 100 1 7) []) None" 1700000000000000 "\<lambda>_. None"]
  by (simp add: execute_insert_def insert_update_def empty_store_def)

end
