(* ===== verification/Server.thy ===== *)
theory Server
  imports Startup Gossip_To_Client Tracking Schema_Inserts
begin

text \<open>
The whole server up to the tables: \<open>main\<close> of src/main.rs, \<open>connect_to_db\<close> and \<open>start_sync\<close> of
  src/lib.rs, and the router of src/downloader.rs and the persister of src/persistence.rs at work on the
  channel they share. A run is a list of actions, taken by the parts in any order; every message that the
  router accepts, and every message of the backfill, reaches the clients of the snapshots.
\<close>

section \<open>Starting\<close>

text \<open>A connection is opened with the settings of the environment; that it cannot be opened is a panic.\<close>

definition connect_to_db :: "(db_config \<Rightarrow> 'conn option) \<Rightarrow> env \<Rightarrow> 'conn res" where
  "connect_to_db connect e = unwrap (connect (db_connection_config False e))"

record server =
  sv_startup :: startup
  sv_router :: gossip_router

definition server_start :: "(u64 \<times> channel_info) order \<Rightarrow> store \<Rightarrow> network_graph \<Rightarrow> network_graph option \<Rightarrow> server" where
  "server_start unordered_iter st graph file = \<lparr>sv_startup = startup_start unordered_iter st graph file,
     sv_router = set_pm (gossip_router_new (mpsc_channel 100))\<rparr>"

text \<open>
  \<open>main\<close>: the graph is loaded, the interval is read for a log line, and the persister prepares the
  database on a connection of its own. What is left of \<open>start_sync\<close> are the actions below.
\<close>

definition server_main ::
  "(bytes \<Rightarrow> channel_announcement option) \<Rightarrow> (bytes \<Rightarrow> network_graph option) \<Rightarrow> (network \<Rightarrow> network_graph) \<Rightarrow> (db_config \<Rightarrow> 'conn option) \<Rightarrow>
   (u64 \<times> channel_info) order \<Rightarrow> env \<Rightarrow> bytes option \<Rightarrow> store \<Rightarrow> layout \<Rightarrow> layout \<times> server res" where
  "server_main read read_graph new_graph connect unordered_iter e cache_file st l =
     (case bind_res (rapid_sync_processor_new read_graph new_graph e cache_file) (\<lambda>graph.
           bind_res (snapshot_generation_interval e) (\<lambda>_.
           bind_res (connect_to_db connect e) (\<lambda>_. Inr graph))) of
        Inl p \<Rightarrow> (l, Inl p)
      | Inr graph \<Rightarrow>
          let file = (case cache_file of None \<Rightarrow> None | Some bs \<Rightarrow> read_graph bs)
          in (case gossip_persister_new read st graph file l of (l', persister) \<Rightarrow>
               (l', bind_res persister (\<lambda>_. Inr (server_start unordered_iter st graph file)))))"

lemma server_main_starts:
  assumes "snd (server_main read read_graph new_graph connect iter e cache_file st l) = Inr s"
  obtains graph cached interval net where "s = server_start iter st graph cached" and "snapshot_generation_interval e = Inr interval"
    and "config_network e = Inr net" and "snd (initialize_db read l) = None"
  using assms
  by (auto simp: server_main_def rapid_sync_processor_new_def gossip_persister_new_def bind_res_eq_Inr Let_def
      split: sum.splits prod.splits option.splits)

section \<open>Actions\<close>

datatype server_action =
    Backfill_Action
  | Take_Action bool
  | Cache_Action
  | Spawn_Action
  | Finish_Action nat int
  | Abort_Action "(nat \<times> int) list"
  | Router_Action router_event "(nat \<times> int) list"

text \<open>The calls of the router, which the peer manager makes.\<close>

definition router_act :: "rest_client \<Rightarrow> router_event \<Rightarrow> gossip_router \<Rightarrow> gossip_router res" where
  "router_act client ev r = (case ev of
     Handle_Node native msg \<Rightarrow> bind_res (handle_node_announcement native msg r) (\<lambda>(_, r). Inr r)
   | Handle_Channel native msg \<Rightarrow> bind_res (handle_channel_announcement client native msg r) (\<lambda>(_, r). Inr r)
   | Handle_Update native msg \<Rightarrow> bind_res (handle_channel_update native msg r) (\<lambda>(_, r). Inr r)
   | Pending_Events evs native \<Rightarrow> bind_res (get_and_clear_pending_msg_events client evs native r) (\<lambda>(_, r). Inr r)
   | Utxo_Lookup scid \<Rightarrow> bind_res (get_utxo client scid (cv_peer_handler (gr_verifier r)) (gr_verifier r)) (\<lambda>(_, _, cv). Inr (r\<lparr>gr_verifier := cv\<rparr>))
   | Persister_Takes m \<Rightarrow> Inl Unreachable)"

definition set_persister :: "gossip_persister \<Rightarrow> server \<Rightarrow> server" where
  "set_persister p s = s\<lparr>sv_startup := (sv_startup s)\<lparr>su_persister := p\<rparr>\<rparr>"

text \<open>
  One action. The router is started when the backfill is over. A handler that panics aborts the
  process; the list of an abort says which statements of running tasks the database still executes.
\<close>

definition server_act :: "rest_client \<Rightarrow> message_writer \<Rightarrow> (network_graph \<Rightarrow> network_graph) \<Rightarrow> server_action \<Rightarrow> server \<Rightarrow> server option" where
  "server_act client W prune a s =
     (let p = su_persister (sv_startup s); started = map_option (\<lambda>u. s\<lparr>sv_startup := u\<rparr>); persister = map_option (\<lambda>p. set_persister p s)
      in if gp_aborted p then None
         else case a of
           Backfill_Action \<Rightarrow> started (backfill_next (sv_startup s))
         | Take_Action cache_due \<Rightarrow> started (take_next cache_due (sv_startup s))
         | Cache_Action \<Rightarrow> started (cache_graph prune (sv_startup s))
         | Spawn_Action \<Rightarrow> started (spawn_next (sv_startup s))
         | Finish_Action i now \<Rightarrow> persister (finish_insert W i now p)
         | Abort_Action executed \<Rightarrow> persister (abort_process W executed p)
         | Router_Action ev executed \<Rightarrow>
             if su_reading (sv_startup s) then None
             else (case router_act client ev ((sv_router s)\<lparr>gr_sender := gp_receiver p\<rparr>) of
               Inr r \<Rightarrow> Some ((set_persister (p\<lparr>gp_receiver := gr_sender r\<rparr>) s)\<lparr>sv_router := r\<rparr>)
             | Inl _ \<Rightarrow> persister (abort_process W executed p)))"

fun server_run :: "rest_client \<Rightarrow> message_writer \<Rightarrow> (network_graph \<Rightarrow> network_graph) \<Rightarrow> server_action list \<Rightarrow> server \<Rightarrow> server option" where
  "server_run client W prune [] s = Some s"
| "server_run client W prune (a # as) s = (case server_act client W prune a s of None \<Rightarrow> None | Some s' \<Rightarrow> server_run client W prune as s')"

abbreviation aborted :: "server \<Rightarrow> bool" where
  "aborted s \<equiv> gp_aborted (su_persister (sv_startup s))"

section \<open>From the router to the persister\<close>

text \<open>What the router forwards it sends into the channel, message by message.\<close>

lemma forward_sends: "forward m r = Inr r' \<Longrightarrow> fold_res send_unwrap [m] (gr_sender r) = Inr (gr_sender r')"
  by (auto simp: forward_def try_send_or_wait_eq bind_res_eq_Inr)

lemma broadcast_sends:
  assumes "broadcast_step client ev r = Inr r'" and "funding_cache_ok client (gr_verifier r)"
  shows "fold_res send_unwrap (event_message client ev) (gr_sender r) = Inr (gr_sender r')"
proof (cases ev)
  case (BroadcastChannelAnnouncement msg)
  let ?scid = "ca_short_channel_id (contents msg)"
  from assms(1) BroadcastChannelAnnouncement uncached_panics(1) [of msg r client] obtain v where
    v: "get_cached_funding_value ?scid (gr_verifier r) = Some v"
    by (cases "get_cached_funding_value ?scid (gr_verifier r)") (auto simp: broadcast_step_def)
  then have "funding_of client msg = v" using assms(2) by (fastforce simp: funding_cache_ok_def funding_of_def)
  with assms(1) v BroadcastChannelAnnouncement show ?thesis
    by (auto simp: broadcast_step_def cached_forwards event_message_def dest!: forward_sends)
qed (use assms(1) in \<open>auto simp: broadcast_step_def new_node_announcement_def new_channel_update_def event_message_def Let_def dest!: forward_sends\<close>)

lemma broadcasts_send:
  assumes "fold_res (broadcast_step client) evs r = Inr r'" and "funding_cache_ok client (gr_verifier r)"
  shows "fold_res send_unwrap (concat (map (event_message client) evs)) (gr_sender r) = Inr (gr_sender r') \<and> gr_verifier r' = gr_verifier r"
  using assms
proof (induction evs arbitrary: r)
  case (Cons ev evs)
  from Cons.prems(1) obtain r1 where r1: "broadcast_step client ev r = Inr r1" "fold_res (broadcast_step client) evs r1 = Inr r'"
    by (auto simp: bind_res_eq_Inr)
  from broadcast_keeps [OF r1(1)] broadcast_sends [OF r1(1) Cons.prems(2)] Cons.IH [OF r1(2)] Cons.prems(2) show ?case
    by (simp add: fold_res_append)
qed simp

lemma router_act_sends:
  assumes "router_act client ev r = Inr r'" and "rest_client_ok client" and "funding_cache_ok client (gr_verifier r)"
  shows "fold_res send_unwrap (forwarded client ev) (gr_sender r) = Inr (gr_sender r') \<and> funding_cache_ok client (gr_verifier r')"
proof -
  have one: "fold_res send_unwrap (event_message client e) (gr_sender r) = Inr (gr_sender r') \<and> funding_cache_ok client (gr_verifier r')"
    if "broadcast_step client e r = Inr r'" for e
    using broadcast_sends [OF that assms(3)] broadcast_keeps [OF that] assms(3) by simp
  show ?thesis
  proof (cases ev)
    case (Handle_Node native msg)
    then show ?thesis using assms(1,3) one [of "BroadcastNodeAnnouncement msg"]
      by (cases native) (auto simp: router_act_def handle_node_announcement_def forwarded_def broadcast_step_def bind_res_eq_Inr)
  next
    case (Handle_Channel native msg)
    then show ?thesis using assms(1,3) one [of "BroadcastChannelAnnouncement msg"]
      by (cases native) (auto simp: router_act_def handle_channel_announcement_def forwarded_def broadcast_step_def bind_res_eq_Inr)
  next
    case (Handle_Update native msg)
    then show ?thesis using assms(1,3) one [of "BroadcastChannelUpdate msg"]
      by (cases native) (auto simp: router_act_def handle_channel_update_def forwarded_def broadcast_step_def bind_res_eq_Inr)
  next
    case (Pending_Events evs native)
    then show ?thesis using assms(1,3) broadcasts_send [of client evs r r']
      by (auto simp: router_act_def get_and_clear_pending_msg_events_def forwarded_def bind_res_eq_Inr)
  next
    case (Utxo_Lookup scid)
    then show ?thesis using assms(1) lookup_txo_spec [OF assms(2,3), of scid]
      by (auto simp: router_act_def forwarded_def get_utxo_def bind_res_eq_Inr)
  qed (use assms(1) in \<open>simp add: router_act_def\<close>)
qed

lemma sends_run:
  assumes "fold_res send_unwrap ms (gp_receiver p) = Inr ch" and "\<not> gp_aborted p"
  shows "persister_run W prune p (map Send ms) (p\<lparr>gp_receiver := ch\<rparr>)"
  using assms
proof (induction ms arbitrary: p)
  case Nil
  then show ?case by (auto intro: persister_run.start)
next
  case (Cons m ms)
  from Cons.prems(1) obtain ch1 where ch1: "send_unwrap m (gp_receiver p) = Inr ch1" "fold_res send_unwrap ms ch1 = Inr ch"
    by (auto simp: bind_res_eq_Inr)
  from Cons.IH [of "p\<lparr>gp_receiver := ch1\<rparr>"] ch1(2) Cons.prems(2)
  have "persister_run W prune (p\<lparr>gp_receiver := ch1\<rparr>) (map Send ms) (p\<lparr>gp_receiver := ch\<rparr>)" by simp
  with run_prepend [OF persister_step.send [OF Cons.prems(2) ch1(1)]] show ?case by simp
qed

lemma sent_of_sends: "sent_of (map Send ms) = ms"
  by (induction ms) (simp_all add: sent_of_def)

section \<open>Runs of the server\<close>

definition accepted :: "rest_client \<Rightarrow> server_action list \<Rightarrow> gossip_message list" where
  "accepted client acts = concat (map (\<lambda>a. case a of Router_Action ev _ \<Rightarrow> forwarded client ev | _ \<Rightarrow> []) acts)"

lemma server_run_append:
  "server_run client W prune (as @ bs) s = (case server_run client W prune as s of None \<Rightarrow> None | Some s' \<Rightarrow> server_run client W prune bs s')"
  by (induction as arbitrary: s) (auto split: option.split)

lemma server_act_startup:
  assumes "server_act client W prune a s = Some s'" and "\<forall>ev x. a \<noteq> Router_Action ev x"
  shows "startup_step W prune (sv_startup s) None (sv_startup s') \<and> sv_router s' = sv_router s"
  using assms
  by (cases a) (auto simp: server_act_def set_persister_def Let_def intro: startup_step.intros split: if_splits)

text \<open>What the persister of a running server has been sent: the backfill so far and what the router accepted.\<close>

definition server_inv :: "(network_graph \<Rightarrow> network_graph) \<Rightarrow> message_writer \<Rightarrow> rest_client \<Rightarrow> gossip_persister \<Rightarrow> gossip_message list \<Rightarrow> gossip_message list \<Rightarrow> server \<Rightarrow> bool" where
  "server_inv prune W client p0 bs ms s \<longleftrightarrow> funding_cache_ok client (gr_verifier (sv_router s)) \<and>
     (\<exists>evs. persister_run W prune p0 evs (cached_view prune (sv_startup s)) \<and> backfill_due evs (sv_startup s) (mset bs + mset ms))"

lemma server_inv_start:
  "server_inv prune W client (persist_gossip_start (mpsc_channel 100) st graph file) (backfill_messages iter graph) [] (server_start iter st graph file)"
proof -
  have "funding_cache_ok client (gr_verifier (sv_router (server_start iter st graph file)))"
    by (simp add: server_start_def set_pm_def set_ph_def gossip_router_new_def chain_verifier_new_def funding_cache_ok_def get_cached_funding_value_def)
  moreover have "persister_run W prune (persist_gossip_start (mpsc_channel 100) st graph file) [] (cached_view prune (sv_startup (server_start iter st graph file)))"
    by (simp add: server_start_def startup_start_def cached_view_def persister_run.start)
  moreover have "backfill_due [] (sv_startup (server_start iter st graph file)) (mset (backfill_messages iter graph) + mset [])"
    by (simp add: server_start_def startup_start_def backfill_due_def)
  ultimately show ?thesis unfolding server_inv_def by blast
qed

lemma server_inv_router:
  assumes "server_inv prune W client p0 bs ms s" and "rest_client_ok client"
    and "server_act client W prune (Router_Action ev x) s = Some s'" and "\<not> aborted s'"
  shows "server_inv prune W client p0 bs (ms @ forwarded client ev) s'"
proof -
  let ?p = "su_persister (sv_startup s)" and ?u = "sv_startup s"
  from assms(3,4) obtain r where r: "router_act client ev ((sv_router s)\<lparr>gr_sender := gp_receiver ?p\<rparr>) = Inr r" "\<not> gp_aborted ?p" "\<not> su_reading ?u"
    and s': "s' = (set_persister (?p\<lparr>gp_receiver := gr_sender r\<rparr>) s)\<lparr>sv_router := r\<rparr>"
    by (auto simp: server_act_def set_persister_def abort_process_def Let_def split: if_splits sum.splits)
  from assms(1) obtain evs where evs: "persister_run W prune p0 evs (cached_view prune ?u)" "backfill_due evs ?u (mset bs + mset ms)"
    and cache: "funding_cache_ok client (gr_verifier (sv_router s))" unfolding server_inv_def by blast
  have sends: "fold_res send_unwrap (forwarded client ev) (gp_receiver (cached_view prune ?u)) = Inr (gr_sender r)" "funding_cache_ok client (gr_verifier r)"
    using router_act_sends [OF r(1) assms(2)] cache by simp_all
  have "cached_view prune (sv_startup s') = (cached_view prune ?u)\<lparr>gp_receiver := gr_sender r\<rparr>"
    by (simp add: s' set_persister_def cached_view_def persist_network_graph_def)
  with run_append [OF evs(1) sends_run [OF sends(1)]] r(2)
  have "persister_run W prune p0 (evs @ map Send (forwarded client ev)) (cached_view prune (sv_startup s'))" by simp
  moreover have "backfill_due (evs @ map Send (forwarded client ev)) (sv_startup s') (mset bs + mset (ms @ forwarded client ev))"
    using evs(2) r(3) by (auto simp: backfill_due_def sent_of_sends s' set_persister_def)
  ultimately show ?thesis using sends(2) unfolding server_inv_def by (auto simp: s')
qed

lemma server_run_inv:
  assumes "server_run client W prune acts s0 = Some s" and "rest_client_ok client" and "\<not> aborted s"
    and "server_inv prune W client p0 bs [] s0"
  shows "server_inv prune W client p0 bs (accepted client acts) s"
  using assms(1,3)
proof (induction acts arbitrary: s rule: rev_induct)
  case Nil
  then show ?case using assms(4) by (simp add: accepted_def)
next
  case (snoc a acts)
  then obtain s1 where s1: "server_run client W prune acts s0 = Some s1" "server_act client W prune a s1 = Some s"
    by (auto simp: server_run_append split: option.splits)
  then have "\<not> aborted s1" by (auto simp: server_act_def Let_def split: if_splits)
  note IH = snoc.IH [OF s1(1) this]
  show ?case
  proof (cases "\<exists>ev x. a = Router_Action ev x")
    case True
    then show ?thesis using server_inv_router [OF IH assms(2)] s1(2) snoc.prems(2) by (auto simp: accepted_def)
  next
    case False
    with server_act_startup [OF s1(2)] have st: "startup_step W prune (sv_startup s1) None (sv_startup s)" "sv_router s = sv_router s1" by blast+
    from IH obtain evs where evs: "persister_run W prune p0 evs (cached_view prune (sv_startup s1))"
      "backfill_due evs (sv_startup s1) (mset bs + mset (accepted client acts))"
      and cache: "funding_cache_ok client (gr_verifier (sv_router s1))" unfolding server_inv_def by blast
    have "accepted client (acts @ [a]) = accepted client acts" using False by (cases a) (auto simp: accepted_def)
    with startup_step_refines [OF st(1) evs(2)] evs(1) cache st(2) show ?thesis
      unfolding server_inv_def by (auto intro: persister_run.step)
  qed
qed

section \<open>Properties\<close>

text \<open>
  C1. Gossip reaches the client. Take any run of the server after \<open>main\<close> has started it, from empty
  tables, with the backfill, the handlers of the router, the lookups of the chain verifier, the steps of
  the persister and its inserts in any order, that has not aborted and has nothing under way any more. Then a delta can be calculated
  from the tables, serialized and decoded without a panic; and for every update that the router
  accepted or the backfill replayed, whose channel was announced among these messages and is in the
  graph, a client that has nothing yet and whose last sync was before the gossip was seen arrives at the
  policy of the update with the highest timestamp in that direction, up to the flags when a reminder is
  due.
\<close>

theorem accepted_gossip_reaches_client:
  assumes "wire_ok V R" and "hash_orders_ok ho" and "checked_sub now_3 CHANNEL_REMINDER_AGE = Some t" and client: "rest_client_ok client"
    and main: "snd (server_main read read_graph new_graph connect iter e cache_file empty_store l) = Inr s\<^sub>0"
    and run: "server_run client W prune' acts s\<^sub>0 = Some s" and fin: "startup_done (sv_startup s)" "\<not> aborted s"
    and M: "M = set (su_backfill (sv_startup s\<^sub>0)) \<union> set (accepted client acts)" and "reads_back W E M" and "scans_ok E"
    and "\<forall>m \<in> M. gossip_fits V m" and "hm_inv (graph_node_deltas (prune g))"
    and "\<forall>(n, info) \<in> set (graph_nodes (prune g)). node_id_prefixed V n \<and> (\<forall>i. info = Some i \<longrightarrow> node_features_fit (nai_features i))"
    and db: "db = st_db (gp_store (su_persister (sv_startup s)))"
    and "2 * length (db_channel_announcements db) + length (graph_nodes (prune g)) < 2 ^ 32"
    and "PRUNE_INTERVAL \<le> reference_or reference now_1" and "PRUNE_INTERVAL \<le> reference_or reference now_2"
    and "\<forall>r \<in> set (db_channel_updates db). after_sync last_sync r"
  shows "\<exists>s resp snap. calculate_delta e genesis ho E prune now_1 now_2 now_3 db g last_sync reference = Inr (s, prune g) \<and>
    serialize_delta V e ho s version = Inr resp \<and> decode_snapshot R (sr_data resp) = Some (snap, []) \<and>
    (\<forall>u s a f s'. ChannelUpdate u s \<in> M \<and> ChannelAnnouncement a f s' \<in> M \<and>
       ca_short_channel_id (contents a) = cu_short_channel_id (contents u) \<and> cu_short_channel_id (contents u) \<in> set (graph_channel_ids (prune g)) \<longrightarrow>
       (\<exists>u' pol. newest_update M (cu_short_channel_id (contents u)) (bit (cu_channel_flags (contents u)) 0) u' \<and>
         client_direction (ws_updates snap) (cu_short_channel_id (contents u)) (bit (cu_channel_flags (contents u)) 0) None = Some pol \<and>
         same_but_flags pol (policy_of (contents u')) \<and>
         (\<not> reminder_due E db (graph_channel_ids (prune g)) last_sync (reference_or reference now_1) (cu_short_channel_id (contents u)) \<longrightarrow>
           pol = policy_of (contents u'))))"
proof -
  from main obtain graph cached interval net where s\<^sub>0: "s\<^sub>0 = server_start iter empty_store graph cached"
    and env: "snapshot_generation_interval e = Inr interval" "config_network e = Inr net" by (rule server_main_starts)
  from server_run_inv [OF run [unfolded s\<^sub>0] client fin(2) server_inv_start] obtain evs where
    evs: "persister_run W prune' (persist_gossip_start (mpsc_channel 100) empty_store graph cached) evs (cached_view prune' (sv_startup s))"
      "backfill_due evs (sv_startup s) (mset (backfill_messages iter graph) + mset (accepted client acts))" unfolding server_inv_def by blast
  have idle: "cached_view prune' (sv_startup s) = su_persister (sv_startup s)" "drained (su_persister (sv_startup s))" "su_backfill (sv_startup s) = []"
    using fin(1) evs(2) by (auto simp: startup_done_def cached_view_def backfill_due_def)
  then have "mset (sent_of evs) = mset (backfill_messages iter graph) + mset (accepted client acts)" using evs(2) by (auto simp: backfill_due_def)
  then have "set (sent_of evs) = set (backfill_messages iter graph) \<union> set (accepted client acts)" by (metis set_mset_mset set_mset_union)
  then have sent: "set (sent_of evs) = M" by (simp add: M s\<^sub>0 server_start_def startup_start_def)
  show ?thesis
    by (rule persisted_reaches_client [OF assms(1,2) env assms(3) evs(1) [unfolded idle(1)] idle(2), unfolded sent]) fact+
qed

text \<open>A run: the output of a channel is looked up, its announcement and an update are accepted and inserted.\<close>

definition sample_chain :: rest_client where
  "sample_chain = \<lparr>rc_block_hash = (\<lambda>_. Some (replicate 32 1)),
     rc_block = (\<lambda>_. Some (FullBlock [replicate 101 \<lparr>txo_value = 1000, txo_script_pubkey = []\<rparr>]))\<rparr>"

lemma sample_chain_ok: "rest_client_ok sample_chain"
  by (simp add: rest_client_ok_def sample_chain_def)

lemma sample_chain_output: "chain_output sample_chain 100 = Inr \<lparr>txo_value = 1000, txo_script_pubkey = []\<rparr>"
  by (simp add: chain_output_def sample_chain_def block_height_def transaction_index_def output_index_def)

definition sample_actions :: "server_action list" where
  "sample_actions = [Backfill_Action, Router_Action (Utxo_Lookup 100) [], Router_Action (Handle_Channel (Inr True) (Signed (sample_announcement 100) [])) [],
     Take_Action False, Spawn_Action, Router_Action (Handle_Update (Inr True) (Signed (sample_update 100 0 7) [])) [],
     Finish_Action 0 (seconds 1700000000), Take_Action False, Spawn_Action, Finish_Action 0 (seconds 1700000010)]"

definition sample_server :: server where
  "sample_server = server_start rev empty_store \<lparr>graph_channels = [], graph_nodes = []\<rparr> None"

definition sample_server_end :: server where
  "sample_server_end = \<lparr>
     sv_startup = \<lparr>su_persister = (su_persister (sv_startup sample_server))\<lparr>gp_count := 2, gp_permits := 16, gp_connections := 1,
         gp_store := \<lparr>st_db = st_db (gp_store sample_end), st_next_id = 2\<rparr>\<rparr>,
       su_backfill = [], su_reading = False, su_caching = False\<rparr>,
     sv_router = \<lparr>gr_counter = gossip_counter_new\<lparr>gc_channel_announcements := 1, gc_channel_updates := 1\<rparr>,
       gr_sender = (mpsc_channel 100)\<lparr>ch_buffer := [sample_gossip_update]\<rparr>,
       gr_verifier = \<lparr>cv_channel_funding_amounts = [(100, 1000)], cv_peer_handler = True\<rparr>\<rparr>\<rparr>"

lemma sample_server_main:
  "snd (server_main (\<lambda>_. None) (\<lambda>_. None) (\<lambda>_. \<lparr>graph_channels = [], graph_nodes = []\<rparr>) (\<lambda>_. Some ()) rev sample_env None empty_store
     \<lparr>ly_schema = None, ly_tables = [], ly_indexes = []\<rparr>) = Inr sample_server"
proof -
  obtain l where "initialize_db (\<lambda>_. None) \<lparr>ly_schema = None, ly_tables = [], ly_indexes = []\<rparr> = (l, None)"
    using fresh_database_initialized by blast
  then show ?thesis
    by (simp add: server_main_def rapid_sync_processor_new_def gossip_persister_new_def connect_to_db_def sample_env_network sample_env_interval
        sample_server_def Let_def)
qed

lemma sample_server_run: "server_run sample_chain sample_writer (\<lambda>g. g) sample_actions sample_server = Some sample_server_end"
proof -
  have ann: "execute_insert sample_writer (ChannelAnnouncement a f None) now st = insert_announcement sample_writer a f now st" for a f now st
    by (simp add: execute_insert_def)
  have upd: "execute_insert sample_writer (ChannelUpdate u None) now st = insert_update sample_writer u now st" for u now st
    by (simp add: execute_insert_def)
  have scid: "ca_short_channel_id (sample_announcement 100) = 100" by (simp add: sample_announcement_def)
  have cache: "get_cached_funding_value 100 \<lparr>cv_channel_funding_amounts = [(100, 1000)], cv_peer_handler = True\<rparr> = Some 1000"
    by (simp add: get_cached_funding_value_def)
  have insert: "hm_insert 100 1000 [] = [(100 :: u64, 1000 :: u64)]" by (simp add: hm_insert_def)
  show ?thesis
    by (simp add: sample_actions_def sample_server_def sample_server_end_def server_start_def startup_start_def server_act_def set_persister_def
        backfill_next_def backfill_messages_def persist_gossip_start_def mpsc_channel_def INSERT_PARALELLISM_def gossip_router_new_def set_pm_def set_ph_def
        chain_verifier_new_def router_act_def get_utxo_def lookup_txo_def retrieve_cache_txo_spec [OF sample_chain_ok] sample_chain_output
        handle_channel_announcement_def new_channel_announcement_def scid cache insert forward_def try_send_or_wait_eq send_unwrap_def has_room_def
        handle_channel_update_def new_channel_update_def take_next_def take_message_def recv_def spawn_next_def spawn_insert_def finish_insert_def
        remove_nth_def ann upd insert_announcement_def insert_update_def empty_store_def sample_end_def sample_start_def gossip_counter_new_def
        sample_gossip_update_def Let_def)
qed

lemma sample_accepted: "accepted sample_chain sample_actions = [sample_gossip_announcement, sample_gossip_update]"
  by (simp add: accepted_def sample_actions_def forwarded_def event_message_def funding_of_def sample_chain_output sample_announcement_def
      sample_gossip_announcement_def sample_gossip_update_def)

theorem accepted_gossip_reaches_client_witness:
  "\<exists>s resp snap. calculate_delta sample_env sample_genesis sample_orders sample_lookup (\<lambda>g. g) 0 0 1700006405
      (st_db (gp_store (su_persister (sv_startup sample_server_end)))) sample_graph 1699950000 (Some 1700006400) = Inr (s, sample_graph) \<and>
    serialize_delta bolt_wire sample_env sample_orders s 2 = Inr resp \<and> decode_snapshot bolt_reader (sr_data resp) = Some (snap, []) \<and>
    client_direction (ws_updates snap) 100 False None = Some (policy_of (sample_update 100 0 7))"
proof -
  let ?M = "{sample_gossip_announcement, sample_gossip_update}"
  let ?db = "st_db (gp_store (su_persister (sv_startup sample_server_end)))"
  have fin: "startup_done (sv_startup sample_server_end)" "\<not> aborted sample_server_end"
    by (simp_all add: sample_server_end_def sample_server_def server_start_def startup_start_def startup_done_def drained_def persist_gossip_start_def mpsc_channel_ok)
  have M: "?M = set (su_backfill (sv_startup sample_server)) \<union> set (accepted sample_chain sample_actions)"
    by (simp add: sample_server_def server_start_def startup_start_def backfill_messages_def sample_accepted)
  have db: "?db = st_db (gp_store sample_end)" by (simp add: sample_server_end_def)
  have fits: "\<forall>m \<in> ?M. gossip_fits bolt_wire m"
    by (simp add: gossip_fits_def sample_gossip_announcement_def sample_gossip_update_def sample_announcement_def sample_update_def
        channel_features_fit_def sample_node_prefixed)
  have nodes: "\<forall>(n, info) \<in> set (graph_nodes sample_graph). node_id_prefixed bolt_wire n \<and> (\<forall>i. info = Some i \<longrightarrow> node_features_fit (nai_features i))"
    using sample_stored_gossip_ok by (simp add: stored_gossip_ok_def)
  have size: "2 * length (db_channel_announcements ?db) + length (graph_nodes sample_graph) < 2 ^ 32"
    unfolding db by (simp add: sample_end_def sample_graph_def)
  have after: "\<forall>r \<in> set (db_channel_updates ?db). after_sync 1699950000 r"
    unfolding db by (simp add: sample_end_def after_sync_def to_timestamp_def update_row_def Let_def seconds_def)
  have quiet: "\<not> reminder_due sample_lookup db ids 1699950000 (reference_or (Some 1700006400) 0) scid" for db ids scid
    using sample_quiet by (simp add: reminder_due_def reference_or_def)
  have newest: "contents u = sample_update 100 0 7" if "newest_update ?M scid b u" for scid b u
    using that unfolding newest_update_def by (auto simp: sample_gossip_update_def sample_gossip_announcement_def)
  note main = accepted_gossip_reaches_client [where prune = "\<lambda>g. g" and g = sample_graph and last_sync = 1699950000 and version = 2 and
      genesis = sample_genesis,
      OF bolt_wire_ok sample_orders_ok sample_snapshot_clock sample_chain_ok sample_server_main sample_server_run fin M sample_reads_back [unfolded sample_sent] sample_scans fits sample_graph_inv nodes refl
      size sample_time sample_time after, of 0 0]
  from main obtain s resp snap where
    r: "calculate_delta sample_env sample_genesis sample_orders sample_lookup (\<lambda>g. g) 0 0 1700006405 ?db sample_graph 1699950000 (Some 1700006400) = Inr (s, sample_graph)"
      "serialize_delta bolt_wire sample_env sample_orders s 2 = Inr resp" "decode_snapshot bolt_reader (sr_data resp) = Some (snap, [])"
    and cl: "\<forall>u s a f s'. ChannelUpdate u s \<in> ?M \<and> ChannelAnnouncement a f s' \<in> ?M \<and>
       ca_short_channel_id (contents a) = cu_short_channel_id (contents u) \<and> cu_short_channel_id (contents u) \<in> set (graph_channel_ids sample_graph) \<longrightarrow>
       (\<exists>u' pol. newest_update ?M (cu_short_channel_id (contents u)) (bit (cu_channel_flags (contents u)) 0) u' \<and>
         client_direction (ws_updates snap) (cu_short_channel_id (contents u)) (bit (cu_channel_flags (contents u)) 0) None = Some pol \<and>
         same_but_flags pol (policy_of (contents u')) \<and>
         (\<not> reminder_due sample_lookup ?db (graph_channel_ids sample_graph) 1699950000
             (reference_or (Some 1700006400) 0) (cu_short_channel_id (contents u)) \<longrightarrow> pol = policy_of (contents u')))"
    by (elim exE conjE)
  have "client_direction (ws_updates snap) 100 False None = Some (policy_of (sample_update 100 0 7))"
    using cl [rule_format, of "Signed (sample_update 100 0 7) []" None "Signed (sample_announcement 100) []" 1000 None] newest quiet
    by (auto simp: sample_gossip_update_def sample_gossip_announcement_def sample_graph_channel_ids sample_update_def sample_announcement_def)
  with r show ?thesis by blast
qed

end
