(* ===== verification/Logger.thy ===== *)
theory Logger
  imports Config
begin

text \<open>
  src/types.rs, the logger: a record is printed when its level reaches the threshold of the
  environment, and a bad threshold panics at the first record. The levels are ordered as LDK declares
  them, from the most verbose; their printed names are LDK's, a parameter.
\<close>

section \<open>The order of the levels\<close>

fun level_index :: "log_level \<Rightarrow> nat" where
  "level_index Gossip = 0"
| "level_index Trace = 1"
| "level_index Debug = 2"
| "level_index Info = 3"
| "level_index Warn = 4"
| "level_index Error = 5"

lemma level_index_inj: "level_index a = level_index b \<longleftrightarrow> a = b"
  by (cases a; cases b) auto

instantiation log_level :: linorder
begin

definition less_eq_log_level :: "log_level \<Rightarrow> log_level \<Rightarrow> bool" where
  "less_eq_log_level a b \<longleftrightarrow> level_index a \<le> level_index b"

definition less_log_level :: "log_level \<Rightarrow> log_level \<Rightarrow> bool" where
  "less_log_level a b \<longleftrightarrow> level_index a < level_index b"

instance
  by intro_classes (auto simp: less_eq_log_level_def less_log_level_def level_index_inj)

end

section \<open>Records\<close>

record log_record =
  lr_level :: log_level
  lr_args :: string
  lr_module_path :: string
  lr_file :: string
  lr_line :: u32

text \<open>The format \<open>{:<5}\<close>: spaces on the right up to the width.\<close>

definition pad_right :: "nat \<Rightarrow> string \<Rightarrow> string" where
  "pad_right width s = s @ replicate (width - length s) (CHR '' '')"

definition format_record :: "(log_level \<Rightarrow> string) \<Rightarrow> log_record \<Rightarrow> string" where
  "format_record level_name r =
     pad_right 5 (level_name (lr_level r)) @ '' ['' @ lr_module_path r @ '' : '' @ lr_file r @ '', '' @
     dec_string (unat (lr_line r)) @ ''] '' @ lr_args r"

definition log :: "(log_level \<Rightarrow> string) \<Rightarrow> env \<Rightarrow> log_record \<Rightarrow> string option res" where
  "log level_name e r = bind_res (config_log_level e) (\<lambda>threshold.
     if lr_level r < threshold then Inr None else Inr (Some (format_record level_name r)))"

text \<open>With a valid threshold exactly the records at or above it are printed, so raising the threshold prints less.\<close>

lemma log_prints:
  assumes "config_log_level e = Inr threshold"
  shows "log level_name e r = Inr (if threshold \<le> lr_level r then Some (format_record level_name r) else None)"
  using assms by (auto simp: log_def)

lemma log_monotone:
  assumes "config_log_level e = Inr lo" and "config_log_level e' = Inr hi" and "lo \<le> hi"
    and "log level_name e' r = Inr (Some s)"
  shows "log level_name e r = Inr (Some s)"
  using assms by (auto simp: log_prints split: if_splits)

lemma log_panics: "(\<exists>p. log level_name e r = Inl p) \<longleftrightarrow> (\<exists>p. config_log_level e = Inl p)"
  by (cases "config_log_level e") (auto simp: log_def)

end
