(* ===== verification/Spec2Isabelle.thy ===== *)
theory Spec2Isabelle
  imports Snapshot_Properties Server Logger
begin

text \<open>
  A verification development of the rapid gossip sync server. The server downloads the gossip of the
  Lightning network from a few peers, stores it in a Postgres database, and at regular intervals
  writes snapshots: files that bring a client which last synchronised at some earlier time up to date.

  \<^bold>\<open>Parts of the program and the theories that model them\<close>

  \<^item> The entry points (src/lib.rs, src/main.rs). \<open>RapidSyncProcessor::new\<close> loads a cached network
    graph and \<open>start_sync\<close> starts the persister, replays the graph, downloads gossip and, after the
    first completion, runs the snapshot job: theories Start_Sync (loading, the messages of the backfill,
    the order of the start), Startup (the backfill and the persister with the lock on the graph, as a
    step relation) and Server (\<open>main\<close>, and the router and the persister at work on the channel they
    share, as lists of actions).

  \<^item> Downloading (src/downloader.rs, src/verifier.rs, src/tracking.rs). LDK's peer manager calls the
    router, which has messages checked by LDK and the chain verifier and forwards them through a bounded
    channel to the persister; the tracker connects to the peers and reports when the gossip has calmed
    down. Theories Message_Queue (tokio's channel, with its contract as the locale message_queue),
    Verifier (the cache of funding amounts and the lookup of an output by a short channel id),
    Downloader (router, counters and pending events, with a step relation), Tracking (connecting and
    counting peers, the monitor as a state machine).

  \<^item> Persisting (src/persistence.rs). Theories Persistence (the row of a message, the insert
    statements, the persister with its permits, connections and tasks as a step relation),
    Persistence_Runs (invariants of its runs), Persistence_Properties.

  \<^item> The schema (src/config.rs, \<open>upgrade_db\<close> and the creation queries; \<open>GossipPersister::new\<close>).
    Theories Schema (tables with typed columns and cells, every migration as its list of statements,
    the background task that looks up funding amounts, initialization), Schema_Upgrade (recorded
    versions, restarting, the loops that fill columns), Schema_Types (column types are kept;
    the parameters of the inserts), Schema_Columns (the effect of the statements on columns, rows and unique
    indexes), Schema_Properties, Schema_Inserts (the insert statements on cells, with unique indexes and
    conflict clauses, refine the rows of Persistence, through the locale message_table).

  \<^item> Looking up (src/lookup.rs). Theories Database (the tables and the SQL constructs the queries are
    made of), Delta_Types (delta sets), Lookup (one definition per query and per row step, folded as in
    the source), Lookup_Channels, Lookup_Announcements and Lookup_Nodes (what the three fetch functions
    deliver), Delta_Calculation (\<open>calculate_delta\<close> of src/lib.rs), Sync_Properties and
    Reminder_Properties.

  \<^item> Serializing (src/serialization.rs and \<open>serialize_delta\<close> of src/lib.rs). Theories Serialization
    (\<open>serialize_delta_set\<close>: which announcements and updates are sent and how, defaults, histograms;
    the stripped encodings), Rapid_Sync (\<open>serialize_delta\<close>, \<open>serialize_empty_blob\<close>), Wire_Format
    (the encodings of BOLT 1, with the locales codec and stream_codec), Stripped_Codec, Node_Section and
    Snapshot_Format (reference readers and that they read back what is written),
    Serialization_Properties, Client_Sync (what a client makes of a snapshot).

  \<^item> The snapshot job (src/snapshot.rs). Theories File_System (the calls of \<open>std::fs\<close> used, with
    the locale node_store), Snapshot (scopes, a round, links, the schedule), Snapshot_Rounds,
    Snapshot_Links and Snapshot_Serving (the tree a round leaves), Snapshot_Properties.

  \<^item> Configuration, hexadecimal decoding and logging (src/config.rs, src/hex_utils.rs, src/types.rs).
    Theories Config, Hex_Utils, Gossip_Types and Logger.

  Gossip_To_Client joins the parts from the messages sent to the persister to the policies of a client, and
  Server those from \<open>main\<close> and the handlers of the router to the messages sent.
  RGS_Prelude and Rust_Collections are shared: machine integers, panics, loops that may panic, B-tree and
  hash maps with the locales rust_map and ordered_rust_map. Sample_Data and Sample_Database hold the
  concrete inputs on which properties are instantiated.

  \<^bold>\<open>Conventions\<close>

  A panic is a value: an operation that may panic returns \<open>panic + 'a\<close>, and every unwrap, assertion
  and explicit panic of the source is a branch of it. The profiles of src/Cargo.toml abort on a panic, so
  a panic in any task, also in a spawned one, ends the whole process. Integers have their width and wrap, as in the
  release profile. Code for \<open>cfg(test)\<close> is left out, and so are log lines, except where the monitor
  and the logger itself are modelled. The order in which the database delivers rows that a query does not
  order, and the iteration order of hash maps, are arguments of the definitions; the properties hold for
  every reordering. Times come in as arguments. LDK's readers and writers of messages, its pruning of
  the graph, the REST interface of the bitcoin node and the host name resolver are parameters; what is
  relied on is stated as hypotheses (\<open>wire_ok\<close>, \<open>lookup_ok\<close>, \<open>reads_back\<close>, \<open>rest_client_ok\<close>),
  each with an instance in the witnesses. The encodings of BOLT 1 are an instance of the first one.
  Asynchronous tasks are steps of relations that interleave in any order.

  \<^bold>\<open>What is shown\<close>

  From end to end: gossip that the router accepts or the backfill replays, in any order of the actions,
  reaches a client through the tables, lookup, serialization and decoding, nothing panics on the way, and
  the client holds the newest update of each direction (Server, Gossip_To_Client, Delta_Calculation,
  Client_Sync). For each part: what the lookups
  deliver, row by row and for any row order; which channels are announced, which updates are full,
  incremental or reminders; that a snapshot is read back completely; that a round of the snapshot job
  leaves a tree in which every timestamp handed out leads to the smallest snapshot that covers it; that
  the persister loses no message, keeps at most sixteen inserts running and, once the backfill is over,
  always drains unless the process aborts; that the start completes and refills the tables; that the
  router forwards in order; that an upgrade of the database can be stopped and restarted at any version,
  also in its background task, fills the ids and amounts it is to fill, loses no row, and leaves the
  columns and unique indexes the inserts need; that the insert statements on such tables do what the
  model of the persister says. Errors and behaviours that look unintended are stated as properties too:
  flags are not masked, the link of an empty delta is missing for version 2, a funding amount that is not cached leads to a
  panic although it can be looked up, the backfill and the persister can wait for each other forever, the
  monitor blocks, and a database of the first version is refused after it has been upgraded.

  \<^bold>\<open>Bounds and fuel\<close>

  The loop that doubles the scopes is a partial function into option, and it is shown to return a list
  for every positive interval. The loops of the migrations that fill a column in batches carry the number
  of rows as fuel; \<open>fill_loop_returns\<close> and \<open>fill_loop_succeeds\<close> show that it suffices, since each
  batch fills at least one row. That the persister drains and the start completes is shown by measures
  of the work left, in Startup, where the persister waits for the lock on the graph before it caches it;
  the relation of Persistence caches at once, which every run of Startup refines. All other loops are
  folds over the data.

  \<^bold>\<open>Not modelled\<close>

  The construction of the peer manager with its random keys and its timer task, and the methods of the
  router that only pass a call on to LDK's router, change no state of the server. The statements that set
  the vacuum factor and the time zone have no effect on contents. The bitcoin node answers a request
  in the same way throughout a run; a second run may have another node. A calculation of a delta sees one state
  of the database and of the graph, although inserts may go on between its queries. Sequences of the
  database are unbounded here. When a handler panics in the middle of a list of pending events, the
  messages it had sent before are dropped with the rest of the process. The tests are left out.
\<close>

end
